(* ===== verification/XpPrelude.thy ===== *)
theory XpPrelude
  imports Main "HOL-Library.Word" "HOL-Library.Monad_Syntax"
begin

text \<open>
  The shared base of the development: the machine types of the driver, the error numbers
  it returns, the reading of undefined behaviour, and the generic facts on lists, options,
  words and ring indices that the component theories use.

  Conventions.
  \<^item> \<open>u8\<close>, \<open>u16\<close>, \<open>u32\<close> and \<open>u64\<close> are words, so arithmetic wraps as in C. A C \<open>int\<close>
    that is only ever combined with unsigned operands is kept as the \<open>u32\<close> bit pattern
    the C conversion gives.
  \<^item> An \<open>'a option\<close> result reads: \<open>None\<close> is a call that does not return normally,
    because C gives it no meaning (a NULL dereference, an index outside an array, an access
    outside a mapped region, a free of memory that is not allocated) or because it takes a
    spinlock its own thread already holds. \<open>Some\<close> is a normal return. Theorems that an
    operation returns \<open>Some\<close> are therefore safety theorems.
  \<^item> Return codes are \<open>int\<close>s, negative error numbers as in the kernel.
\<close>

unbundle bit_operations_syntax

named_theorems ring_arith \<open>facts on ring indices and wrap-around\<close>
named_theorems safe_intro \<open>an operation returns normally\<close>

type_synonym u8 = "8 word"
type_synonym u16 = "16 word"
type_synonym u32 = "32 word"
type_synonym u64 = "64 word"
type_synonym rc = int

abbreviation (input) EPERM :: rc where "EPERM \<equiv> 1"
abbreviation (input) EIO :: rc where "EIO \<equiv> 5"
abbreviation (input) ENOMEM :: rc where "ENOMEM \<equiv> 12"
abbreviation (input) EFAULT :: rc where "EFAULT \<equiv> 14"
abbreviation (input) EBUSY :: rc where "EBUSY \<equiv> 16"
abbreviation (input) ENODEV :: rc where "ENODEV \<equiv> 19"
abbreviation (input) EINVAL :: rc where "EINVAL \<equiv> 22"
abbreviation (input) ESPIPE :: rc where "ESPIPE \<equiv> 29"

text \<open>The page size of the x86 targets the driver is built for.\<close>

definition PAGE_SIZE :: nat where
  "PAGE_SIZE = 4096"

text \<open>A C array read and write: an index outside the array has no meaning.\<close>

definition arr_get :: "'a list \<Rightarrow> nat \<Rightarrow> 'a option" where
  "arr_get xs i = (if i < length xs then Some (xs ! i) else None)"

definition arr_set :: "'a list \<Rightarrow> nat \<Rightarrow> 'a \<Rightarrow> 'a list option" where
  "arr_set xs i v = (if i < length xs then Some (xs[i := v]) else None)"

text \<open>\<open>memcpy\<close> of \<open>n\<close> bytes between byte buffers: both ranges must lie in their buffers.\<close>

definition buf_read :: "u8 list \<Rightarrow> nat \<Rightarrow> nat \<Rightarrow> u8 list option" where
  "buf_read b off n = (if off + n \<le> length b then Some (take n (drop off b)) else None)"

definition buf_write :: "u8 list \<Rightarrow> nat \<Rightarrow> u8 list \<Rightarrow> u8 list option" where
  "buf_write b off xs =
     (if off + length xs \<le> length b
      then Some (take off b @ xs @ drop (off + length xs) b) else None)"

text \<open>Little-endian assembly of a 32-bit value from its bytes and back.\<close>

definition le32 :: "u8 \<Rightarrow> u8 \<Rightarrow> u8 \<Rightarrow> u8 \<Rightarrow> u32" where
  "le32 b0 b1 b2 b3 =
     ucast b0 OR push_bit 8 (ucast b1) OR push_bit 16 (ucast b2) OR push_bit 24 (ucast b3)"

definition byte_of32 :: "nat \<Rightarrow> u32 \<Rightarrow> u8" where
  "byte_of32 k w = ucast (drop_bit (8 * k) w)"

definition bswap32 :: "u32 \<Rightarrow> u32" where
  "bswap32 w = le32 (byte_of32 3 w) (byte_of32 2 w) (byte_of32 1 w) (byte_of32 0 w)"

text \<open>A 32-bit field of a structure in memory.\<close>

definition le32_at :: "u8 list \<Rightarrow> nat \<Rightarrow> u32" where
  "le32_at b k = le32 (b ! k) (b ! (k + 1)) (b ! (k + 2)) (b ! (k + 3))"

definition le32_bytes :: "u32 \<Rightarrow> u8 list" where
  "le32_bytes w = [byte_of32 0 w, byte_of32 1 w, byte_of32 2 w, byte_of32 3 w]"

text \<open>The two 32-bit halves of a 64-bit value, as \<open>(u32 *) &v\<close> sees them in memory.\<close>

definition lo32 :: "u64 \<Rightarrow> u32" where
  "lo32 v = ucast v"

definition hi32 :: "u64 \<Rightarrow> u32" where
  "hi32 v = ucast (drop_bit 32 v)"

definition join64 :: "u32 \<Rightarrow> u32 \<Rightarrow> u64" where
  "join64 lo hi = ucast lo OR push_bit 32 (ucast hi)"

lemma arr_get_Some [simp]: "i < length xs \<Longrightarrow> arr_get xs i = Some (xs ! i)"
  by (simp add: arr_get_def)

lemma arr_get_eq_Some: "arr_get xs i = Some v \<longleftrightarrow> i < length xs \<and> v = xs ! i"
  by (auto simp: arr_get_def)

lemma arr_set_Some [simp]: "i < length xs \<Longrightarrow> arr_set xs i v = Some (xs[i := v])"
  by (simp add: arr_set_def)

lemma buf_read_Some [simp]: "off + n \<le> length b \<Longrightarrow> buf_read b off n = Some (take n (drop off b))"
  by (simp add: buf_read_def)

lemma buf_write_Some [simp]:
  "off + length xs \<le> length b \<Longrightarrow>
   buf_write b off xs = Some (take off b @ xs @ drop (off + length xs) b)"
  by (simp add: buf_write_def)

lemma buf_write_length: "buf_write b off xs = Some b' \<Longrightarrow> length b' = length b"
  by (auto simp: buf_write_def split: if_splits)

lemma buf_write_read:
  "buf_write b off xs = Some b' \<Longrightarrow> buf_read b' off (length xs) = Some xs"
  by (auto simp: buf_write_def buf_read_def split: if_splits)

lemma byte_of32_le32 [simp]:
  "byte_of32 0 (le32 b0 b1 b2 b3) = b0"
  "byte_of32 (Suc 0) (le32 b0 b1 b2 b3) = b1"
  "byte_of32 2 (le32 b0 b1 b2 b3) = b2"
  "byte_of32 3 (le32 b0 b1 b2 b3) = b3"
  by (rule bit_word_eqI; auto simp: byte_of32_def le32_def bit_simps dest: bit_imp_le_length)+

lemma le32_byte_of32 [simp]:
  "le32 (byte_of32 0 w) (byte_of32 (Suc 0) w) (byte_of32 2 w) (byte_of32 3 w) = w"
proof (rule bit_word_eqI)
  fix n
  assume "n < LENGTH(32)"
  then have "n < 8 \<or> 8 \<le> n \<and> n < 16 \<or> 16 \<le> n \<and> n < 24 \<or> 24 \<le> n \<and> n < 32"
    by auto
  then show "bit (le32 (byte_of32 0 w) (byte_of32 (Suc 0) w) (byte_of32 2 w) (byte_of32 3 w)) n
      = bit w n"
    by (elim disjE) (auto simp: byte_of32_def le32_def bit_simps)
qed

lemma bswap32_bytes [simp]:
  "bswap32 (le32 b0 b1 b2 b3) = le32 b3 b2 b1 b0"
  by (simp add: bswap32_def)

lemma bswap32_involution [simp]: "bswap32 (bswap32 w) = w"
  by (simp add: bswap32_def)

lemma join64_halves [simp]: "join64 (lo32 v) (hi32 v) = v"
  by (rule bit_word_eqI) (auto simp: join64_def lo32_def hi32_def bit_simps)

lemma halves_join64 [simp]: "lo32 (join64 a b) = a" "hi32 (join64 a b) = b"
  by (rule bit_word_eqI; auto simp: join64_def lo32_def hi32_def bit_simps
      dest: bit_imp_le_length)+

lemma length_ge_4_conv: "4 \<le> length xs \<longleftrightarrow> (\<exists>a b c d r. xs = a # b # c # d # r)"
  by (auto simp: numeral_eq_Suc Suc_le_length_iff)

lemma length_le32_bytes [simp]: "length (le32_bytes w) = 4"
  by (simp add: le32_bytes_def)

lemma le32_at_le32_bytes [simp]: "le32_at (le32_bytes w @ xs) 0 = w" "le32_at (le32_bytes w) 0 = w"
  by (simp_all add: le32_at_def le32_bytes_def)

lemma le32_at_append: "length xs = k \<Longrightarrow> le32_at (xs @ ys) (k + j) = le32_at ys j"
  by (simp add: le32_at_def nth_append)

lemma le32_at_skip [simp]:
  "4 \<le> k \<Longrightarrow> le32_at (le32_bytes w @ ys) k = le32_at ys (k - 4)"
  using le32_at_append [of "le32_bytes w" 4 ys "k - 4"] by simp

lemma nth_skip [simp]: "4 \<le> k \<Longrightarrow> (le32_bytes w @ ys) ! k = ys ! (k - 4)"
  by (simp add: nth_append)

text \<open>A signed reading of a word whose top bit is clear.\<close>

lemma sint_nonneg:
  assumes "unat (w :: 'a::len word) < 2 ^ (LENGTH('a) - 1)"
  shows "sint w = int (unat w)"
proof -
  have u: "uint w = int (unat w)"
    by simp
  have "int (unat w) < 2 ^ (LENGTH('a) - 1)"
    using assms by (metis of_nat_less_iff of_nat_numeral of_nat_power)
  moreover have "- (2 ^ (LENGTH('a) - 1)) \<le> int (unat w)"
    by (rule order_trans [of _ 0]) simp_all
  ultimately show ?thesis
    unfolding sint_uint u by (subst signed_take_bit_int_eq_self) simp_all
qed

end
