(* ===== verification/Reg_Info.thy ===== *)
theory Reg_Info
  imports XpPrelude
begin

text \<open>
  The register map of the chip (\<open>xp_reg_info.h\<close> and the table \<open>xp_regs_list\<close> of
  \<open>xp_pcie_slave.c\<close>): the address modes, the registers the driver names, their offsets in
  BAR 0 per mode, and the address arithmetic of the per-queue DMA registers. The lemmas show
  that every register lies inside the mapped BAR and that the command and descriptor-pointer
  registers of distinct queues never share a byte.
\<close>

datatype xp_address_mode = XP_A0_UNCOMPRESSED | XP_B0_UNCOMPRESSED | XP_B0_COMPRESSED

datatype xp_register =
    HIGH_PRIO_REG_ADDR
  | LOW_PRIO_REG_ADDR
  | HIGH_INTR_SOURCE_REG_ADDR
  | DMA0_TXDONE_STATUS_REG
  | DMA0_RXDONE_STATUS_REG
  | HIGH_PRIO_INT_ENABLE_REG_ADDR
  | LOW_PRIO_INT_ENABLE_REG_ADDR
  | DMA0_RX_CDP_REG_E
  | DMA0_TX_CDP_REG_E
  | DMA0_RX_CMD_REG_E
  | DMA0_TX_CMD_REG_E
  | CORE_CTRL_REG__1_E
  | TX_DMA0_RETRY_CNT_REG_E
  | MGMT_CTRL_REG_E
  | DMA0_CLR_ERR_CNT_REG_E
  | DMA0_TX_CHAIN_LEN_ERR_REG_E
  | DMA0_TX_CPU_OWN_DESC_ERR_REG_E
  | DMA0_TX_ZERO_BUF_LEN_ERR_REG_E
  | DMA0_TX_PCIE_ERR_REG_E
  | DMA0_TX_DMA_INTF_ERR_REG_E
  | DMA0_TX_PKT_DROP_E
  | TX_DMA0_CFG_REGLOCKREG_E
  | TX_DMA0_SCRATCHPAD_E
  | DMA0_RX_CHAIN_LEN_ERR_REG_E
  | DMA0_RX_CPU_OWN_DESC_ERR_REG_E
  | DMA0_RX_ZERO_BUF_LEN_ERR_REG_E
  | DMA0_RX_PCIE_ERR_REG_E
  | RX_DMA0_CFG_REGLOCKREG_E
  | RX_DMA0_SCRATCHPAD_E
  | CPU_CTRL_REG_E
  | CPU_STS_REG_E
  | SRAM_MEM_CFG_SRAM_EXT_MEM_E

instantiation xp_address_mode :: enum
begin
definition enum_xp_address_mode :: "xp_address_mode list" where
  "enum_xp_address_mode = [XP_A0_UNCOMPRESSED, XP_B0_UNCOMPRESSED, XP_B0_COMPRESSED]"
definition enum_all_xp_address_mode :: "(xp_address_mode \<Rightarrow> bool) \<Rightarrow> bool" where
  "enum_all_xp_address_mode P \<longleftrightarrow> list_all P Enum.enum"
definition enum_ex_xp_address_mode :: "(xp_address_mode \<Rightarrow> bool) \<Rightarrow> bool" where
  "enum_ex_xp_address_mode P \<longleftrightarrow> list_ex P Enum.enum"
instance
proof
  show u: "(UNIV :: xp_address_mode set) = set Enum.enum"
    by (auto simp: enum_xp_address_mode_def intro: xp_address_mode.exhaust)
  show "distinct (Enum.enum :: xp_address_mode list)"
    by (simp add: enum_xp_address_mode_def)
  show "Enum.enum_all P \<longleftrightarrow> Ball (UNIV :: xp_address_mode set) P" for P
    by (simp add: enum_all_xp_address_mode_def list_all_iff flip: u)
  show "Enum.enum_ex P \<longleftrightarrow> Bex (UNIV :: xp_address_mode set) P" for P
    by (simp add: enum_ex_xp_address_mode_def list_ex_iff flip: u)
qed
end

instantiation xp_register :: enum
begin
definition enum_xp_register :: "xp_register list" where
  "enum_xp_register =
     [HIGH_PRIO_REG_ADDR,
      LOW_PRIO_REG_ADDR,
      HIGH_INTR_SOURCE_REG_ADDR,
      DMA0_TXDONE_STATUS_REG,
      DMA0_RXDONE_STATUS_REG,
      HIGH_PRIO_INT_ENABLE_REG_ADDR,
      LOW_PRIO_INT_ENABLE_REG_ADDR,
      DMA0_RX_CDP_REG_E,
      DMA0_TX_CDP_REG_E,
      DMA0_RX_CMD_REG_E,
      DMA0_TX_CMD_REG_E,
      CORE_CTRL_REG__1_E,
      TX_DMA0_RETRY_CNT_REG_E,
      MGMT_CTRL_REG_E,
      DMA0_CLR_ERR_CNT_REG_E,
      DMA0_TX_CHAIN_LEN_ERR_REG_E,
      DMA0_TX_CPU_OWN_DESC_ERR_REG_E,
      DMA0_TX_ZERO_BUF_LEN_ERR_REG_E,
      DMA0_TX_PCIE_ERR_REG_E,
      DMA0_TX_DMA_INTF_ERR_REG_E,
      DMA0_TX_PKT_DROP_E,
      TX_DMA0_CFG_REGLOCKREG_E,
      TX_DMA0_SCRATCHPAD_E,
      DMA0_RX_CHAIN_LEN_ERR_REG_E,
      DMA0_RX_CPU_OWN_DESC_ERR_REG_E,
      DMA0_RX_ZERO_BUF_LEN_ERR_REG_E,
      DMA0_RX_PCIE_ERR_REG_E,
      RX_DMA0_CFG_REGLOCKREG_E,
      RX_DMA0_SCRATCHPAD_E,
      CPU_CTRL_REG_E,
      CPU_STS_REG_E,
      SRAM_MEM_CFG_SRAM_EXT_MEM_E]"
definition enum_all_xp_register :: "(xp_register \<Rightarrow> bool) \<Rightarrow> bool" where
  "enum_all_xp_register P \<longleftrightarrow> list_all P Enum.enum"
definition enum_ex_xp_register :: "(xp_register \<Rightarrow> bool) \<Rightarrow> bool" where
  "enum_ex_xp_register P \<longleftrightarrow> list_ex P Enum.enum"
instance
proof
  have "x \<in> set Enum.enum" for x :: xp_register
    by (cases x) (simp_all add: enum_xp_register_def)
  then show u: "(UNIV :: xp_register set) = set Enum.enum"
    by auto
  show "distinct (Enum.enum :: xp_register list)"
    by (simp add: enum_xp_register_def)
  show "Enum.enum_all P \<longleftrightarrow> Ball (UNIV :: xp_register set) P" for P
    by (simp add: enum_all_xp_register_def list_all_iff flip: u)
  show "Enum.enum_ex P \<longleftrightarrow> Bex (UNIV :: xp_register set) P" for P
    by (simp add: enum_ex_xp_register_def list_ex_iff flip: u)
qed
end

text \<open>The column of the table that a mode selects.\<close>

fun xp_address_mode_index :: "xp_address_mode \<Rightarrow> nat" where
  "xp_address_mode_index XP_A0_UNCOMPRESSED = 0"
| "xp_address_mode_index XP_B0_UNCOMPRESSED = 1"
| "xp_address_mode_index XP_B0_COMPRESSED = 2"

text \<open>One row per register: A0 uncompressed, B0 uncompressed, B0 compressed.\<close>

fun xp_regs_list :: "xp_register \<Rightarrow> u32 list" where
  "xp_regs_list HIGH_PRIO_REG_ADDR = [0x08a80080, 0x08a8019c, 0x025e819c]"
| "xp_regs_list LOW_PRIO_REG_ADDR = [0x08a80090, 0x08a801ac, 0x025e81ac]"
| "xp_regs_list HIGH_INTR_SOURCE_REG_ADDR = [0x08a8018c, 0x08a802c4, 0x025e82c4]"
| "xp_regs_list DMA0_TXDONE_STATUS_REG = [0x08b50000, 0x08b50000, 0x02744000]"
| "xp_regs_list DMA0_RXDONE_STATUS_REG = [0x08b50800, 0x08b50800, 0x02748000]"
| "xp_regs_list HIGH_PRIO_INT_ENABLE_REG_ADDR = [0, 0x08a80180, 0x025e8180]"
| "xp_regs_list LOW_PRIO_INT_ENABLE_REG_ADDR = [0, 0x08a80190, 0x025e8190]"
| "xp_regs_list DMA0_RX_CDP_REG_E = [0x08b51400, 0x08b51400, 0x02750000]"
| "xp_regs_list DMA0_TX_CDP_REG_E = [0x08b51000, 0x08b51000, 0x0274c000]"
| "xp_regs_list DMA0_RX_CMD_REG_E = [0x08b51600, 0x08b51600, 0x02750200]"
| "xp_regs_list DMA0_TX_CMD_REG_E = [0x08b51200, 0x08b51200, 0x0274c200]"
| "xp_regs_list CORE_CTRL_REG__1_E = [0x08a80168, 0x08a8028c, 0x025e828c]"
| "xp_regs_list TX_DMA0_RETRY_CNT_REG_E = [0x08a802dc, 0x08a80444, 0x025e8444]"
| "xp_regs_list MGMT_CTRL_REG_E = [0x08a801a8, 0x08a802f4, 0x025e82f4]"
| "xp_regs_list DMA0_CLR_ERR_CNT_REG_E = [0x08b51300, 0x08b51300, 0x0274c300]"
| "xp_regs_list DMA0_TX_CHAIN_LEN_ERR_REG_E = [0x08b51304, 0x08b51304, 0x0274c304]"
| "xp_regs_list DMA0_TX_CPU_OWN_DESC_ERR_REG_E = [0x08b51308, 0x08b51308, 0x0274c308]"
| "xp_regs_list DMA0_TX_ZERO_BUF_LEN_ERR_REG_E = [0x08b5130c, 0x08b5130c, 0x0274c30c]"
| "xp_regs_list DMA0_TX_PCIE_ERR_REG_E = [0x08b51310, 0x08b51310, 0x0274c310]"
| "xp_regs_list DMA0_TX_DMA_INTF_ERR_REG_E = [0x08b51314, 0x08b51314, 0x0274c314]"
| "xp_regs_list DMA0_TX_PKT_DROP_E = [0x08b51318, 0x08b51318, 0x0274c318]"
| "xp_regs_list TX_DMA0_CFG_REGLOCKREG_E = [0x08b5131c, 0x08b51328, 0x0274c328]"
| "xp_regs_list TX_DMA0_SCRATCHPAD_E = [0x08b51320, 0x08b5132c, 0x0274c32c]"
| "xp_regs_list DMA0_RX_CHAIN_LEN_ERR_REG_E = [0x08b51700, 0x08b51700, 0x02750300]"
| "xp_regs_list DMA0_RX_CPU_OWN_DESC_ERR_REG_E = [0x08b51704, 0x08b51704, 0x02750304]"
| "xp_regs_list DMA0_RX_ZERO_BUF_LEN_ERR_REG_E = [0x08b51708, 0x08b51708, 0x02750308]"
| "xp_regs_list DMA0_RX_PCIE_ERR_REG_E = [0x08b5170c, 0x08b5170c, 0x0275030c]"
| "xp_regs_list RX_DMA0_CFG_REGLOCKREG_E = [0x08b51710, 0x08b5171c, 0x0275031c]"
| "xp_regs_list RX_DMA0_SCRATCHPAD_E = [0x08b51714, 0x08b51720, 0x02750320]"
| "xp_regs_list CPU_CTRL_REG_E = [0x8a80000 + 0x1f8, 0x8a80000 + 0x34c, 0x25e8000 + 0x34c]"
| "xp_regs_list CPU_STS_REG_E = [0x8a80000 + 0x1fc, 0x8a80000 + 0x350, 0x25e8000 + 0x350]"
| "xp_regs_list SRAM_MEM_CFG_SRAM_EXT_MEM_E = [0x8800000 + 0x0, 0x8800000 + 0x0, 0x24a0000 + 0x0]"

definition XP_GET_PCI_BASE_OFFSET_FROM_REG_NAME :: "xp_register \<Rightarrow> xp_address_mode \<Rightarrow> u32" where
  "XP_GET_PCI_BASE_OFFSET_FROM_REG_NAME reg_name mode =
     xp_regs_list reg_name ! xp_address_mode_index mode"

definition XP_GET_DMA_Q_REG_OFFSET :: "u32 \<Rightarrow> u8 \<Rightarrow> u32 \<Rightarrow> u32" where
  "XP_GET_DMA_Q_REG_OFFSET reg_offset sz qnum = reg_offset + qnum * ucast sz * 4"

definition DMA0_INTR_START_BIT_POS :: "xp_address_mode \<Rightarrow> nat" where
  "DMA0_INTR_START_BIT_POS addr_mode = (if addr_mode \<noteq> XP_A0_UNCOMPRESSED then 9 else 8)"

definition DMA0_TXDONE :: "u32 \<Rightarrow> u32 \<Rightarrow> u32" where
  "DMA0_TXDONE reg_addr qnum = reg_addr + 16 * qnum"

definition DMA0_RXDONE :: "u32 \<Rightarrow> u32 \<Rightarrow> u32" where
  "DMA0_RXDONE reg_addr qnum = reg_addr + 16 * qnum"

text \<open>
  The bytes of BAR 0 the chip maps: 256 MB, and 64 MB in the compressed mode
  (\<open>XP_MAX_IO_MEM\<close>, and the 64 MB test of \<open>xp_pci_probe\<close> that selects the mode).
\<close>

definition bar0_size :: "xp_address_mode \<Rightarrow> nat" where
  "bar0_size m = (if m = XP_B0_COMPRESSED then 64 * 1024 * 1024 else 256 * 1024 * 1024)"

text \<open>The per-queue registers: how many 32-bit words one queue has.\<close>

fun q_reg_words :: "xp_register \<Rightarrow> nat" where
  "q_reg_words DMA0_RX_CDP_REG_E = 2"
| "q_reg_words DMA0_TX_CDP_REG_E = 2"
| "q_reg_words _ = 1"

definition is_q_reg :: "xp_register \<Rightarrow> bool" where
  "is_q_reg r \<longleftrightarrow> r \<in> {DMA0_RX_CDP_REG_E, DMA0_TX_CDP_REG_E, DMA0_RX_CMD_REG_E, DMA0_TX_CMD_REG_E}"

definition q_reg_addr :: "xp_address_mode \<Rightarrow> xp_register \<Rightarrow> u32 \<Rightarrow> u32" where
  "q_reg_addr m r q =
     XP_GET_DMA_Q_REG_OFFSET (XP_GET_PCI_BASE_OFFSET_FROM_REG_NAME r m) (of_nat (q_reg_words r)) q"

lemma regs_below_bar0:
  "unat (XP_GET_PCI_BASE_OFFSET_FROM_REG_NAME r m) + 4096 \<le> bar0_size m"
  by (cases r; cases m; simp add: XP_GET_PCI_BASE_OFFSET_FROM_REG_NAME_def bar0_size_def)

lemma unat_q_offset:
  assumes "q < 64" "n \<le> 2"
  shows "unat (q * of_nat n * 4 :: u32) = unat q * n * 4"
proof -
  have q: "unat q < 64"
    using assms(1) by (simp add: word_less_nat_alt)
  have n: "unat (of_nat n :: u32) = n"
    using assms(2) by (simp add: unat_of_nat)
  have "unat q * n \<le> 63 * 2"
    using q assms(2) by (intro mult_le_mono) auto
  then have lt: "unat q * n < 2 ^ 32" "unat q * n * 4 < 2 ^ 32"
    by (simp_all add: mult.commute)
  have "unat (q * of_nat n) = unat q * n"
    using lt n by (simp add: unat_word_ariths(2))
  then show ?thesis
    using lt by (simp add: unat_word_ariths(2) [of "q * of_nat n" 4])
qed

lemma unat_q_reg_addr:
  assumes "q < 64"
  shows "unat (q_reg_addr m r q) =
    unat (XP_GET_PCI_BASE_OFFSET_FROM_REG_NAME r m) + unat q * q_reg_words r * 4"
proof -
  have w: "q_reg_words r \<le> 2"
    by (cases r) auto
  have q: "unat q < 64"
    using assms by (simp add: word_less_nat_alt)
  have c: "(ucast (of_nat (q_reg_words r) :: u8) :: u32) = of_nat (q_reg_words r)"
    by (cases r) auto
  have "unat q * q_reg_words r \<le> 63 * 2"
    using q w by (intro mult_le_mono) auto
  moreover have "bar0_size m \<le> 268435456"
    by (simp add: bar0_size_def)
  ultimately show ?thesis
    using regs_below_bar0 [of r m] unat_q_offset [OF assms w] c
    by (simp add: q_reg_addr_def XP_GET_DMA_Q_REG_OFFSET_def unat_word_ariths(1))
qed

lemma q_reg_in_bar0:
  assumes "q < 64"
  shows "unat (q_reg_addr m r q) + 4 * q_reg_words r \<le> bar0_size m"
proof -
  have "q_reg_words r \<le> 2"
    by (cases r) auto
  moreover have "unat q \<le> 63"
    using assms by (simp add: word_less_nat_alt)
  ultimately have "unat q * q_reg_words r \<le> 63 * 2"
    by (intro mult_le_mono)
  then show ?thesis
    using regs_below_bar0 [of r m] \<open>q_reg_words r \<le> 2\<close>
    by (simp add: unat_q_reg_addr [OF assms])
qed

lemma q_regs_disjoint:
  assumes "is_q_reg r" "is_q_reg r'" "q < 64" "q' < 64" "(r, q) \<noteq> (r', q')"
  shows "unat (q_reg_addr m r q) + 4 * q_reg_words r \<le> unat (q_reg_addr m r' q') \<or>
         unat (q_reg_addr m r' q') + 4 * q_reg_words r' \<le> unat (q_reg_addr m r q)"
proof -
  have b: "unat q < 64" "unat q' < 64"
    using assms(3,4) by (simp_all add: word_less_nat_alt)
  have ne: "r = r' \<Longrightarrow> unat q < unat q' \<or> unat q' < unat q"
    using assms(5) by (metis linorder_neqE_nat word_unat_eq_iff)
  show ?thesis
    using assms(1,2) b ne unfolding is_q_reg_def unat_q_reg_addr [OF assms(3)] unat_q_reg_addr [OF assms(4)]
    by (cases m) (auto simp: XP_GET_PCI_BASE_OFFSET_FROM_REG_NAME_def)
qed

end
