(* ===== verification/Reg_Access.thy ===== *)
theory Reg_Access
  imports Reg_Info
begin

text \<open>
  Register access (\<open>xp_dev_reg_read\<close> and \<open>xp_dev_reg_write\<close> of \<open>xp_pcie_slave.c\<close>, their
  lock-free twins and the per-queue wrappers of \<open>xp_netdev_core.c\<close>).

  The mapped BAR 0 is the byte array that the C pointer \<open>priv->vma\<close> dereferences; an access
  that leaves it has no meaning. \<open>tx_dma_read_lock\<close> is the spinlock of the device: taking it
  while it is held never returns. The lemmas give the effect of the accesses on the bytes of
  the BAR, and the locale \<open>reg_rw\<close> states what the clients of the two function pairs
  (\<open>reg_rw_func\<close> in the code) rely on; both pairs are interpretations of it.
\<close>

text \<open>A signal for the registered process, queued on the work queue of the device.\<close>

record xp_work =
  work_app_pid :: u32
  work_si_int :: u32

record xp_private =
  mode :: xp_address_mode
  vma :: "nat \<Rightarrow> u8"
  mmio_len :: nat
  tx_dma_read_lock :: bool
  cdev_minor :: u32
  app_pid :: u32
  w_queue :: "xp_work list option"

text \<open>Dereferences of \<open>(uint8_t *)(priv->vma) + addr\<close> at the three access widths.\<close>

definition io_load8 :: "xp_private \<Rightarrow> u32 \<Rightarrow> u32 option" where
  "io_load8 p a = (if unat a + 1 \<le> mmio_len p then Some (ucast (vma p (unat a))) else None)"

definition io_load16 :: "xp_private \<Rightarrow> u32 \<Rightarrow> u32 option" where
  "io_load16 p a =
     (if unat a + 2 \<le> mmio_len p
      then Some (le32 (vma p (unat a)) (vma p (unat a + 1)) 0 0) else None)"

definition io_load32 :: "xp_private \<Rightarrow> u32 \<Rightarrow> u32 option" where
  "io_load32 p a =
     (if unat a + 4 \<le> mmio_len p
      then Some (le32 (vma p (unat a)) (vma p (unat a + 1)) (vma p (unat a + 2)) (vma p (unat a + 3)))
      else None)"

definition io_store32 :: "xp_private \<Rightarrow> u32 \<Rightarrow> u32 \<Rightarrow> xp_private option" where
  "io_store32 p a v =
     (if unat a + 4 \<le> mmio_len p
      then Some (p\<lparr>vma := (vma p)
             (unat a := byte_of32 0 v, unat a + 1 := byte_of32 1 v,
              unat a + 2 := byte_of32 2 v, unat a + 3 := byte_of32 3 v)\<rparr>)
      else None)"

definition BYTE_SIZE :: u8 where "BYTE_SIZE = 1"
definition WORD_SIZE :: u8 where "WORD_SIZE = 2"
definition DWORD_SIZE :: u8 where "DWORD_SIZE = 4"
definition BYTE_MASK :: u32 where "BYTE_MASK = 0xFF"
definition WORD_MASK :: u32 where "WORD_MASK = 0xFFFF"

text \<open>
  The counting loops of the two accessors. \<open>i\<close> is the index into the value array, \<open>n\<close> the
  iterations left, \<open>reg_addr\<close> advances by \<open>reg_size\<close> modulo \<open>2 ^ 32\<close>.
\<close>

fun reg_read_loop ::
  "(xp_private \<Rightarrow> u32 \<Rightarrow> u32 option) \<Rightarrow> xp_private \<Rightarrow> u8 \<Rightarrow> nat \<Rightarrow> nat \<Rightarrow> u32 \<Rightarrow> u32 list \<Rightarrow> u32 list option"
where
  "reg_read_loop ld p reg_size i 0 reg_addr rw_value = Some rw_value"
| "reg_read_loop ld p reg_size i (Suc n) reg_addr rw_value =
     do { v \<leftarrow> ld p reg_addr;
          rw_value' \<leftarrow> arr_set rw_value i v;
          reg_read_loop ld p reg_size (Suc i) n (reg_addr + ucast reg_size) rw_value' }"

fun reg_write_loop ::
  "(xp_private \<Rightarrow> u32 \<Rightarrow> u32 \<Rightarrow> xp_private option) \<Rightarrow> xp_private \<Rightarrow> u8 \<Rightarrow> nat \<Rightarrow> nat \<Rightarrow> u32 \<Rightarrow> u32 list \<Rightarrow> xp_private option"
where
  "reg_write_loop st p reg_size i 0 reg_addr rw_value = Some p"
| "reg_write_loop st p reg_size i (Suc n) reg_addr rw_value =
     do { v \<leftarrow> arr_get rw_value i;
          p' \<leftarrow> st p reg_addr v;
          reg_write_loop st p' reg_size (Suc i) n (reg_addr + ucast reg_size) rw_value }"

text \<open>The byte and word cases read the 32-bit word and merge the low bits into it.\<close>

definition store_masked :: "u32 \<Rightarrow> xp_private \<Rightarrow> u32 \<Rightarrow> u32 \<Rightarrow> xp_private option" where
  "store_masked msk p a v =
     do { old \<leftarrow> io_load32 p a;
          io_store32 p a ((old AND NOT msk) OR (v AND msk)) }"

definition xp_dev_reg_read ::
  "u32 list \<Rightarrow> u32 \<Rightarrow> u8 \<Rightarrow> xp_private \<Rightarrow> u32 \<Rightarrow> (rc \<times> u32 list) option"
where
  "xp_dev_reg_read rw_value reg_addr reg_size priv count =
     (if tx_dma_read_lock priv then None
      else if reg_size = BYTE_SIZE
        then map_option (Pair 0) (reg_read_loop io_load8 priv reg_size 0 (unat count) reg_addr rw_value)
      else if reg_size = WORD_SIZE
        then map_option (Pair 0) (reg_read_loop io_load16 priv reg_size 0 (unat count) reg_addr rw_value)
      else if reg_size = DWORD_SIZE
        then map_option (Pair 0) (reg_read_loop io_load32 priv reg_size 0 (unat count) reg_addr rw_value)
      else Some (- EINVAL, rw_value))"

definition xp_dev_reg_write ::
  "u32 list \<Rightarrow> u32 \<Rightarrow> u8 \<Rightarrow> xp_private \<Rightarrow> u32 \<Rightarrow> (rc \<times> xp_private) option"
where
  "xp_dev_reg_write rw_value reg_addr reg_size priv count =
     (if tx_dma_read_lock priv then None
      else if reg_size = BYTE_SIZE
        then map_option (Pair 0)
               (reg_write_loop (store_masked BYTE_MASK) priv reg_size 0 (unat count) reg_addr rw_value)
      else if reg_size = WORD_SIZE
        then map_option (Pair 0)
               (reg_write_loop (store_masked WORD_MASK) priv reg_size 0 (unat count) reg_addr rw_value)
      else if reg_size = DWORD_SIZE
        then map_option (Pair 0)
               (reg_write_loop io_store32 priv reg_size 0 (unat count) reg_addr rw_value)
      else Some (- EINVAL, priv))"

text \<open>\<open>__xp_dev_reg_read\<close> and \<open>__xp_dev_reg_write\<close>: one double word, no lock taken.\<close>

definition xp_dev_reg_read_raw ::
  "u32 \<Rightarrow> u32 \<Rightarrow> u8 \<Rightarrow> xp_private \<Rightarrow> (rc \<times> u32) option"
where
  "xp_dev_reg_read_raw rw_value reg_addr reg_size priv =
     (if DWORD_SIZE \<noteq> reg_size then Some (- EINVAL, rw_value)
      else map_option (Pair 0) (io_load32 priv reg_addr))"

definition xp_dev_reg_write_raw ::
  "u32 \<Rightarrow> u32 \<Rightarrow> u8 \<Rightarrow> xp_private \<Rightarrow> (rc \<times> xp_private) option"
where
  "xp_dev_reg_write_raw rw_value reg_addr reg_size priv =
     (if DWORD_SIZE \<noteq> reg_size then Some (- EINVAL, priv)
      else map_option (Pair 0) (io_store32 priv reg_addr rw_value))"

fun read_q_raw_loop :: "xp_private \<Rightarrow> u32 \<Rightarrow> nat \<Rightarrow> nat \<Rightarrow> u32 list \<Rightarrow> u32 list option" where
  "read_q_raw_loop p reg_offset i 0 value = Some value"
| "read_q_raw_loop p reg_offset i (Suc n) value =
     do { old \<leftarrow> arr_get value i;
          (_, v) \<leftarrow> xp_dev_reg_read_raw old (reg_offset + of_nat i * 4) 4 p;
          value' \<leftarrow> arr_set value i v;
          read_q_raw_loop p reg_offset (Suc i) n value' }"

fun write_q_raw_loop :: "xp_private \<Rightarrow> u32 \<Rightarrow> nat \<Rightarrow> nat \<Rightarrow> u32 list \<Rightarrow> xp_private option" where
  "write_q_raw_loop p reg_offset i 0 value = Some p"
| "write_q_raw_loop p reg_offset i (Suc n) value =
     do { v \<leftarrow> arr_get value i;
          (_, p') \<leftarrow> xp_dev_reg_write_raw v (reg_offset + of_nat i * 4) 4 p;
          write_q_raw_loop p' reg_offset (Suc i) n value }"

text \<open>
  The four \<open>reg_rw_func\<close>s. They always return 0, so the model returns the values read and
  the new device state only.
\<close>

definition xp_dev_reg_read_q_raw ::
  "xp_private \<Rightarrow> xp_register \<Rightarrow> u8 \<Rightarrow> u32 list \<Rightarrow> u32 \<Rightarrow> u32 list option"
where
  "xp_dev_reg_read_q_raw p reg_id data_size value qnum =
     (let reg_offset = XP_GET_PCI_BASE_OFFSET_FROM_REG_NAME reg_id (mode p);
          reg_offset = XP_GET_DMA_Q_REG_OFFSET reg_offset data_size qnum
      in read_q_raw_loop p reg_offset 0 (unat data_size) value)"

definition xp_dev_reg_read_q ::
  "xp_private \<Rightarrow> xp_register \<Rightarrow> u8 \<Rightarrow> u32 list \<Rightarrow> u32 \<Rightarrow> u32 list option"
where
  "xp_dev_reg_read_q p reg_id data_size value qnum =
     (let reg_offset = XP_GET_PCI_BASE_OFFSET_FROM_REG_NAME reg_id (mode p);
          reg_offset = XP_GET_DMA_Q_REG_OFFSET reg_offset data_size qnum
      in map_option snd (xp_dev_reg_read value reg_offset 4 p (ucast data_size)))"

definition xp_dev_write_q_raw ::
  "xp_private \<Rightarrow> xp_register \<Rightarrow> u8 \<Rightarrow> u32 list \<Rightarrow> u32 \<Rightarrow> xp_private option"
where
  "xp_dev_write_q_raw p reg_id data_size value qnum =
     (let reg_offset = XP_GET_PCI_BASE_OFFSET_FROM_REG_NAME reg_id (mode p);
          reg_offset = XP_GET_DMA_Q_REG_OFFSET reg_offset data_size qnum
      in write_q_raw_loop p reg_offset 0 (unat data_size) value)"

definition xp_dev_reg_write_q ::
  "xp_private \<Rightarrow> xp_register \<Rightarrow> u8 \<Rightarrow> u32 list \<Rightarrow> u32 \<Rightarrow> xp_private option"
where
  "xp_dev_reg_write_q p reg_id data_size value qnum =
     (let reg_offset = XP_GET_PCI_BASE_OFFSET_FROM_REG_NAME reg_id (mode p);
          reg_offset = XP_GET_DMA_Q_REG_OFFSET reg_offset data_size qnum
      in map_option snd (xp_dev_reg_write value reg_offset 4 p (ucast data_size)))"

text \<open>The device is usable: BAR 0 is mapped in full for the mode.\<close>

definition priv_wf :: "xp_private \<Rightarrow> bool" where
  "priv_wf p \<longleftrightarrow> bar0_size (mode p) \<le> mmio_len p \<and> mmio_len p < 2 ^ 32"

text \<open>The BAR as an array of 32-bit words: the abstract view the accessors implement.\<close>

definition word_at :: "(nat \<Rightarrow> u8) \<Rightarrow> nat \<Rightarrow> u32" where
  "word_at m a = le32 (m a) (m (a + 1)) (m (a + 2)) (m (a + 3))"

definition put_word :: "(nat \<Rightarrow> u8) \<Rightarrow> nat \<Rightarrow> u32 \<Rightarrow> (nat \<Rightarrow> u8)" where
  "put_word m a v =
     m(a := byte_of32 0 v, a + 1 := byte_of32 1 v, a + 2 := byte_of32 2 v, a + 3 := byte_of32 3 v)"

fun put_words :: "(nat \<Rightarrow> u8) \<Rightarrow> nat \<Rightarrow> u32 list \<Rightarrow> (nat \<Rightarrow> u8)" where
  "put_words m a [] = m"
| "put_words m a (v # vs) = put_words (put_word m a v) (a + 4) vs"

fun words_at :: "(nat \<Rightarrow> u8) \<Rightarrow> nat \<Rightarrow> nat \<Rightarrow> u32 list" where
  "words_at m a 0 = []"
| "words_at m a (Suc n) = word_at m a # words_at m (a + 4) n"

lemma put_word_outside: "b < a \<or> a + 4 \<le> b \<Longrightarrow> put_word m a v b = m b"
  by (auto simp: put_word_def)

lemma put_words_outside: "b < a \<or> a + 4 * length vs \<le> b \<Longrightarrow> put_words m a vs b = m b"
  by (induction vs arbitrary: m a) (auto simp: put_word_outside)

lemma word_at_put_word: "word_at (put_word m a v) a = v"
  by (simp add: word_at_def put_word_def)

lemma word_at_cong: "(\<And>b. a \<le> b \<Longrightarrow> b < a + 4 \<Longrightarrow> m b = m' b) \<Longrightarrow> word_at m a = word_at m' a"
  by (simp add: word_at_def)

lemma words_at_cong:
  "(\<And>b. a \<le> b \<Longrightarrow> b < a + 4 * n \<Longrightarrow> m b = m' b) \<Longrightarrow> words_at m a n = words_at m' a n"
proof (induction n arbitrary: a)
  case (Suc n)
  have "word_at m a = word_at m' a"
    using Suc.prems by (intro word_at_cong) simp
  moreover have "words_at m (a + 4) n = words_at m' (a + 4) n"
    using Suc.prems by (intro Suc.IH) simp
  ultimately show ?case
    by simp
qed simp

lemma words_at_put_words: "words_at (put_words m a vs) a (length vs) = vs"
proof (induction vs arbitrary: m a)
  case (Cons v vs)
  have "word_at (put_words (put_word m a v) (a + 4) vs) a = word_at (put_word m a v) a"
    by (intro word_at_cong put_words_outside) simp
  then show ?case
    using Cons by (simp add: word_at_put_word)
qed simp

lemma words_at_put_words_disjoint:
  "a + 4 * length vs \<le> b \<or> b + 4 * n \<le> a \<Longrightarrow> words_at (put_words m a vs) b n = words_at m b n"
  by (intro words_at_cong put_words_outside) auto

lemma length_words_at [simp]: "length (words_at m a n) = n"
  by (induction n arbitrary: a) auto

lemma io_load32_word_at:
  "unat a + 4 \<le> mmio_len p \<Longrightarrow> io_load32 p a = Some (word_at (vma p) (unat a))"
  by (simp add: io_load32_def word_at_def)

lemma io_store32_put_word:
  "unat a + 4 \<le> mmio_len p \<Longrightarrow> io_store32 p a v = Some (p\<lparr>vma := put_word (vma p) (unat a) v\<rparr>)"
  by (simp add: io_store32_def put_word_def)

lemma unat_add_small:
  fixes a b :: u32
  shows "unat a + unat b < 2 ^ 32 \<Longrightarrow> unat (a + b) = unat a + unat b"
  by (simp add: unat_word_ariths)

lemma reg_read_loop_dword:
  assumes "mmio_len p < 2 ^ 32"
  shows "unat a + 4 * n \<le> mmio_len p \<Longrightarrow> i + n \<le> length vs \<Longrightarrow>
     reg_read_loop io_load32 p 4 i n a vs = Some (take i vs @ words_at (vma p) (unat a) n @ drop (i + n) vs)"
proof (induction n arbitrary: i a vs)
  case 0
  then show ?case
    by simp
next
  case (Suc n)
  have "unat (a + 4) = unat a + 4"
    using Suc.prems assms unat_add_small [of a 4] by simp
  then show ?case
    using Suc by (simp add: io_load32_word_at take_Suc_conv_app_nth upd_conv_take_nth_drop)
      (simp add: add.commute)
qed

lemma reg_write_loop_dword:
  "mmio_len p < 2 ^ 32 \<Longrightarrow> unat a + 4 * n \<le> mmio_len p \<Longrightarrow> i + n \<le> length vs \<Longrightarrow>
     reg_write_loop io_store32 p 4 i n a vs =
       Some (p\<lparr>vma := put_words (vma p) (unat a) (take n (drop i vs))\<rparr>)"
proof (induction n arbitrary: i a p)
  case 0
  then show ?case
    by simp
next
  case (Suc n)
  have "unat (a + 4) = unat a + 4"
    using Suc.prems unat_add_small [of a 4] by simp
  moreover have "drop i vs = vs ! i # drop (Suc i) vs"
    using Suc.prems by (simp add: Cons_nth_drop_Suc)
  ultimately show ?case
    using Suc by (simp add: io_store32_put_word)
qed

lemma read_q_raw_loop_words:
  assumes "mmio_len p < 2 ^ 32"
  shows "unat a + 4 * (i + n) \<le> mmio_len p \<Longrightarrow> i + n \<le> length vs \<Longrightarrow>
     read_q_raw_loop p a i n vs =
       Some (take i vs @ words_at (vma p) (unat a + 4 * i) n @ drop (i + n) vs)"
proof (induction n arbitrary: i vs)
  case 0
  then show ?case
    by simp
next
  case (Suc n)
  have "unat (a + of_nat i * 4) = unat a + 4 * i"
    using Suc.prems assms by (simp add: unat_word_ariths unat_of_nat mult.commute)
  then show ?case
    using Suc by (simp add: xp_dev_reg_read_raw_def DWORD_SIZE_def io_load32_word_at
        take_Suc_conv_app_nth upd_conv_take_nth_drop) (simp add: ac_simps)
qed

lemma write_q_raw_loop_words:
  "mmio_len p < 2 ^ 32 \<Longrightarrow> unat a + 4 * (i + n) \<le> mmio_len p \<Longrightarrow> i + n \<le> length vs \<Longrightarrow>
     write_q_raw_loop p a i n vs =
       Some (p\<lparr>vma := put_words (vma p) (unat a + 4 * i) (take n (drop i vs))\<rparr>)"
proof (induction n arbitrary: i p)
  case 0
  then show ?case
    by simp
next
  case (Suc n)
  have "unat (a + of_nat i * 4) = unat a + 4 * i"
    using Suc.prems by (simp add: unat_word_ariths unat_of_nat mult.commute)
  moreover have "drop i vs = vs ! i # drop (Suc i) vs"
    using Suc.prems by (simp add: Cons_nth_drop_Suc)
  ultimately show ?case
    using Suc by (simp add: xp_dev_reg_write_raw_def DWORD_SIZE_def io_store32_put_word)
      (simp add: ac_simps)
qed

text \<open>
  What the clients of a register function pair rely on. \<open>ok\<close> is the calling context: the
  locking pair must be called without the device lock, the raw pair works in any context.
\<close>

locale reg_rw =
  fixes read_fn :: "xp_private \<Rightarrow> xp_register \<Rightarrow> u8 \<Rightarrow> u32 list \<Rightarrow> u32 \<Rightarrow> u32 list option"
    and write_fn :: "xp_private \<Rightarrow> xp_register \<Rightarrow> u8 \<Rightarrow> u32 list \<Rightarrow> u32 \<Rightarrow> xp_private option"
    and ok :: "xp_private \<Rightarrow> bool"
  assumes read_words:
      "priv_wf p \<Longrightarrow> ok p \<Longrightarrow> q < 64 \<Longrightarrow> n = q_reg_words r \<Longrightarrow> n \<le> length vs \<Longrightarrow>
       read_fn p r (of_nat n) vs q =
         Some (words_at (vma p) (unat (q_reg_addr (mode p) r q)) n @ drop n vs)"
    and write_words:
      "priv_wf p \<Longrightarrow> ok p \<Longrightarrow> q < 64 \<Longrightarrow> n = q_reg_words r \<Longrightarrow> n \<le> length vs \<Longrightarrow>
       write_fn p r (of_nat n) vs q =
         Some (p\<lparr>vma := put_words (vma p) (unat (q_reg_addr (mode p) r q)) (take n vs)\<rparr>)"
    and ok_vma: "ok (p\<lparr>vma := m\<rparr>) = ok p"
begin

lemma read_after_write:
  assumes "priv_wf p" "ok p" "q < 64" "n = q_reg_words r" "length vs = n" "length us = n"
  shows "\<exists>p'. write_fn p r (of_nat n) vs q = Some p' \<and> read_fn p' r (of_nat n) us q = Some vs"
proof -
  let ?p' = "p\<lparr>vma := put_words (vma p) (unat (q_reg_addr (mode p) r q)) vs\<rparr>"
  have "write_fn p r (of_nat n) vs q = Some ?p'"
    using write_words [of p q n r vs] assms by simp
  moreover have "priv_wf ?p'"
    using assms(1) by (simp add: priv_wf_def)
  then have "read_fn ?p' r (of_nat n) us q = Some vs"
    using read_words [of ?p' q n r us] assms(2-6) ok_vma words_at_put_words [of _ _ vs] by simp
  ultimately show ?thesis
    by blast
qed

lemma read_other_after_write:
  assumes "priv_wf p" "ok p" "is_q_reg r" "is_q_reg r'" "q < 64" "q' < 64" "(r, q) \<noteq> (r', q')"
    and "length vs = q_reg_words r" "length us = q_reg_words r'"
    and "write_fn p r (of_nat (q_reg_words r)) vs q = Some p'"
  shows "read_fn p' r' (of_nat (q_reg_words r')) us q' =
         read_fn p r' (of_nat (q_reg_words r')) us q'"
proof -
  have p': "p' = p\<lparr>vma := put_words (vma p) (unat (q_reg_addr (mode p) r q)) vs\<rparr>"
    using write_words [of p q _ r vs] assms by simp
  then have "priv_wf p'" "ok p'"
    using assms(1,2) ok_vma by (simp_all add: priv_wf_def)
  then have "read_fn p' r' (of_nat (q_reg_words r')) us q' =
      Some (words_at (vma p') (unat (q_reg_addr (mode p') r' q')) (q_reg_words r'))"
    using read_words [of p' q' _ r' us] assms(6,9) by simp
  moreover have "read_fn p r' (of_nat (q_reg_words r')) us q' =
      Some (words_at (vma p) (unat (q_reg_addr (mode p) r' q')) (q_reg_words r'))"
    using read_words [of p q' _ r' us] assms(1,2,6,9) by simp
  moreover have "words_at (vma p') (unat (q_reg_addr (mode p) r' q')) (q_reg_words r') =
      words_at (vma p) (unat (q_reg_addr (mode p) r' q')) (q_reg_words r')"
    unfolding p' using q_regs_disjoint [OF assms(3-7), of "mode p"] assms(8)
    by (simp add: words_at_put_words_disjoint)
  ultimately show ?thesis
    by (simp add: p')
qed

end

lemma priv_wf_q_range:
  assumes "priv_wf p" "q < 64"
  shows "unat (q_reg_addr (mode p) r q) + 4 * q_reg_words r \<le> mmio_len p"
  using q_reg_in_bar0 [OF assms(2), of "mode p" r] assms(1) by (auto simp: priv_wf_def)

lemma priv_wf_len: "priv_wf p \<Longrightarrow> mmio_len p < 2 ^ 32"
  by (simp add: priv_wf_def)

lemma unat_q_words [simp]:
  "unat (of_nat (q_reg_words r) :: u8) = q_reg_words r"
  "unat (ucast (of_nat (q_reg_words r) :: u8) :: u32) = q_reg_words r"
  by (cases r; simp)+

interpretation locked: reg_rw xp_dev_reg_read_q xp_dev_reg_write_q "\<lambda>p. \<not> tx_dma_read_lock p"
proof (unfold_locales, goal_cases)
  case (1 p q n r vs)
  then show ?case
    using priv_wf_len [OF 1(1)] priv_wf_q_range [OF 1(1,3), of r] reg_read_loop_dword [of p "q_reg_addr (mode p) r q" n 0 vs]
    by (simp add: xp_dev_reg_read_q_def xp_dev_reg_read_def BYTE_SIZE_def WORD_SIZE_def DWORD_SIZE_def
        flip: q_reg_addr_def)
next
  case (2 p q n r vs)
  then show ?case
    using priv_wf_len [OF 2(1)] priv_wf_q_range [OF 2(1,3), of r] reg_write_loop_dword [of p "q_reg_addr (mode p) r q" n 0 vs]
    by (simp add: xp_dev_reg_write_q_def xp_dev_reg_write_def BYTE_SIZE_def WORD_SIZE_def DWORD_SIZE_def
        flip: q_reg_addr_def)
qed simp

interpretation raw: reg_rw xp_dev_reg_read_q_raw xp_dev_write_q_raw "\<lambda>_. True"
proof (unfold_locales, goal_cases)
  case (1 p q n r vs)
  then show ?case
    using priv_wf_len [OF 1(1)] priv_wf_q_range [OF 1(1,3), of r] read_q_raw_loop_words [of p "q_reg_addr (mode p) r q" 0 n vs]
    by (simp add: xp_dev_reg_read_q_raw_def flip: q_reg_addr_def)
next
  case (2 p q n r vs)
  then show ?case
    using priv_wf_len [OF 2(1)] priv_wf_q_range [OF 2(1,3), of r] write_q_raw_loop_words [of p "q_reg_addr (mode p) r q" 0 n vs]
    by (simp add: xp_dev_write_q_raw_def flip: q_reg_addr_def)
qed simp

subsection \<open>Byte and word access\<close>

lemma bit_masks: "bit BYTE_MASK n \<longleftrightarrow> n < 8" "bit WORD_MASK n \<longleftrightarrow> n < 16"
  using bit_mask_iff [where 'a = u32, of 8 n] bit_mask_iff [where 'a = u32, of 16 n]
  by (auto simp: mask_eq_exp_minus_1 BYTE_MASK_def WORD_MASK_def)

lemma byte_of32_merge:
  "byte_of32 k ((old AND NOT BYTE_MASK) OR (v AND BYTE_MASK)) = (if k = 0 then byte_of32 0 v else byte_of32 k old)"
  "byte_of32 k ((old AND NOT WORD_MASK) OR (v AND WORD_MASK)) = (if k < 2 then byte_of32 k v else byte_of32 k old)"
  by (rule bit_word_eqI; auto simp: byte_of32_def bit_simps bit_masks dest: bit_imp_le_length)+

lemma store_masked_byte:
  assumes "unat a + 4 \<le> mmio_len p"
  shows "store_masked BYTE_MASK p a v = Some (p\<lparr>vma := (vma p)(unat a := byte_of32 0 v)\<rparr>)"
proof -
  have "m(x := w, x + 1 := m (x + 1), x + 2 := m (x + 2), x + 3 := m (x + 3)) = m(x := w)"
    for m :: "nat \<Rightarrow> u8" and x w
    by auto
  then show ?thesis
    using assms by (simp add: store_masked_def io_load32_def io_store32_def byte_of32_merge)
qed

lemma store_masked_word:
  assumes "unat a + 4 \<le> mmio_len p"
  shows "store_masked WORD_MASK p a v = Some (p\<lparr>vma := (vma p)(unat a := byte_of32 0 v, unat a + 1 := byte_of32 1 v)\<rparr>)"
proof -
  have "m(x := w, x + 1 := w', x + 2 := m (x + 2), x + 3 := m (x + 3)) = m(x := w, x + 1 := w')"
    for m :: "nat \<Rightarrow> u8" and x w w'
    by auto
  then show ?thesis
    using assms by (simp add: store_masked_def io_load32_def io_store32_def byte_of32_merge)
qed

end
