(* ===== verification/Desc_Queue.thy ===== *)
theory Desc_Queue
  imports Reg_Access
begin

text \<open>
  The descriptor rings of \<open>xp_netdev.h\<close> and the operations of \<open>xp_netdev_core.c\<close> that work on
  one ring: index arithmetic, linking, ownership and reset of descriptors.

  A queue owns a coherent DMA area of descriptors (\<open>q_va\<close>, shared with the chip) and an array
  of book-keeping entries, each of which points at one descriptor (\<open>desc_va\<close>, an index into
  the area, \<open>None\<close> for NULL) and at a packet buffer. The locale \<open>desc_ring\<close> states what the
  ring operations and their clients rely on: reading, writing and framing of descriptors.
\<close>

definition XPNET_RX_NUM_DESCS :: nat where "XPNET_RX_NUM_DESCS = 10"
definition XPNET_TX_NUM_DESCS :: nat where "XPNET_TX_NUM_DESCS = 10"
definition XPNET_RX_NUM_QUEUES :: nat where "XPNET_RX_NUM_QUEUES = 64"
definition XPNET_TX_NUM_QUEUES :: nat where "XPNET_TX_NUM_QUEUES = 64"
definition XPNET_MAX_DMA_SEGMENT_SIZE :: nat where "XPNET_MAX_DMA_SEGMENT_SIZE = 4096"
definition XPNET_MAX_DMA_SIZE :: nat where "XPNET_MAX_DMA_SIZE = 4096"
definition XPNET_MAX_PACKET_SIZE :: nat where "XPNET_MAX_PACKET_SIZE = 16384"
definition XPNET_MIN_PACKET_SIZE :: nat where "XPNET_MIN_PACKET_SIZE = 60 + 24"
definition XPNET_DESC_SIZE :: nat where "XPNET_DESC_SIZE = 32"
definition XPNET_MAX_ATTEMPTS :: nat where "XPNET_MAX_ATTEMPTS = 50"

definition BITOFF_ERRORINDICATION :: nat where "BITOFF_ERRORINDICATION = 0"
definition BITOFF_OWNERSHIP :: nat where "BITOFF_OWNERSHIP = 4"

definition XPNET_CEIL_LEN :: "'a::len word \<Rightarrow> 'a word \<Rightarrow> 'a word" where
  "XPNET_CEIL_LEN ln al = (ln + al - 1) AND NOT (al - 1)"

datatype xpnet_enum =
    XPNET_OK
  | XPNET_QUEUE_TYPE_RX
  | XPNET_QUEUE_TYPE_TX
  | XPNET_REASON_TAILROOM
  | XPNET_REASON_4KCROSS
  | XPNET_REASON_SHORTPACKET
  | XPNET_QUEUE_STOPPED
  | XPNET_QUEUE_ACTIVE
  | XPNET_QUEUE_RESET_PENDING
  | XPNET_QUEUE_BUSY
  | XPNET_QUEUE_ERROR
  | XPNET_TYPE_MAX

record xpnet_descriptor =
  qword0 :: u64
  qword1 :: u64
  qword2 :: u64
  qword3 :: u64

definition zero_desc :: xpnet_descriptor where
  "zero_desc = \<lparr>qword0 = 0, qword1 = 0, qword2 = 0, qword3 = 0\<rparr>"

text \<open>A packet buffer: its bytes (\<open>None\<close> for a NULL pointer), its DMA address, its length.\<close>

record xpnet_shards_struct =
  shard_va :: "u8 list option"
  shard_dma :: u64
  shard_len :: u32

record xpnet_desc_struct =
  num_shards :: u32
  desc_va :: "nat option"
  cdp :: u64
  buf_sta :: xpnet_shards_struct

record xpnet_queue_struct =
  xpq_lock :: bool
  xpq_id :: u32
  xpq_type :: xpnet_enum
  xpq_num_desc :: u32
  q_status :: xpnet_enum
  q_tail :: u32
  q_head :: u32
  q_va :: "xpnet_descriptor list option"
  q_dma :: u64
  xpq_desc_meta :: "xpnet_desc_struct list"

text \<open>
  The ring arithmetic macros. The operands are an \<open>int\<close> index and the \<open>u32\<close> size of the
  ring, so the arithmetic is unsigned.
\<close>

definition xpnet_decr_and_wrap :: "u32 \<Rightarrow> u32 \<Rightarrow> u32" where
  "xpnet_decr_and_wrap idx limit = ((idx + limit) - 1) mod limit"

definition xpnet_add_and_wrap :: "u32 \<Rightarrow> u32 \<Rightarrow> u32 \<Rightarrow> u32" where
  "xpnet_add_and_wrap idx incr limit = ((idx + limit) + incr) mod limit"

definition xpnet_get_busy_desc :: "xpnet_queue_struct \<Rightarrow> u32" where
  "xpnet_get_busy_desc q = (xpq_num_desc q + q_tail q - (q_head q + 1)) mod xpq_num_desc q"

definition xpnet_get_free_desc :: "xpnet_queue_struct \<Rightarrow> u32" where
  "xpnet_get_free_desc q = xpq_num_desc q - 1 - xpnet_get_busy_desc q"

text \<open>\<open>q->xpq_desc_meta[i]\<close>, \<open>*q->xpq_desc_meta[i].va\<close> and the assignments to them.\<close>

definition meta_get :: "xpnet_queue_struct \<Rightarrow> nat \<Rightarrow> xpnet_desc_struct option" where
  "meta_get q i = arr_get (xpq_desc_meta q) i"

definition meta_set :: "xpnet_queue_struct \<Rightarrow> nat \<Rightarrow> xpnet_desc_struct \<Rightarrow> xpnet_queue_struct option" where
  "meta_set q i d = map_option (\<lambda>ms. q\<lparr>xpq_desc_meta := ms\<rparr>) (arr_set (xpq_desc_meta q) i d)"

definition desc_get :: "xpnet_queue_struct \<Rightarrow> nat \<Rightarrow> xpnet_descriptor option" where
  "desc_get q i = do { d \<leftarrow> meta_get q i; area \<leftarrow> q_va q; k \<leftarrow> desc_va d; arr_get area k }"

definition desc_set :: "xpnet_queue_struct \<Rightarrow> nat \<Rightarrow> xpnet_descriptor \<Rightarrow> xpnet_queue_struct option" where
  "desc_set q i v =
     do { d \<leftarrow> meta_get q i; area \<leftarrow> q_va q; k \<leftarrow> desc_va d;
          area' \<leftarrow> arr_set area k v; Some (q\<lparr>q_va := Some area'\<rparr>) }"

text \<open>The ownership and error bits of a descriptor, as the code tests them.\<close>

definition hw_owns :: "xpnet_descriptor \<Rightarrow> bool" where
  "hw_owns v \<longleftrightarrow> drop_bit BITOFF_OWNERSHIP (qword0 v) AND 1 \<noteq> 0"

definition desc_error :: "xpnet_descriptor \<Rightarrow> bool" where
  "desc_error v \<longleftrightarrow> drop_bit BITOFF_ERRORINDICATION (qword0 v) AND 1 \<noteq> 0"

definition own_bit :: u64 where "own_bit = push_bit BITOFF_OWNERSHIP 1"

definition xpnet_rx_desc_enable :: "xpnet_queue_struct \<Rightarrow> nat \<Rightarrow> xpnet_queue_struct option" where
  "xpnet_rx_desc_enable q i =
     do { v \<leftarrow> desc_get q i;
          desc_set q i (v\<lparr>qword0 := (qword0 v AND 0x1f) OR own_bit\<rparr>) }"

fun desc_link_loop :: "xpnet_queue_struct \<Rightarrow> nat \<Rightarrow> nat \<Rightarrow> xpnet_queue_struct option" where
  "desc_link_loop q n 0 = Some q"
| "desc_link_loop q n (Suc k) =
     do { nxt \<leftarrow> meta_get q ((n + 1) mod unat (xpq_num_desc q));
          v \<leftarrow> desc_get q n;
          q' \<leftarrow> desc_set q n (v\<lparr>qword3 := cdp nxt\<rparr>);
          desc_link_loop q' (Suc n) k }"

definition xpnet_queue_desc_link :: "xpnet_queue_struct \<Rightarrow> bool \<Rightarrow> xpnet_queue_struct option" where
  "xpnet_queue_desc_link q circular =
     do { q \<leftarrow> desc_link_loop q 0 (unat (xpq_num_desc q));
          if \<not> circular then
            do { v \<leftarrow> desc_get q (unat (xpq_num_desc q - 1));
                 desc_set q (unat (xpq_num_desc q - 1)) (v\<lparr>qword3 := 0\<rparr>) }
          else Some q }"

fun change_own_loop :: "xpnet_queue_struct \<Rightarrow> nat \<Rightarrow> nat \<Rightarrow> xpnet_queue_struct option" where
  "change_own_loop q n 0 = Some q"
| "change_own_loop q n (Suc k) = do { q' \<leftarrow> xpnet_rx_desc_enable q n; change_own_loop q' (Suc n) k }"

definition xpnet_rx_queue_desc_change_own :: "xpnet_queue_struct \<Rightarrow> bool \<Rightarrow> xpnet_queue_struct option" where
  "xpnet_rx_queue_desc_change_own q cpu_owns =
     (if cpu_owns then change_own_loop q 0 (unat (xpq_num_desc q)) else Some q)"

definition xpnet_rx_queue_link_and_enable :: "xpnet_queue_struct \<Rightarrow> xpnet_queue_struct option" where
  "xpnet_rx_queue_link_and_enable q =
     do { q \<leftarrow> xpnet_queue_desc_link q False;
          q \<leftarrow> xpnet_rx_queue_desc_change_own q True;
          Some (q\<lparr>q_head := 0, q_tail := 0, q_status := XPNET_QUEUE_ACTIVE\<rparr>) }"

text \<open>\<open>__xpnet_rx_desc_reset\<close>; it always returns 0.\<close>

definition xpnet_rx_desc_reset :: "xpnet_queue_struct \<Rightarrow> u32 \<Rightarrow> xpnet_queue_struct option" where
  "xpnet_rx_desc_reset q idx =
     do { nxt \<leftarrow> meta_get q (unat (xpnet_add_and_wrap idx 1 (xpq_num_desc q)));
          d \<leftarrow> meta_get q (unat idx);
          v \<leftarrow> desc_get q (unat idx);
          desc_set q (unat idx)
            (v\<lparr>qword3 := cdp nxt, qword2 := shard_dma (buf_sta d),
               qword1 := of_nat XPNET_MAX_PACKET_SIZE, qword0 := own_bit\<rparr>) }"

text \<open>
  The book-keeping of a queue whose initialisation has finished: ten entries, entry \<open>i\<close>
  pointing at descriptor \<open>i\<close> of the area and holding its DMA address, each with a buffer of
  \<open>bufsz\<close> bytes, and both indices inside the ring.
\<close>

definition meta_ok :: "nat \<Rightarrow> u64 \<Rightarrow> nat \<Rightarrow> xpnet_desc_struct \<Rightarrow> bool" where
  "meta_ok bufsz base i d \<longleftrightarrow>
     desc_va d = Some i \<and> cdp d = base + of_nat (32 * i) \<and>
     (\<exists>b. shard_va (buf_sta d) = Some b \<and> length b = bufsz)"

definition ring_wf :: "nat \<Rightarrow> xpnet_queue_struct \<Rightarrow> bool" where
  "ring_wf bufsz q \<longleftrightarrow>
     xpq_num_desc q = 10 \<and> length (xpq_desc_meta q) = 10 \<and>
     (\<exists>area. q_va q = Some area \<and> 10 \<le> length area) \<and>
     (\<forall>i<10. meta_ok bufsz (q_dma q) i (xpq_desc_meta q ! i)) \<and>
     q_tail q < 10 \<and> q_head q < 10"

subsection \<open>Ring arithmetic\<close>

lemma unat_lt_10 [ring_arith]: "(x :: u32) < 10 \<longleftrightarrow> unat x < 10"
  by (simp add: word_less_nat_alt)

lemma unat_add_and_wrap [ring_arith]:
  assumes "idx < 10" "unat incr \<le> 10"
  shows "unat (xpnet_add_and_wrap idx incr 10) = (unat idx + unat incr) mod 10"
proof -
  have "unat (idx + 10 + incr) = unat idx + 10 + unat incr"
    using assms by (simp add: unat_word_ariths unat_lt_10)
  moreover have "(unat idx + 10 + unat incr) mod 10 = (unat idx + unat incr + 10) mod 10"
    by (simp only: ac_simps)
  ultimately show ?thesis
    by (simp add: xpnet_add_and_wrap_def unat_word_ariths(7))
qed

lemma unat_busy_desc [ring_arith]:
  assumes "xpq_num_desc q = 10" "q_tail q < 10" "q_head q < 10"
  shows "unat (xpnet_get_busy_desc q) = (9 + unat (q_tail q) - unat (q_head q)) mod 10"
proof -
  have t: "unat (q_tail q) < 10" and h: "unat (q_head q) < 10"
    using assms(2,3) by (simp_all add: unat_lt_10)
  have s: "unat (10 + q_tail q) = 10 + unat (q_tail q)" and h1: "unat (q_head q + 1) = unat (q_head q) + 1"
    using t h by (simp_all add: unat_word_ariths)
  have "q_head q + 1 \<le> 10 + q_tail q"
    using h by (simp add: word_le_nat_alt s h1)
  then have "unat (10 + q_tail q - (q_head q + 1)) = 10 + unat (q_tail q) - (unat (q_head q) + 1)"
    by (simp only: unat_sub s h1)
  then show ?thesis
    using assms(1) h by (simp add: xpnet_get_busy_desc_def unat_word_ariths(7))
qed

lemma busy_desc_lt [ring_arith]:
  assumes "xpq_num_desc q = 10"
  shows "unat (xpnet_get_busy_desc q) < 10"
  by (simp add: xpnet_get_busy_desc_def assms unat_word_ariths(7))

lemma free_plus_busy [ring_arith]:
  assumes "xpq_num_desc q = 10"
  shows "unat (xpnet_get_free_desc q) + unat (xpnet_get_busy_desc q) = 9"
proof -
  have "xpnet_get_busy_desc q \<le> 9"
    using busy_desc_lt [OF assms] by (simp add: word_le_nat_alt)
  then show ?thesis
    using busy_desc_lt [OF assms] by (simp add: xpnet_get_free_desc_def assms unat_sub word_le_nat_alt)
qed

subsection \<open>The descriptor area as an interface\<close>

text \<open>Update the descriptors of a list of indices one after the other.\<close>

fun upd_seq :: "('q \<Rightarrow> nat \<Rightarrow> 'd option) \<Rightarrow> ('q \<Rightarrow> nat \<Rightarrow> 'd \<Rightarrow> 'q option) \<Rightarrow> (nat \<Rightarrow> 'd \<Rightarrow> 'd) \<Rightarrow> nat list \<Rightarrow> 'q \<Rightarrow> 'q option"
where
  "upd_seq rd wr f [] q = Some q"
| "upd_seq rd wr f (i # is) q = do { v \<leftarrow> rd q i; q' \<leftarrow> wr q i (f i v); upd_seq rd wr f is q' }"

text \<open>
  The contract of a descriptor area: \<open>rd\<close> and \<open>wr\<close> are total on the indices below \<open>cap\<close>,
  a write changes one descriptor and nothing that \<open>frame\<close> shows.
\<close>

locale desc_ring =
  fixes rd :: "'q \<Rightarrow> nat \<Rightarrow> 'd option"
    and wr :: "'q \<Rightarrow> nat \<Rightarrow> 'd \<Rightarrow> 'q option"
    and wf :: "'q \<Rightarrow> bool"
    and cap :: nat
    and frame :: "'q \<Rightarrow> 'f"
  assumes rd_total: "wf q \<Longrightarrow> i < cap \<Longrightarrow> \<exists>v. rd q i = Some v"
    and wr_total: "wf q \<Longrightarrow> i < cap \<Longrightarrow> \<exists>q'. wr q i v = Some q'"
    and rd_wr: "wf q \<Longrightarrow> i < cap \<Longrightarrow> j < cap \<Longrightarrow> wr q i v = Some q' \<Longrightarrow>
      rd q' j = (if j = i then Some v else rd q j)"
    and wf_wr: "wf q \<Longrightarrow> i < cap \<Longrightarrow> wr q i v = Some q' \<Longrightarrow> wf q'"
    and frame_wr: "wr q i v = Some q' \<Longrightarrow> frame q' = frame q"
begin

lemma upd_one:
  assumes "wf q" "i < cap"
  obtains v q' where "rd q i = Some v" "wr q i (f v) = Some q'" "wf q'" "frame q' = frame q"
    "\<And>j. j < cap \<Longrightarrow> rd q' j = (if j = i then Some (f v) else rd q j)"
proof -
  obtain v where v: "rd q i = Some v"
    using rd_total [OF assms] by blast
  obtain q' where q': "wr q i (f v) = Some q'"
    using wr_total [OF assms] by blast
  show ?thesis
    by (rule that [OF v q' wf_wr [OF assms q'] frame_wr [OF q'] rd_wr [OF assms _ q']])
qed

lemma upd_seq_ok:
  assumes "wf q" "distinct is" "\<And>i. i \<in> set is \<Longrightarrow> i < cap"
  shows "\<exists>q'. upd_seq rd wr f is q = Some q' \<and> wf q' \<and> frame q' = frame q \<and>
    (\<forall>j<cap. rd q' j = (if j \<in> set is then map_option (f j) (rd q j) else rd q j))"
  using assms
proof (induction "is" arbitrary: q)
  case Nil
  then show ?case
    by simp
next
  case (Cons i "is")
  obtain v q1 where s: "rd q i = Some v" "wr q i (f i v) = Some q1" "wf q1" "frame q1 = frame q"
    and r1: "\<And>j. j < cap \<Longrightarrow> rd q1 j = (if j = i then Some (f i v) else rd q j)"
    using upd_one [of q i "f i"] Cons.prems(1,3) by auto
  have "\<exists>q'. upd_seq rd wr f is q1 = Some q' \<and> wf q' \<and> frame q' = frame q1 \<and>
    (\<forall>j<cap. rd q' j = (if j \<in> set is then map_option (f j) (rd q1 j) else rd q1 j))"
    using Cons.prems(2,3) by (intro Cons.IH [OF s(3)]) auto
  then obtain q' where q': "upd_seq rd wr f is q1 = Some q'" "wf q'" "frame q' = frame q1"
    and r': "\<And>j. j < cap \<Longrightarrow> rd q' j = (if j \<in> set is then map_option (f j) (rd q1 j) else rd q1 j)"
    by blast
  have "rd q' j = (if j \<in> set (i # is) then map_option (f j) (rd q j) else rd q j)" if "j < cap" for j
    using r1 [OF that] r' [OF that] s(1) Cons.prems(2) by auto
  then show ?case
    using s q' by auto
qed

end

lemma ring_wf_area:
  "ring_wf b q \<Longrightarrow> i < 10 \<Longrightarrow> \<exists>area. q_va q = Some area \<and> i < length area \<and> desc_get q i = Some (area ! i)"
  by (fastforce simp: ring_wf_def meta_ok_def desc_get_def meta_get_def)

interpretation ring: desc_ring desc_get desc_set "ring_wf b" 10 "\<lambda>q. q\<lparr>q_va := None\<rparr>" for b
proof (unfold_locales, goal_cases)
  case (1 q i)
  then show ?case
    using ring_wf_area by blast
next
  case (2 q i v)
  then show ?case
    by (fastforce simp: ring_wf_def meta_ok_def desc_set_def meta_get_def)
next
  case (3 q i j v q')
  then show ?case
    by (fastforce simp: ring_wf_def meta_ok_def desc_set_def desc_get_def meta_get_def)
next
  case (4 q i v q')
  then show ?case
    by (fastforce simp: ring_wf_def meta_ok_def desc_set_def meta_get_def)
next
  case (5 q i v q')
  then show ?case
    by (auto simp: desc_set_def arr_set_def split: Option.bind_splits if_splits)
qed

subsection \<open>Ring operations\<close>

lemma desc_set_frame:
  assumes "desc_set q i v = Some q'"
  shows "xpq_desc_meta q' = xpq_desc_meta q" "xpq_num_desc q' = xpq_num_desc q"
    "q_tail q' = q_tail q" "q_head q' = q_head q" "q_dma q' = q_dma q" "xpq_id q' = xpq_id q"
    "xpq_type q' = xpq_type q" "q_status q' = q_status q" "xpq_lock q' = xpq_lock q"
  using assms by (auto simp: desc_set_def arr_set_def split: Option.bind_splits if_splits)

lemma frame_fields:
  assumes "q'\<lparr>q_va := None\<rparr> = q\<lparr>q_va := None\<rparr>"
  shows "xpq_desc_meta q' = xpq_desc_meta q" "xpq_num_desc q' = xpq_num_desc q"
    "q_tail q' = q_tail q" "q_head q' = q_head q" "q_dma q' = q_dma q" "xpq_id q' = xpq_id q"
    "xpq_type q' = xpq_type q" "q_status q' = q_status q" "xpq_lock q' = xpq_lock q"
  by (cases q; cases q'; use assms in simp)+

lemma ring_wf_meta [simp]: "ring_wf b q \<Longrightarrow> i < 10 \<Longrightarrow> meta_get q i = Some (xpq_desc_meta q ! i)"
  by (simp add: meta_get_def ring_wf_def)

lemma ring_wf_meta_ok: "ring_wf b q \<Longrightarrow> i < 10 \<Longrightarrow> meta_ok b (q_dma q) i (xpq_desc_meta q ! i)"
  by (simp add: ring_wf_def)

lemma ring_wf_cdp: "ring_wf b q \<Longrightarrow> i < 10 \<Longrightarrow> cdp (xpq_desc_meta q ! i) = q_dma q + of_nat (32 * i)"
  by (simp add: ring_wf_def meta_ok_def)

lemma ring_wf_num [simp]: "ring_wf b q \<Longrightarrow> xpq_num_desc q = 10"
  by (simp add: ring_wf_def)

lemma desc_link_loop_seq:
  "xpq_num_desc q = 10 \<Longrightarrow> length (xpq_desc_meta q) = 10 \<Longrightarrow>
   desc_link_loop q n k =
     upd_seq desc_get desc_set (\<lambda>i v. v\<lparr>qword3 := cdp (xpq_desc_meta q ! ((i + 1) mod 10))\<rparr>) [n..<n + k] q"
proof (induction k arbitrary: n q)
  case 0
  then show ?case
    by simp
next
  case (Suc k)
  have u: "[n..<n + Suc k] = n # [Suc n..<Suc n + k]"
    by (simp add: upt_conv_Cons)
  show ?case
    unfolding u using Suc.prems
    by (auto simp: meta_get_def Suc.IH desc_set_frame intro!: Option.bind_cong)
qed

lemma change_own_loop_seq:
  "change_own_loop q n k =
     upd_seq desc_get desc_set (\<lambda>i v. v\<lparr>qword0 := (qword0 v AND 0x1f) OR own_bit\<rparr>) [n..<n + k] q"
proof (induction k arbitrary: n q)
  case (Suc k)
  have u: "[n..<n + Suc k] = n # [Suc n..<Suc n + k]"
    by (simp add: upt_conv_Cons)
  show ?case
    unfolding u by (simp add: xpnet_rx_desc_enable_def Suc.IH)
qed simp

lemma xpnet_queue_desc_link_ok:
  assumes wf: "ring_wf b q"
  shows "\<exists>q'. xpnet_queue_desc_link q circular = Some q' \<and> ring_wf b q' \<and>
    q'\<lparr>q_va := None\<rparr> = q\<lparr>q_va := None\<rparr> \<and>
    (\<forall>i<10. desc_get q' i = map_option (\<lambda>v. v\<lparr>qword3 :=
       (if i = 9 \<and> \<not> circular then 0 else q_dma q + of_nat (32 * ((i + 1) mod 10)))\<rparr>) (desc_get q i))"
proof -
  let ?f = "\<lambda>i v. v\<lparr>qword3 := cdp (xpq_desc_meta q ! ((i + 1) mod 10))\<rparr>"
  obtain q1 where q1: "desc_link_loop q 0 10 = Some q1" "ring_wf b q1"
      "q1\<lparr>q_va := None\<rparr> = q\<lparr>q_va := None\<rparr>"
    and r1: "\<And>i. i < 10 \<Longrightarrow> desc_get q1 i = map_option (?f i) (desc_get q i)"
    using ring.upd_seq_ok [OF wf, of "[0..<10]" ?f] wf desc_link_loop_seq [of q 0 10]
    by (auto simp: ring_wf_def)
  note cdp = ring_wf_cdp [OF wf, of "(_ + 1) mod 10"]
  show ?thesis
  proof (cases circular)
    case True
    then show ?thesis
      using q1 r1 wf cdp by (auto simp: xpnet_queue_desc_link_def)
  next
    case False
    obtain v q2 where q2: "desc_get q1 9 = Some v" "desc_set q1 9 (v\<lparr>qword3 := 0\<rparr>) = Some q2"
        "ring_wf b q2" "q2\<lparr>q_va := None\<rparr> = q1\<lparr>q_va := None\<rparr>"
      and r2: "\<And>i. i < 10 \<Longrightarrow> desc_get q2 i = (if i = 9 then Some (v\<lparr>qword3 := 0\<rparr>) else desc_get q1 i)"
      using ring.upd_one [OF q1(2), of 9 "\<lambda>v. v\<lparr>qword3 := 0\<rparr>"] by auto
    have "xpnet_queue_desc_link q circular = Some q2"
      using False q1 q2 wf by (simp add: xpnet_queue_desc_link_def frame_fields [OF q1(3)])
    moreover have "desc_get q2 i = map_option (\<lambda>v. v\<lparr>qword3 :=
       (if i = 9 \<and> \<not> circular then 0 else q_dma q + of_nat (32 * ((i + 1) mod 10)))\<rparr>) (desc_get q i)"
      if "i < 10" for i
      using r2 [OF that] r1 [OF that] q2(1) r1 [of 9] cdp [of i] False
      by (cases "desc_get q i") auto
    ultimately show ?thesis
      using q1 q2 by auto
  qed
qed

lemma hw_owns_bit: "hw_owns v \<longleftrightarrow> bit (qword0 v) 4"
  by (simp add: hw_owns_def BITOFF_OWNERSHIP_def and_one_eq bit_iff_odd_drop_bit mod_2_eq_odd)

lemma desc_error_bit: "desc_error v \<longleftrightarrow> bit (qword0 v) 0"
  by (simp add: desc_error_def BITOFF_ERRORINDICATION_def and_one_eq bit_iff_odd_drop_bit mod_2_eq_odd)

lemma bit_own_bit: "bit own_bit n \<longleftrightarrow> n = 4"
  by (simp add: own_bit_def bit_simps) (auto simp: BITOFF_OWNERSHIP_def)

lemma hw_owns_own_bit [simp]:
  "hw_owns (v\<lparr>qword0 := x OR own_bit\<rparr>)" "hw_owns (v\<lparr>qword0 := own_bit\<rparr>)"
  by (simp_all add: hw_owns_bit bit_or_iff bit_own_bit)

text \<open>
  Linking and enabling a ring: the chip owns every descriptor, they form a chain in ring order
  that ends at the last one, and buffer addresses and lengths are untouched.
\<close>

lemma xpnet_rx_queue_link_and_enable_ok:
  assumes wf: "ring_wf b q"
  shows "\<exists>q'. xpnet_rx_queue_link_and_enable q = Some q' \<and> ring_wf b q' \<and>
    q_status q' = XPNET_QUEUE_ACTIVE \<and> q_head q' = 0 \<and> q_tail q' = 0 \<and>
    xpq_desc_meta q' = xpq_desc_meta q \<and> q_dma q' = q_dma q \<and> xpq_id q' = xpq_id q \<and>
    xpq_type q' = xpq_type q \<and> xpq_lock q' = xpq_lock q \<and>
    (\<forall>i<10. \<exists>v v'. desc_get q i = Some v \<and> desc_get q' i = Some v' \<and> hw_owns v' \<and>
       qword3 v' = (if i = 9 then 0 else q_dma q + of_nat (32 * (i + 1))) \<and>
       qword2 v' = qword2 v \<and> qword1 v' = qword1 v)"
proof -
  obtain q1 where q1: "xpnet_queue_desc_link q False = Some q1" "ring_wf b q1"
      "q1\<lparr>q_va := None\<rparr> = q\<lparr>q_va := None\<rparr>"
    and r1: "\<And>i. i < 10 \<Longrightarrow> desc_get q1 i = map_option (\<lambda>v. v\<lparr>qword3 :=
       (if i = 9 \<and> \<not> False then 0 else q_dma q + of_nat (32 * ((i + 1) mod 10)))\<rparr>) (desc_get q i)"
    using xpnet_queue_desc_link_ok [OF wf, of False] by blast
  let ?f = "\<lambda>i v. v\<lparr>qword0 := (qword0 v AND 0x1f) OR own_bit\<rparr>"
  obtain q2 where q2: "xpnet_rx_queue_desc_change_own q1 True = Some q2" "ring_wf b q2"
      "q2\<lparr>q_va := None\<rparr> = q1\<lparr>q_va := None\<rparr>"
    and r2: "\<And>i. i < 10 \<Longrightarrow> desc_get q2 i = map_option (?f i) (desc_get q1 i)"
    using ring.upd_seq_ok [OF q1(2), of "[0..<10]" ?f] q1(2) change_own_loop_seq [of q1 0 10]
    by (auto simp: xpnet_rx_queue_desc_change_own_def)
  let ?q' = "q2\<lparr>q_head := 0, q_tail := 0, q_status := XPNET_QUEUE_ACTIVE\<rparr>"
  have g: "desc_get ?q' i = desc_get q2 i" for i
    by (simp add: desc_get_def meta_get_def)
  have "\<exists>v v'. desc_get q i = Some v \<and> desc_get ?q' i = Some v' \<and> hw_owns v' \<and>
       qword3 v' = (if i = 9 then 0 else q_dma q + of_nat (32 * (i + 1))) \<and>
       qword2 v' = qword2 v \<and> qword1 v' = qword1 v" if i10: "i < 10" for i
  proof -
    obtain v where "desc_get q i = Some v"
      using ring.rd_total [OF wf i10] by blast
    moreover have "i \<noteq> 9 \<Longrightarrow> Suc i mod 10 = Suc i"
      using i10 by simp
    ultimately show ?thesis
      unfolding g r2 [OF i10] r1 [OF i10] by simp
  qed
  moreover have "ring_wf b ?q'"
    using q2(2) by (simp add: ring_wf_def)
  ultimately show ?thesis
    using q1 q2 frame_fields [OF q1(3)] frame_fields [OF q2(3)]
    by (simp add: xpnet_rx_queue_link_and_enable_def)
qed

lemma xpnet_rx_desc_reset_enable_ok:
  assumes wf: "ring_wf b q" and i: "idx < 10"
  shows "\<exists>q1 q' d. xpnet_rx_desc_reset q idx = Some q1 \<and> xpnet_rx_desc_enable q1 (unat idx) = Some q' \<and>
    ring_wf b q' \<and> q'\<lparr>q_va := None\<rparr> = q\<lparr>q_va := None\<rparr> \<and> meta_get q (unat idx) = Some d \<and>
    desc_get q' (unat idx) = Some \<lparr>qword0 = own_bit, qword1 = of_nat XPNET_MAX_PACKET_SIZE,
      qword2 = shard_dma (buf_sta d), qword3 = q_dma q + of_nat (32 * ((unat idx + 1) mod 10))\<rparr> \<and>
    (\<forall>j<10. j \<noteq> unat idx \<longrightarrow> desc_get q' j = desc_get q j)"
proof -
  have u: "unat idx < 10"
    using i by (simp add: unat_lt_10)
  let ?d = "xpq_desc_meta q ! unat idx"
  let ?n = "unat (xpnet_add_and_wrap idx 1 10)"
  have n: "?n = (unat idx + 1) mod 10"
    using i unat_add_and_wrap [of idx 1] by simp
  let ?new = "\<lambda>v. v\<lparr>qword3 := cdp (xpq_desc_meta q ! ?n), qword2 := shard_dma (buf_sta ?d),
      qword1 := of_nat XPNET_MAX_PACKET_SIZE, qword0 := own_bit\<rparr>"
  obtain v q1 where q1: "desc_get q (unat idx) = Some v" "desc_set q (unat idx) (?new v) = Some q1"
      "ring_wf b q1" "q1\<lparr>q_va := None\<rparr> = q\<lparr>q_va := None\<rparr>"
    and r1: "\<And>j. j < 10 \<Longrightarrow> desc_get q1 j = (if j = unat idx then Some (?new v) else desc_get q j)"
    using ring.upd_one [OF wf u, of ?new] by auto
  let ?en = "\<lambda>v. v\<lparr>qword0 := (qword0 v AND 0x1f) OR own_bit\<rparr>"
  obtain w q2 where q2: "desc_get q1 (unat idx) = Some w" "desc_set q1 (unat idx) (?en w) = Some q2"
      "ring_wf b q2" "q2\<lparr>q_va := None\<rparr> = q1\<lparr>q_va := None\<rparr>"
    and r2: "\<And>j. j < 10 \<Longrightarrow> desc_get q2 j = (if j = unat idx then Some (?en w) else desc_get q1 j)"
    using ring.upd_one [OF q1(3) u, of ?en] by auto
  have "xpnet_rx_desc_reset q idx = Some q1"
    using wf u n q1(1,2) by (simp add: xpnet_rx_desc_reset_def)
  moreover have "xpnet_rx_desc_enable q1 (unat idx) = Some q2"
    using q2 by (simp add: xpnet_rx_desc_enable_def)
  moreover have "own_bit AND 0x1f OR own_bit = own_bit"
    by (simp add: own_bit_def BITOFF_OWNERSHIP_def)
  then have "desc_get q2 (unat idx) = Some \<lparr>qword0 = own_bit, qword1 = of_nat XPNET_MAX_PACKET_SIZE,
      qword2 = shard_dma (buf_sta ?d), qword3 = q_dma q + of_nat (32 * ((unat idx + 1) mod 10))\<rparr>"
    using r2 [OF u] r1 [OF u] q2(1) ring_wf_cdp [OF wf, of ?n] n by (cases v) auto
  ultimately show ?thesis
    using q1 q2 r1 r2 wf u by auto
qed

end
