(* ===== verification/Net_Priv.thy ===== *)
theory Net_Priv
  imports Desc_Queue
begin

text \<open>
  The state of the network half of the driver (\<open>xpnet_private_t\<close>), the allocator of coherent
  DMA memory it calls, and the queue registers: descriptor pointer, command and mux
  (\<open>xp_netdev_core.c\<close>). The lemmas give the registers after each operation, once for both
  calling contexts (device lock taken by the callee, or already held by the caller).
\<close>

definition XPNET_AFLAG_ACQLOCK :: u8 where "XPNET_AFLAG_ACQLOCK = 1"
definition XPNET_HWFLAG_A0 :: u32 where "XPNET_HWFLAG_A0 = 1"
definition XPNET_ENABLE_QUEUE :: u64 where "XPNET_ENABLE_QUEUE = 8"

text \<open>
  The kernel's coherent allocator. What a call returns is not the driver's to decide, so the
  environment carries the outcome of every call: \<open>dma_res k\<close> is the DMA address the \<open>k\<close>-th
  call returns (\<open>None\<close>: it fails) and \<open>dma_fill k\<close> the bytes found there. \<open>dma_live\<close> records
  what is allocated; freeing anything else has no meaning.
\<close>

record dma_env =
  dma_res :: "nat \<Rightarrow> u64 option"
  dma_fill :: "nat \<Rightarrow> nat \<Rightarrow> u8"
  dma_calls :: nat
  dma_live :: "(u64 \<times> nat) list"

definition dma_alloc_coherent :: "nat \<Rightarrow> dma_env \<Rightarrow> (u8 list \<times> u64) option \<times> dma_env" where
  "dma_alloc_coherent sz e =
     (let k = dma_calls e; e' = e\<lparr>dma_calls := Suc k\<rparr> in
      case dma_res e k of
        None \<Rightarrow> (None, e')
      | Some dma \<Rightarrow> (Some (map (dma_fill e k) [0..<sz], dma), e'\<lparr>dma_live := (dma, sz) # dma_live e\<rparr>))"

definition dma_free_coherent :: "nat \<Rightarrow> 'a option \<Rightarrow> u64 \<Rightarrow> dma_env \<Rightarrow> dma_env option" where
  "dma_free_coherent sz va dma e =
     (if va \<noteq> None \<and> (dma, sz) \<in> set (dma_live e)
      then Some (e\<lparr>dma_live := remove1 (dma, sz) (dma_live e)\<rparr>) else None)"

record net_device_stats =
  rx_packets :: u64
  rx_bytes :: u64
  rx_dropped :: u64
  rx_length_errors :: u64
  tx_packets :: u64
  tx_bytes :: u64
  tx_errors :: u64
  tx_dropped :: u64
  tx_aborted_errors :: u64

text \<open>\<open>jiffies_defer\<close> is a global variable of \<open>xp_netdev_core.c\<close>; it is kept with the rest.\<close>

record xpnet_private =
  hw_flags :: u32
  pci_priv :: xp_private
  rx_queue :: "xpnet_queue_struct list"
  tx_queue :: "xpnet_queue_struct list"
  num_rxqueues :: u32
  num_txqueues :: u32
  txqno :: u32
  rxqno :: u32
  priv_lock :: bool
  dma_trigger :: bool
  stats :: net_device_stats
  jiffies_defer :: u32

definition q_cdp_reg :: "xpnet_queue_struct \<Rightarrow> xp_register" where
  "q_cdp_reg q = (if xpq_type q = XPNET_QUEUE_TYPE_TX then DMA0_RX_CDP_REG_E else DMA0_TX_CDP_REG_E)"

definition q_cmd_reg :: "xpnet_queue_struct \<Rightarrow> xp_register" where
  "q_cmd_reg q = (if xpq_type q = XPNET_QUEUE_TYPE_TX then DMA0_RX_CMD_REG_E else DMA0_TX_CMD_REG_E)"

definition xpnet_set_q_cdp ::
  "xp_private \<Rightarrow> xpnet_queue_struct \<Rightarrow> u32 \<Rightarrow> u8 \<Rightarrow> xp_private option"
where
  "xpnet_set_q_cdp p q idx aflags =
     (let base_cdp = q_dma q + scast idx * of_nat XPNET_DESC_SIZE;
          reg = q_cdp_reg q
      in if aflags AND XPNET_AFLAG_ACQLOCK \<noteq> 0
         then xp_dev_reg_write_q p reg 2 [lo32 base_cdp, hi32 base_cdp] (xpq_id q)
         else xp_dev_write_q_raw p reg 2 [lo32 base_cdp, hi32 base_cdp] (xpq_id q))"

definition xpnet_get_q_cdp :: "xp_private \<Rightarrow> xpnet_queue_struct \<Rightarrow> u8 \<Rightarrow> u64 option" where
  "xpnet_get_q_cdp p q aflags =
     map_option (\<lambda>ws. join64 (ws ! 0) (ws ! 1))
       (if aflags AND XPNET_AFLAG_ACQLOCK \<noteq> 0
        then xp_dev_reg_read_q p (q_cdp_reg q) 2 [0, 0] (xpq_id q)
        else xp_dev_reg_read_q_raw p (q_cdp_reg q) 2 [0, 0] (xpq_id q))"

text \<open>
  The body of \<open>xpnet_queue_en_dis\<close> over the function pair it selects. \<open>regval\<close> is 64 bits
  wide and only its low word is read; the upper word (here 0) is never used before the whole
  variable is assigned.
\<close>

definition queue_cmd_update ::
  "(xp_private \<Rightarrow> xp_register \<Rightarrow> u8 \<Rightarrow> u32 list \<Rightarrow> u32 \<Rightarrow> u32 list option) \<Rightarrow>
   (xp_private \<Rightarrow> xp_register \<Rightarrow> u8 \<Rightarrow> u32 list \<Rightarrow> u32 \<Rightarrow> xp_private option) \<Rightarrow>
   xp_private \<Rightarrow> xpnet_queue_struct \<Rightarrow> u8 \<Rightarrow> u8 \<Rightarrow> xp_private option"
where
  "queue_cmd_update read_fn write_fn p q enable prio =
     do { ws \<leftarrow> read_fn p (q_cmd_reg q) 1 [0, 0] (xpq_id q);
          let regval = join64 (ws ! 0) (ws ! 1);
              prio' = (if prio > 7 then ucast (regval AND 7) else prio);
              regval' = (if enable \<noteq> 0 then XPNET_ENABLE_QUEUE OR ucast prio' else ucast prio')
          in write_fn p (q_cmd_reg q) 1 [lo32 regval', hi32 regval'] (xpq_id q) }"

definition xpnet_queue_en_dis ::
  "xp_private \<Rightarrow> xpnet_queue_struct \<Rightarrow> u8 \<Rightarrow> u8 \<Rightarrow> u8 \<Rightarrow> xp_private option"
where
  "xpnet_queue_en_dis p q enable prio aflags =
     (if aflags AND XPNET_AFLAG_ACQLOCK \<noteq> 0
      then queue_cmd_update xp_dev_reg_read_q xp_dev_reg_write_q p q enable prio
      else queue_cmd_update xp_dev_reg_read_q_raw xp_dev_write_q_raw p q enable prio)"

definition xpnet_program_mux_setdma :: "xp_private \<Rightarrow> u32 \<Rightarrow> xp_private option" where
  "xpnet_program_mux_setdma p flag =
     do { ws \<leftarrow> xp_dev_reg_read_q p MGMT_CTRL_REG_E 1 [0] 0;
          let regval = ws ! 0;
              regval' = (if flag \<noteq> 0 then regval OR push_bit 3 1 else regval AND NOT (push_bit 3 1))
          in do { p' \<leftarrow> xp_dev_reg_write_q p MGMT_CTRL_REG_E 1 [regval'] 0;
                  _ \<leftarrow> xp_dev_reg_read_q p' MGMT_CTRL_REG_E 1 [regval'] 0;
                  Some p' } }"

text \<open>The registers as the chip sees them.\<close>

definition reg32 :: "xp_private \<Rightarrow> xp_register \<Rightarrow> u32 \<Rightarrow> u32" where
  "reg32 p r q = word_at (vma p) (unat (q_reg_addr (mode p) r q))"

definition reg64 :: "xp_private \<Rightarrow> xp_register \<Rightarrow> u32 \<Rightarrow> u64" where
  "reg64 p r q = join64 (word_at (vma p) (unat (q_reg_addr (mode p) r q)))
                        (word_at (vma p) (unat (q_reg_addr (mode p) r q) + 4))"

text \<open>What the command register holds after \<open>xpnet_queue_en_dis\<close>.\<close>

definition cmd_value :: "u32 \<Rightarrow> u8 \<Rightarrow> u8 \<Rightarrow> u32" where
  "cmd_value old enable prio =
     (let pr = (if prio > 7 then old AND 7 else ucast prio) in if enable \<noteq> 0 then 8 OR pr else pr)"

definition lock_ok :: "u8 \<Rightarrow> xp_private \<Rightarrow> bool" where
  "lock_ok aflags p \<longleftrightarrow> (aflags AND XPNET_AFLAG_ACQLOCK \<noteq> 0 \<longrightarrow> \<not> tx_dma_read_lock p)"

lemma lo32_ucast [simp]: "lo32 (ucast (x :: u8)) = ucast x"
  by (rule bit_word_eqI) (auto simp: lo32_def bit_simps)

lemma lo32_or: "lo32 (a OR b) = lo32 a OR lo32 b"
  by (rule bit_word_eqI) (auto simp: lo32_def bit_simps)

lemma u8_of_low3: "ucast (ucast (join64 w h AND 7) :: u8) = (w AND 7 :: u32)"
proof (rule bit_word_eqI)
  fix n
  assume "n < LENGTH(32)"
  have "bit (7 :: u64) n \<longleftrightarrow> n < 3" "bit (7 :: u32) n \<longleftrightarrow> n < 3"
    using bit_mask_iff [where 'a = u64, of 3 n] bit_mask_iff [where 'a = u32, of 3 n] \<open>n < LENGTH(32)\<close>
    by (simp_all add: mask_eq_exp_minus_1)
  then show "bit (ucast (ucast (join64 w h AND 7) :: u8) :: u32) n = bit (w AND 7) n"
    using \<open>n < LENGTH(32)\<close> by (auto simp: join64_def bit_simps)
qed

context reg_rw
begin

lemma cmd_update:
  assumes "priv_wf p" "ok p" "xpq_id q < 64"
  shows "queue_cmd_update read_fn write_fn p q enable prio =
    Some (p\<lparr>vma := put_word (vma p) (unat (q_reg_addr (mode p) (q_cmd_reg q) (xpq_id q)))
            (cmd_value (reg32 p (q_cmd_reg q) (xpq_id q)) enable prio)\<rparr>)"
proof -
  have w: "q_reg_words (q_cmd_reg q) = 1"
    by (simp add: q_cmd_reg_def)
  have "read_fn p (q_cmd_reg q) 1 [0, 0] (xpq_id q) = Some [reg32 p (q_cmd_reg q) (xpq_id q), 0]"
    using read_words [OF assms, of 1 "q_cmd_reg q" "[0, 0]"] w by (simp add: reg32_def)
  moreover have "write_fn p (q_cmd_reg q) 1 [v, v'] (xpq_id q) =
      Some (p\<lparr>vma := put_word (vma p) (unat (q_reg_addr (mode p) (q_cmd_reg q) (xpq_id q))) v\<rparr>)" for v v'
    using write_words [OF assms, of 1 "q_cmd_reg q" "[v, v']"] w by simp
  moreover have "lo32 XPNET_ENABLE_QUEUE = 8"
    by (simp add: lo32_def XPNET_ENABLE_QUEUE_def)
  ultimately show ?thesis
    by (simp add: queue_cmd_update_def cmd_value_def Let_def lo32_or u8_of_low3)
qed

end

lemma xpnet_queue_en_dis_ok:
  assumes "priv_wf p" "lock_ok aflags p" "xpq_id q < 64"
  shows "xpnet_queue_en_dis p q enable prio aflags =
    Some (p\<lparr>vma := put_word (vma p) (unat (q_reg_addr (mode p) (q_cmd_reg q) (xpq_id q)))
            (cmd_value (reg32 p (q_cmd_reg q) (xpq_id q)) enable prio)\<rparr>)"
  using assms by (auto simp: xpnet_queue_en_dis_def lock_ok_def locked.cmd_update raw.cmd_update)

lemma xpnet_set_q_cdp_ok:
  assumes "priv_wf p" "lock_ok aflags p" "xpq_id q < 64"
  shows "xpnet_set_q_cdp p q idx aflags =
    Some (p\<lparr>vma := put_words (vma p) (unat (q_reg_addr (mode p) (q_cdp_reg q) (xpq_id q)))
            [lo32 (q_dma q + scast idx * 32), hi32 (q_dma q + scast idx * 32)]\<rparr>)"
proof -
  have w: "q_reg_words (q_cdp_reg q) = 2"
    by (simp add: q_cdp_reg_def)
  show ?thesis
    using assms locked.write_words [of p "xpq_id q" 2 "q_cdp_reg q" "[_, _]"]
      raw.write_words [of p "xpq_id q" 2 "q_cdp_reg q" "[_, _]"] w
    by (simp add: xpnet_set_q_cdp_def lock_ok_def Let_def XPNET_DESC_SIZE_def)
qed

text \<open>A register write shows in that register and in no other queue register.\<close>

lemma put_word_put_words: "put_word m a v = put_words m a [v]"
  by simp

lemma reg32_write_same [simp]:
  "reg32 (p\<lparr>vma := put_word (vma p) (unat (q_reg_addr (mode p) r q)) v\<rparr>) r q = v"
  by (simp add: reg32_def word_at_put_word)

lemma reg64_write_same [simp]:
  "reg64 (p\<lparr>vma := put_words (vma p) (unat (q_reg_addr (mode p) r q)) [lo32 v, hi32 v]\<rparr>) r q = v"
  using words_at_put_words [of "vma p" "unat (q_reg_addr (mode p) r q)" "[lo32 v, hi32 v]"]
  by (simp add: reg64_def)

lemma words_write_other:
  assumes "is_q_reg r" "is_q_reg r'" "q < 64" "q' < 64" "(r, q) \<noteq> (r', q')" "length vs = q_reg_words r"
    and "b = unat (q_reg_addr m r' q')" "k \<le> q_reg_words r'"
  shows "words_at (put_words mem (unat (q_reg_addr m r q)) vs) b k = words_at mem b k"
  using q_regs_disjoint [OF assms(1-5), of m] assms(6-8)
  by (intro words_at_put_words_disjoint) auto

lemma words_at_2: "words_at m a 2 = [word_at m a, word_at m (a + 4)]"
  by (simp add: numeral_2_eq_2)

lemma reg64_write_other:
  assumes "is_q_reg r" "q < 64" "q' < 64" "(r, q) \<noteq> (r', q')" "length vs = q_reg_words r"
    and "r' \<in> {DMA0_RX_CDP_REG_E, DMA0_TX_CDP_REG_E}"
  shows "reg64 (p\<lparr>vma := put_words (vma p) (unat (q_reg_addr (mode p) r q)) vs\<rparr>) r' q' = reg64 p r' q'"
proof -
  have "is_q_reg r'" "2 \<le> q_reg_words r'"
    using assms(6) by (auto simp: is_q_reg_def)
  then show ?thesis
    using words_write_other [OF assms(1) _ assms(2-5) refl, where k = 2 and m = "mode p" and mem = "vma p"]
    by (simp add: reg64_def words_at_2)
qed

lemma reg32_write_other:
  assumes "is_q_reg r" "is_q_reg r'" "q < 64" "q' < 64" "(r, q) \<noteq> (r', q')" "length vs = q_reg_words r"
  shows "reg32 (p\<lparr>vma := put_words (vma p) (unat (q_reg_addr (mode p) r q)) vs\<rparr>) r' q' = reg32 p r' q'"
proof -
  have "1 \<le> q_reg_words r'"
    by (cases r') auto
  then show ?thesis
    using words_write_other [OF assms refl, where k = 1 and m = "mode p" and mem = "vma p"] by (simp add: reg32_def)
qed

lemma priv_wf_vma [simp]: "priv_wf (p\<lparr>vma := m\<rparr>) = priv_wf p"
  by (simp add: priv_wf_def)

lemma lock_ok_vma [simp]: "lock_ok a (p\<lparr>vma := m\<rparr>) = lock_ok a p"
  by (simp add: lock_ok_def)

lemma lock_ok_free [simp]: "\<not> tx_dma_read_lock p \<Longrightarrow> lock_ok a p"
  by (simp add: lock_ok_def)

lemma lock_ok_raw [simp]: "lock_ok 0 p"
  by (simp add: lock_ok_def)

lemma is_q_reg_cdp [simp]: "is_q_reg (q_cdp_reg q)" "is_q_reg (q_cmd_reg q)"
  by (auto simp: is_q_reg_def q_cdp_reg_def q_cmd_reg_def)

lemma xpnet_get_q_cdp_ok:
  assumes "priv_wf p" "lock_ok aflags p" "xpq_id q < 64"
  shows "xpnet_get_q_cdp p q aflags = Some (reg64 p (q_cdp_reg q) (xpq_id q))"
proof -
  have w: "q_reg_words (q_cdp_reg q) = 2"
    by (simp add: q_cdp_reg_def)
  show ?thesis
    using assms locked.read_words [of p "xpq_id q" 2 "q_cdp_reg q" "[0, 0]"]
      raw.read_words [of p "xpq_id q" 2 "q_cdp_reg q" "[0, 0]"] w
    by (simp add: xpnet_get_q_cdp_def lock_ok_def reg64_def words_at_2)
qed

lemma xpnet_program_mux_setdma_ok:
  assumes "priv_wf p" "\<not> tx_dma_read_lock p"
  shows "xpnet_program_mux_setdma p flag =
    Some (p\<lparr>vma := put_word (vma p) (unat (q_reg_addr (mode p) MGMT_CTRL_REG_E 0))
      (if flag \<noteq> 0 then reg32 p MGMT_CTRL_REG_E 0 OR 8 else reg32 p MGMT_CTRL_REG_E 0 AND NOT 8)\<rparr>)"
proof -
  have "xp_dev_reg_read_q p' MGMT_CTRL_REG_E 1 [v] 0 = Some [reg32 p' MGMT_CTRL_REG_E 0]"
    if "priv_wf p'" "\<not> tx_dma_read_lock p'" for p' v
    using locked.read_words [OF that, of 0 1 MGMT_CTRL_REG_E "[v]"] by (simp add: reg32_def)
  moreover have "xp_dev_reg_write_q p MGMT_CTRL_REG_E 1 [v] 0 =
      Some (p\<lparr>vma := put_word (vma p) (unat (q_reg_addr (mode p) MGMT_CTRL_REG_E 0)) v\<rparr>)" for v
    using locked.write_words [OF assms, of 0 1 MGMT_CTRL_REG_E "[v]"] by simp
  ultimately show ?thesis
    using assms by (simp add: xpnet_program_mux_setdma_def)
qed

end
