(* ===== verification/Queue_Init.thy ===== *)
theory Queue_Init
  imports Net_Priv "HOL-Library.Multiset"
begin

text \<open>
  Life cycle of the queues (\<open>xp_netdev_core.c\<close>): allocation and initialisation of the
  descriptor area and the packet buffers, the clean-up of a partly built queue, and the setup
  and teardown of all queues. The lemmas show that an RX queue is either completely built or
  leaves the allocator as it found it, and what a built queue looks like to the chip.
\<close>

text \<open>\<open>XPNET_CEIL_LEN(XPNET_RX_NUM_DESCS * XPNET_DESC_SIZE, PAGE_SIZE)\<close> as the code computes it.\<close>

definition desc_memlen :: nat where
  "desc_memlen =
     unat (XPNET_CEIL_LEN (of_nat (XPNET_RX_NUM_DESCS * XPNET_DESC_SIZE) :: u32) (of_nat PAGE_SIZE))"

definition zero_area :: "xpnet_descriptor list" where
  "zero_area = replicate (desc_memlen div XPNET_DESC_SIZE) zero_desc"

definition rx_q_put :: "xpnet_private \<Rightarrow> nat \<Rightarrow> xpnet_queue_struct \<Rightarrow> xpnet_private" where
  "rx_q_put net i q = net\<lparr>rx_queue := (rx_queue net)[i := q]\<rparr>"

definition tx_q_put :: "xpnet_private \<Rightarrow> nat \<Rightarrow> xpnet_queue_struct \<Rightarrow> xpnet_private" where
  "tx_q_put net i q = net\<lparr>tx_queue := (tx_queue net)[i := q]\<rparr>"

subsection \<open>RX queues\<close>

fun rx_uninit_loop ::
  "xpnet_queue_struct \<Rightarrow> dma_env \<Rightarrow> nat \<Rightarrow> nat \<Rightarrow> (xpnet_queue_struct \<times> dma_env) option"
where
  "rx_uninit_loop q e i 0 = Some (q, e)"
| "rx_uninit_loop q e i (Suc k) =
     do { q \<leftarrow> desc_set q i zero_desc;
          d \<leftarrow> meta_get q i;
          let d = d\<lparr>cdp := 0\<rparr>; b = buf_sta d
          in if shard_va b \<noteq> None
             then do { e \<leftarrow> dma_free_coherent (unat (shard_len b)) (shard_va b) (shard_dma b) e;
                       q \<leftarrow> meta_set q i (d\<lparr>buf_sta := b\<lparr>shard_va := None\<rparr>\<rparr>);
                       rx_uninit_loop q e (Suc i) k }
             else do { q \<leftarrow> meta_set q i d; rx_uninit_loop q e (Suc i) k } }"

definition xpnet_rx_queue_uninit ::
  "xpnet_private \<Rightarrow> dma_env \<Rightarrow> nat \<Rightarrow> nat \<Rightarrow> (xpnet_private \<times> dma_env) option"
where
  "xpnet_rx_queue_uninit net e queue meta_idx =
     do { q \<leftarrow> arr_get (rx_queue net) queue;
          p \<leftarrow> xpnet_queue_en_dis (pci_priv net) q 0 0 XPNET_AFLAG_ACQLOCK;
          (q, e) \<leftarrow> rx_uninit_loop q e 0 meta_idx;
          e \<leftarrow> dma_free_coherent desc_memlen (q_va q) (q_dma q) e;
          Some (rx_q_put (net\<lparr>pci_priv := p\<rparr>) queue q, e) }"

fun rx_teardown_loop :: "xpnet_private \<Rightarrow> dma_env \<Rightarrow> nat \<Rightarrow> nat \<Rightarrow> (xpnet_private \<times> dma_env) option" where
  "rx_teardown_loop net e i 0 = Some (net, e)"
| "rx_teardown_loop net e i (Suc k) =
     do { q \<leftarrow> arr_get (rx_queue net) i;
          (net, e) \<leftarrow> xpnet_rx_queue_uninit net e i (unat (xpq_num_desc q));
          rx_teardown_loop net e (Suc i) k }"

definition xpnet_rx_teardown :: "xpnet_private \<Rightarrow> dma_env \<Rightarrow> nat \<Rightarrow> (xpnet_private \<times> dma_env) option" where
  "xpnet_rx_teardown net e failed_idx = rx_teardown_loop net e 0 failed_idx"

text \<open>\<open>prealloc\<close> carries the buffer of \<open>xpnet_prealloc_buf\<close>; the call always returns 0.\<close>

definition xpnet_rx_desc_init ::
  "xpnet_queue_struct \<Rightarrow> nat \<Rightarrow> xpnet_shards_struct \<Rightarrow> xpnet_queue_struct option"
where
  "xpnet_rx_desc_init q idx prealloc =
     do { d \<leftarrow> meta_get q idx;
          q \<leftarrow> meta_set q idx
                 (d\<lparr>num_shards := 0, desc_va := Some idx,
                    cdp := q_dma q + of_nat (XPNET_DESC_SIZE * idx),
                    buf_sta := \<lparr>shard_va = shard_va prealloc, shard_dma = shard_dma prealloc,
                               shard_len = shard_len prealloc\<rparr>\<rparr>);
          v \<leftarrow> desc_get q idx;
          desc_set q idx (v\<lparr>qword2 := shard_dma prealloc, qword1 := scast (shard_len prealloc)\<rparr>) }"

definition xpnet_prealloc_buf :: "dma_env \<Rightarrow> (rc + xpnet_shards_struct) \<times> dma_env" where
  "xpnet_prealloc_buf e =
     (case dma_alloc_coherent XPNET_MAX_PACKET_SIZE e of
        (None, e') \<Rightarrow> (Inl (- ENOMEM), e')
      | (Some (va, dma), e') \<Rightarrow>
          (Inr \<lparr>shard_va = Some va, shard_dma = dma, shard_len = of_nat XPNET_MAX_PACKET_SIZE\<rparr>, e'))"

text \<open>The buffer loop of \<open>xpnet_rx_queue_init\<close>: stops at the first failed allocation.\<close>

fun rx_init_loop ::
  "xpnet_queue_struct \<Rightarrow> dma_env \<Rightarrow> nat \<Rightarrow> nat \<Rightarrow> (rc \<times> nat \<times> xpnet_queue_struct \<times> dma_env) option"
where
  "rx_init_loop q e n 0 = Some (0, n, q, e)"
| "rx_init_loop q e n (Suc k) =
     (case xpnet_prealloc_buf e of
        (Inl err, e') \<Rightarrow> Some (err, n, q, e')
      | (Inr prealloc, e') \<Rightarrow>
          do { q' \<leftarrow> xpnet_rx_desc_init q n prealloc; rx_init_loop q' e' (Suc n) k })"

definition xpnet_rx_queue_init ::
  "xpnet_private \<Rightarrow> dma_env \<Rightarrow> nat \<Rightarrow> (rc \<times> xpnet_private \<times> dma_env) option"
where
  "xpnet_rx_queue_init net e i =
     (if i \<ge> XPNET_RX_NUM_QUEUES then Some (- EINVAL, net, e)
      else do { q \<leftarrow> arr_get (rx_queue net) i;
        case dma_alloc_coherent desc_memlen e of
          (None, e) \<Rightarrow> Some (- ENOMEM, rx_q_put net i (q\<lparr>q_va := None\<rparr>), e)
        | (Some (_, dma), e) \<Rightarrow>
            do { (rc, n, q, e) \<leftarrow> rx_init_loop
                   (q\<lparr>q_va := Some zero_area, q_dma := dma, xpq_lock := False, xpq_id := of_nat i,
                      xpq_type := XPNET_QUEUE_TYPE_RX, xpq_num_desc := of_nat XPNET_RX_NUM_DESCS,
                      q_status := XPNET_QUEUE_STOPPED, q_tail := 0, q_head := 0\<rparr>)
                   e 0 XPNET_RX_NUM_DESCS;
                 if rc \<noteq> 0 then
                   do { (net, e) \<leftarrow> xpnet_rx_queue_uninit (rx_q_put net i q) e i n;
                        Some (rc, net, e) }
                 else
                   do { q \<leftarrow> xpnet_rx_queue_link_and_enable q;
                        p \<leftarrow> xpnet_set_q_cdp (pci_priv net) q 0 XPNET_AFLAG_ACQLOCK;
                        Some (0, rx_q_put (net\<lparr>pci_priv := p\<rparr>) i q, e) } } })"

fun rx_start_loop :: "xp_private \<Rightarrow> xpnet_queue_struct list \<Rightarrow> nat \<Rightarrow> nat \<Rightarrow> xp_private option" where
  "rx_start_loop p qs i 0 = Some p"
| "rx_start_loop p qs i (Suc k) =
     do { q \<leftarrow> arr_get qs i;
          p \<leftarrow> xpnet_queue_en_dis p q 1 0 XPNET_AFLAG_ACQLOCK;
          rx_start_loop p qs (Suc i) k }"

definition xpnet_rx_all_queues_start :: "xpnet_private \<Rightarrow> xpnet_private option" where
  "xpnet_rx_all_queues_start net =
     do { p \<leftarrow> rx_start_loop (pci_priv net) (rx_queue net) 0 (unat (num_rxqueues net));
          Some (net\<lparr>pci_priv := p\<rparr>) }"

fun rx_setup_loop :: "xpnet_private \<Rightarrow> dma_env \<Rightarrow> nat \<Rightarrow> nat \<Rightarrow> (rc \<times> xpnet_private \<times> dma_env) option" where
  "rx_setup_loop net e i 0 = Some (0, net, e)"
| "rx_setup_loop net e i (Suc k) =
     do { (rc, net, e) \<leftarrow> xpnet_rx_queue_init net e i;
          if rc < 0 then
            do { (net, e) \<leftarrow> xpnet_rx_teardown net e i; Some (rc, net, e) }
          else rx_setup_loop net e (Suc i) k }"

definition xpnet_rx_queue_setup ::
  "xpnet_private \<Rightarrow> dma_env \<Rightarrow> nat \<Rightarrow> (rc \<times> xpnet_private \<times> dma_env) option"
where
  "xpnet_rx_queue_setup net e num_queues =
     rx_setup_loop (net\<lparr>num_rxqueues := of_nat num_queues\<rparr>) e 0 num_queues"

subsection \<open>TX queues\<close>

text \<open>
  The code assigns the result of the allocation to \<open>desc->buf_sta.va\<close> and then tests
  \<open>desc->va\<close>. When the allocation fails, the DMA address keeps its old value.
\<close>

definition xpnet_tx_desc_init ::
  "xpnet_queue_struct \<Rightarrow> dma_env \<Rightarrow> nat \<Rightarrow> (rc \<times> xpnet_queue_struct \<times> dma_env) option"
where
  "xpnet_tx_desc_init q e idx =
     do { desc \<leftarrow> meta_get q idx;
          let desc = desc\<lparr>num_shards := 0, desc_va := Some idx,
                          cdp := q_dma q + of_nat (XPNET_DESC_SIZE * idx)\<rparr>;
              (res, e) = dma_alloc_coherent PAGE_SIZE e;
              b = (case res of
                     None \<Rightarrow> (buf_sta desc)\<lparr>shard_va := None\<rparr>
                   | Some (va, dma) \<Rightarrow> (buf_sta desc)\<lparr>shard_va := Some va, shard_dma := dma\<rparr>)
          in if desc_va desc = None
             then do { q \<leftarrow> meta_set q idx (desc\<lparr>buf_sta := b\<rparr>); Some (- ENOMEM, q, e) }
             else do { q \<leftarrow> meta_set q idx (desc\<lparr>buf_sta := b\<lparr>shard_len := 0\<rparr>\<rparr>); Some (0, q, e) } }"

fun tx_uninit_loop ::
  "xpnet_queue_struct \<Rightarrow> dma_env \<Rightarrow> nat \<Rightarrow> nat \<Rightarrow> (xpnet_queue_struct \<times> dma_env) option"
where
  "tx_uninit_loop q e i 0 = Some (q, e)"
| "tx_uninit_loop q e i (Suc k) =
     do { q \<leftarrow> desc_set q i zero_desc;
          d \<leftarrow> meta_get q i;
          let d = d\<lparr>cdp := 0, desc_va := None\<rparr>; b = buf_sta d
          in if shard_va b \<noteq> None
             then do { e \<leftarrow> dma_free_coherent PAGE_SIZE (shard_va b) (shard_dma b) e;
                       q \<leftarrow> meta_set q i (d\<lparr>buf_sta := b\<lparr>shard_va := None, shard_dma := 0\<rparr>\<rparr>);
                       tx_uninit_loop q e (Suc i) k }
             else do { q \<leftarrow> meta_set q i d; tx_uninit_loop q e (Suc i) k } }"

definition xpnet_tx_queue_uninit ::
  "xpnet_private \<Rightarrow> dma_env \<Rightarrow> nat \<Rightarrow> nat \<Rightarrow> (xpnet_private \<times> dma_env) option"
where
  "xpnet_tx_queue_uninit net e queue meta_idx =
     do { q \<leftarrow> arr_get (tx_queue net) queue;
          p \<leftarrow> xpnet_queue_en_dis (pci_priv net) q 0 0 XPNET_AFLAG_ACQLOCK;
          (q, e) \<leftarrow> tx_uninit_loop q e 0 meta_idx;
          e \<leftarrow> dma_free_coherent desc_memlen (q_va q) (q_dma q) e;
          Some (tx_q_put (net\<lparr>pci_priv := p\<rparr>) queue q, e) }"

fun tx_init_loop ::
  "xpnet_queue_struct \<Rightarrow> dma_env \<Rightarrow> nat \<Rightarrow> nat \<Rightarrow> (rc \<times> nat \<times> xpnet_queue_struct \<times> dma_env) option"
where
  "tx_init_loop q e n 0 = Some (0, n, q, e)"
| "tx_init_loop q e n (Suc k) =
     do { (rc, q, e) \<leftarrow> xpnet_tx_desc_init q e n;
          if rc \<noteq> 0 then Some (rc, n, q, e) else tx_init_loop q e (Suc n) k }"

definition xpnet_tx_queue_init ::
  "xpnet_private \<Rightarrow> dma_env \<Rightarrow> nat \<Rightarrow> (rc \<times> xpnet_private \<times> dma_env) option"
where
  "xpnet_tx_queue_init net e i =
     (if i \<ge> unat (num_txqueues net) then Some (- EINVAL, net, e)
      else do { q \<leftarrow> arr_get (tx_queue net) i;
        let q = q\<lparr>xpq_lock := False, xpq_id := of_nat i, xpq_type := XPNET_QUEUE_TYPE_TX,
                  xpq_num_desc := of_nat XPNET_TX_NUM_DESCS, q_tail := 0,
                  q_head := of_nat XPNET_TX_NUM_DESCS - 1\<rparr>
        in case dma_alloc_coherent desc_memlen e of
          (None, e) \<Rightarrow> Some (- ENOMEM, tx_q_put net i (q\<lparr>q_va := None\<rparr>), e)
        | (Some (_, dma), e) \<Rightarrow>
            do { (rc, n, q, e) \<leftarrow> tx_init_loop (q\<lparr>q_va := Some zero_area, q_dma := dma\<rparr>)
                                    e 0 XPNET_TX_NUM_DESCS;
                 if rc \<noteq> 0 then
                   do { (net, e) \<leftarrow> xpnet_tx_queue_uninit (tx_q_put net i q) e i n;
                        Some (rc, net, e) }
                 else
                   do { q \<leftarrow> (if hw_flags net AND XPNET_HWFLAG_A0 = 0
                               then xpnet_queue_desc_link q False else Some q);
                        p \<leftarrow> xpnet_set_q_cdp (pci_priv net) q 0 XPNET_AFLAG_ACQLOCK;
                        Some (0, tx_q_put (net\<lparr>pci_priv := p\<rparr>) i
                                   (q\<lparr>q_status := XPNET_QUEUE_ACTIVE\<rparr>), e) } } })"

fun tx_teardown_loop :: "xpnet_private \<Rightarrow> dma_env \<Rightarrow> nat \<Rightarrow> nat \<Rightarrow> (xpnet_private \<times> dma_env) option" where
  "tx_teardown_loop net e i 0 = Some (net, e)"
| "tx_teardown_loop net e i (Suc k) =
     do { q \<leftarrow> arr_get (tx_queue net) i;
          (net, e) \<leftarrow> xpnet_tx_queue_uninit net e i (unat (xpq_num_desc q));
          tx_teardown_loop net e (Suc i) k }"

definition xpnet_tx_teardown :: "xpnet_private \<Rightarrow> dma_env \<Rightarrow> nat \<Rightarrow> (xpnet_private \<times> dma_env) option" where
  "xpnet_tx_teardown net e failed_idx = tx_teardown_loop net e 0 failed_idx"

fun tx_setup_loop :: "xpnet_private \<Rightarrow> dma_env \<Rightarrow> nat \<Rightarrow> nat \<Rightarrow> (rc \<times> xpnet_private \<times> dma_env) option" where
  "tx_setup_loop net e i 0 = Some (0, net, e)"
| "tx_setup_loop net e i (Suc k) =
     do { (rc, net, e) \<leftarrow> xpnet_tx_queue_init net e i;
          if rc < 0 then
            do { (net, e) \<leftarrow> xpnet_tx_teardown net e i; Some (rc, net, e) }
          else tx_setup_loop net e (Suc i) k }"

definition xpnet_tx_queue_setup ::
  "xpnet_private \<Rightarrow> dma_env \<Rightarrow> nat \<Rightarrow> (rc \<times> xpnet_private \<times> dma_env) option"
where
  "xpnet_tx_queue_setup net e num_queues =
     tx_setup_loop (net\<lparr>num_txqueues := of_nat num_queues\<rparr>) e 0 num_queues"

subsection \<open>Building and clearing one RX queue\<close>

text \<open>The arrays of the private structure have their C sizes.\<close>

definition net_shape :: "xpnet_private \<Rightarrow> bool" where
  "net_shape net \<longleftrightarrow>
     length (rx_queue net) = 64 \<and> length (tx_queue net) = 64 \<and>
     (\<forall>q \<in> set (rx_queue net) \<union> set (tx_queue net). length (xpq_desc_meta q) = 10)"

text \<open>Entry \<open>i\<close> of an RX queue is built: its buffer has 16 KB and its descriptor describes it.\<close>

definition rx_entry_ok :: "xpnet_queue_struct \<Rightarrow> nat \<Rightarrow> bool" where
  "rx_entry_ok q i \<longleftrightarrow>
     meta_ok XPNET_MAX_PACKET_SIZE (q_dma q) i (xpq_desc_meta q ! i) \<and>
     shard_len (buf_sta (xpq_desc_meta q ! i)) = of_nat XPNET_MAX_PACKET_SIZE"

definition rx_desc_ok :: "xpnet_queue_struct \<Rightarrow> nat \<Rightarrow> bool" where
  "rx_desc_ok q i \<longleftrightarrow>
     (\<exists>v. desc_get q i = Some v \<and> qword1 v = of_nat XPNET_MAX_PACKET_SIZE \<and>
          qword2 v = shard_dma (buf_sta (xpq_desc_meta q ! i)))"

definition rx_base_ok :: "xpnet_queue_struct \<Rightarrow> bool" where
  "rx_base_ok q \<longleftrightarrow>
     xpq_num_desc q = 10 \<and> length (xpq_desc_meta q) = 10 \<and>
     (\<exists>area. q_va q = Some area \<and> 10 \<le> length area)"

definition buf_mem :: "nat \<Rightarrow> xpnet_queue_struct \<Rightarrow> nat \<Rightarrow> u64 \<times> nat" where
  "buf_mem sz q i = (shard_dma (buf_sta (xpq_desc_meta q ! i)), sz)"

fun bufs_mem :: "nat \<Rightarrow> xpnet_queue_struct \<Rightarrow> nat \<Rightarrow> nat \<Rightarrow> (u64 \<times> nat) multiset" where
  "bufs_mem sz q i 0 = {#}"
| "bufs_mem sz q i (Suc k) = add_mset (buf_mem sz q i) (bufs_mem sz q (Suc i) k)"

text \<open>All memory a built queue owns: the descriptor area and its ten buffers.\<close>

definition q_mem :: "nat \<Rightarrow> xpnet_queue_struct \<Rightarrow> (u64 \<times> nat) multiset" where
  "q_mem sz q = add_mset (q_dma q, desc_memlen) (bufs_mem sz q 0 10)"

text \<open>Everything of a queue but its descriptors, their book-keeping and the area pointer.\<close>

definition q_conf :: "xpnet_queue_struct \<Rightarrow> xpnet_queue_struct" where
  "q_conf q = q\<lparr>q_va := None, xpq_desc_meta := []\<rparr>"

lemma desc_memlen_eq [simp]: "desc_memlen = 4096"
  by (simp add: desc_memlen_def XPNET_CEIL_LEN_def XPNET_RX_NUM_DESCS_def XPNET_DESC_SIZE_def PAGE_SIZE_def)

lemma zero_area_length [simp]: "length zero_area = 128"
  by (simp add: zero_area_def XPNET_DESC_SIZE_def)

lemma q_conf_fields:
  assumes "q_conf q' = q_conf q"
  shows "xpq_num_desc q' = xpq_num_desc q" "q_tail q' = q_tail q" "q_head q' = q_head q"
    "q_dma q' = q_dma q" "xpq_id q' = xpq_id q" "xpq_type q' = xpq_type q"
    "q_status q' = q_status q" "xpq_lock q' = xpq_lock q"
  by (cases q; cases q'; use assms in \<open>simp add: q_conf_def\<close>)+

lemma bufs_mem_snoc: "bufs_mem sz q i (Suc k) = add_mset (buf_mem sz q (i + k)) (bufs_mem sz q i k)"
  by (induction k arbitrary: i) (simp_all add: add_mset_commute)

lemma bufs_mem_cong:
  "(\<And>j. i \<le> j \<Longrightarrow> j < i + k \<Longrightarrow> xpq_desc_meta q' ! j = xpq_desc_meta q ! j) \<Longrightarrow> bufs_mem sz q' i k = bufs_mem sz q i k"
  by (induction k arbitrary: i) (simp_all add: buf_mem_def)

lemma dma_free_coherent_ok:
  "va \<noteq> None \<Longrightarrow> mset (dma_live e) = add_mset (dma, sz) L \<Longrightarrow>
   \<exists>e'. dma_free_coherent sz va dma e = Some e' \<and> mset (dma_live e') = L \<and> dma_res e' = dma_res e"
  by (auto simp: dma_free_coherent_def dest: arg_cong [of _ _ set_mset])

lemma dma_alloc_coherent_cases:
  obtains (fail) e' where "dma_alloc_coherent sz e = (None, e')" "dma_res e (dma_calls e) = None"
      "dma_live e' = dma_live e" "dma_res e' = dma_res e" "dma_calls e' = Suc (dma_calls e)"
  | (ok) va dma e' where "dma_alloc_coherent sz e = (Some (va, dma), e')"
      "dma_res e (dma_calls e) = Some dma" "length va = sz"
      "dma_live e' = (dma, sz) # dma_live e" "dma_res e' = dma_res e" "dma_calls e' = Suc (dma_calls e)"
  by (cases "dma_res e (dma_calls e)") (auto simp: dma_alloc_coherent_def Let_def)

lemma rx_desc_init_ok:
  assumes b: "rx_base_ok q" and i: "i < 10" and va: "length va = XPNET_MAX_PACKET_SIZE"
    and pre: "pre = \<lparr>shard_va = Some va, shard_dma = dma, shard_len = of_nat XPNET_MAX_PACKET_SIZE\<rparr>"
  shows "\<exists>q'. xpnet_rx_desc_init q i pre = Some q' \<and> rx_base_ok q' \<and> q_conf q' = q_conf q \<and>
    rx_entry_ok q' i \<and> rx_desc_ok q' i \<and> shard_dma (buf_sta (xpq_desc_meta q' ! i)) = dma \<and>
    (\<forall>j<10. j \<noteq> i \<longrightarrow> xpq_desc_meta q' ! j = xpq_desc_meta q ! j \<and>
       (rx_entry_ok q j \<longrightarrow> desc_get q' j = desc_get q j))"
proof -
  obtain area where a: "q_va q = Some area" "10 \<le> length area" and l: "length (xpq_desc_meta q) = 10"
    and n: "xpq_num_desc q = 10"
    using b by (auto simp: rx_base_ok_def)
  let ?d = "(xpq_desc_meta q ! i)\<lparr>num_shards := 0, desc_va := Some i, cdp := q_dma q + of_nat (32 * i),
      buf_sta := \<lparr>shard_va = Some va, shard_dma = dma, shard_len = of_nat XPNET_MAX_PACKET_SIZE\<rparr>\<rparr>"
  let ?v = "(area ! i)\<lparr>qword2 := dma, qword1 := of_nat XPNET_MAX_PACKET_SIZE\<rparr>"
  let ?q = "q\<lparr>xpq_desc_meta := (xpq_desc_meta q)[i := ?d], q_va := Some (area[i := ?v])\<rparr>"
  have "xpnet_rx_desc_init q i pre = Some ?q"
    using a l i by (simp add: xpnet_rx_desc_init_def meta_get_def meta_set_def desc_get_def desc_set_def
        pre XPNET_DESC_SIZE_def XPNET_MAX_PACKET_SIZE_def)
  moreover have "rx_base_ok ?q" "q_conf ?q = q_conf q"
    using a l n by (simp_all add: rx_base_ok_def q_conf_def)
  moreover have "rx_entry_ok ?q i" "rx_desc_ok ?q i"
    using a l i va by (simp_all add: rx_entry_ok_def meta_ok_def rx_desc_ok_def desc_get_def meta_get_def)
  moreover have "desc_get ?q j = desc_get q j" if "j < 10" "j \<noteq> i" "rx_entry_ok q j" for j
    using that a l i by (simp add: desc_get_def meta_get_def rx_entry_ok_def meta_ok_def)
  ultimately show ?thesis
    using i l by (intro exI [of _ ?q]) simp
qed

lemma rx_init_loop_ok:
  assumes "rx_base_ok q" "\<And>j. j < n \<Longrightarrow> rx_entry_ok q j \<and> rx_desc_ok q j" "n + k = 10"
    "mset (dma_live e) = bufs_mem XPNET_MAX_PACKET_SIZE q 0 n + L"
  shows "\<exists>rc m q' e'. rx_init_loop q e n k = Some (rc, m, q', e') \<and> rx_base_ok q' \<and>
    q_conf q' = q_conf q \<and> (\<forall>j<m. rx_entry_ok q' j \<and> rx_desc_ok q' j) \<and> m \<le> 10 \<and>
    mset (dma_live e') = bufs_mem XPNET_MAX_PACKET_SIZE q' 0 m + L \<and>
    (if \<forall>j<k. dma_res e (dma_calls e + j) \<noteq> None then rc = 0 \<and> m = 10 else rc = - ENOMEM)"
  using assms
proof (induction k arbitrary: q e n)
  case 0
  then show ?case
    by auto
next
  case (Suc k)
  show ?case
  proof (cases rule: dma_alloc_coherent_cases [of XPNET_MAX_PACKET_SIZE e])
    case (fail e')
    then have "\<not> (\<forall>j<Suc k. dma_res e (dma_calls e + j) \<noteq> None)"
      by (auto intro: exI [of _ 0])
    then show ?thesis
      using fail Suc.prems by (auto simp: xpnet_prealloc_buf_def)
  next
    case (ok va dma e')
    let ?pre = "\<lparr>shard_va = Some va, shard_dma = dma, shard_len = of_nat XPNET_MAX_PACKET_SIZE\<rparr>"
    have n: "n < 10"
      using Suc.prems(3) by simp
    obtain q1 where q1: "xpnet_rx_desc_init q n ?pre = Some q1" "rx_base_ok q1" "q_conf q1 = q_conf q"
        "rx_entry_ok q1 n" "rx_desc_ok q1 n" "shard_dma (buf_sta (xpq_desc_meta q1 ! n)) = dma"
      and old: "\<And>j. j < 10 \<Longrightarrow> j \<noteq> n \<Longrightarrow> xpq_desc_meta q1 ! j = xpq_desc_meta q ! j \<and>
        (rx_entry_ok q j \<longrightarrow> desc_get q1 j = desc_get q j)"
      using rx_desc_init_ok [OF Suc.prems(1) n ok(3) refl] by blast
    have "rx_entry_ok q1 j \<and> rx_desc_ok q1 j" if "j < Suc n" for j
    proof (cases "j = n")
      case False
      then show ?thesis
        using that n old [of j] Suc.prems(2) [of j] q_conf_fields(4) [OF q1(3)]
        by (auto simp: rx_entry_ok_def rx_desc_ok_def)
    qed (use q1 in simp)
    moreover have "bufs_mem XPNET_MAX_PACKET_SIZE q1 0 n = bufs_mem XPNET_MAX_PACKET_SIZE q 0 n"
      using n old by (intro bufs_mem_cong) auto
    then have "mset (dma_live e') = bufs_mem XPNET_MAX_PACKET_SIZE q1 0 (Suc n) + L"
      unfolding bufs_mem_snoc using ok(4) Suc.prems(4) q1(6) by (simp add: buf_mem_def)
    moreover have "(\<forall>j<Suc k. dma_res e (dma_calls e + j) \<noteq> None) \<longleftrightarrow>
        (\<forall>j<k. dma_res e' (dma_calls e' + j) \<noteq> None)"
      using ok by (auto simp: less_Suc_eq_0_disj)
    moreover have "rx_init_loop q e n (Suc k) = rx_init_loop q1 e' (Suc n) k"
      using ok q1(1) by (simp add: xpnet_prealloc_buf_def)
    ultimately show ?thesis
      using Suc.IH [OF q1(2), of "Suc n" e'] Suc.prems(3) q1(3) by simp
  qed
qed

lemma rx_uninit_loop_ok:
  assumes "rx_base_ok q" "\<And>j. i \<le> j \<Longrightarrow> j < i + k \<Longrightarrow> rx_entry_ok q j" "i + k \<le> 10"
    "mset (dma_live e) = bufs_mem XPNET_MAX_PACKET_SIZE q i k + L"
  shows "\<exists>q' e'. rx_uninit_loop q e i k = Some (q', e') \<and> rx_base_ok q' \<and> q_conf q' = q_conf q \<and>
    mset (dma_live e') = L \<and> dma_res e' = dma_res e"
  using assms
proof (induction k arbitrary: q e i)
  case 0
  then show ?case
    by auto
next
  case (Suc k)
  let ?d = "xpq_desc_meta q ! i"
  obtain area where a: "q_va q = Some area" "10 \<le> length area" and l: "length (xpq_desc_meta q) = 10"
    and n: "xpq_num_desc q = 10"
    using Suc.prems(1) by (auto simp: rx_base_ok_def)
  obtain bytes where d: "desc_va ?d = Some i" "shard_va (buf_sta ?d) = Some bytes"
      "shard_len (buf_sta ?d) = of_nat XPNET_MAX_PACKET_SIZE"
    using Suc.prems(2) [of i] by (auto simp: rx_entry_ok_def meta_ok_def)
  have i: "i < 10"
    using Suc.prems(3) by simp
  obtain e1 where e1: "dma_free_coherent XPNET_MAX_PACKET_SIZE (Some bytes) (shard_dma (buf_sta ?d)) e = Some e1"
      "mset (dma_live e1) = bufs_mem XPNET_MAX_PACKET_SIZE q (Suc i) k + L" "dma_res e1 = dma_res e"
    using dma_free_coherent_ok [of "Some bytes" e "shard_dma (buf_sta ?d)" XPNET_MAX_PACKET_SIZE
        "bufs_mem XPNET_MAX_PACKET_SIZE q (Suc i) k + L"] Suc.prems(4)
    by (auto simp: buf_mem_def)
  let ?d' = "?d\<lparr>cdp := 0, buf_sta := (buf_sta ?d)\<lparr>shard_va := None\<rparr>\<rparr>"
  let ?q1 = "q\<lparr>q_va := Some (area[i := zero_desc]), xpq_desc_meta := (xpq_desc_meta q)[i := ?d']\<rparr>"
  have "unat (of_nat XPNET_MAX_PACKET_SIZE :: u32) = XPNET_MAX_PACKET_SIZE"
    by (simp add: XPNET_MAX_PACKET_SIZE_def)
  then have step: "rx_uninit_loop q e i (Suc k) = rx_uninit_loop ?q1 e1 (Suc i) k"
    using a l d i e1(1) by (simp add: desc_set_def meta_get_def meta_set_def)
  have base: "rx_base_ok ?q1"
    using a l n by (simp add: rx_base_ok_def)
  have keep: "xpq_desc_meta ?q1 ! j = xpq_desc_meta q ! j" if "Suc i \<le> j" for j
    using that by simp
  then have "bufs_mem XPNET_MAX_PACKET_SIZE ?q1 (Suc i) k = bufs_mem XPNET_MAX_PACKET_SIZE q (Suc i) k"
    by (intro bufs_mem_cong) simp
  moreover have "rx_entry_ok ?q1 j" if "Suc i \<le> j" "j < Suc i + k" for j
    using Suc.prems(2) [of j] that keep [of j] by (simp add: rx_entry_ok_def)
  moreover have "q_conf ?q1 = q_conf q"
    by (simp add: q_conf_def)
  ultimately show ?case
    unfolding step using Suc.IH [OF base, of "Suc i" e1] e1(2,3) Suc.prems(3) by simp
qed

lemma xpnet_rx_queue_uninit_ok:
  assumes "i < length (rx_queue net)" "rx_queue net ! i = q" "priv_wf (pci_priv net)"
    "\<not> tx_dma_read_lock (pci_priv net)" "xpq_id q < 64"
    "rx_base_ok q" "\<And>j. j < k \<Longrightarrow> rx_entry_ok q j" "k \<le> 10"
    "mset (dma_live e) = add_mset (q_dma q, desc_memlen) (bufs_mem XPNET_MAX_PACKET_SIZE q 0 k) + L"
  shows "\<exists>net' e' q'. xpnet_rx_queue_uninit net e i k = Some (net', e') \<and>
    net' = rx_q_put (net\<lparr>pci_priv := pci_priv net'\<rparr>) i q' \<and> priv_wf (pci_priv net') \<and>
    \<not> tx_dma_read_lock (pci_priv net') \<and> mset (dma_live e') = L \<and> dma_res e' = dma_res e \<and>
    length (xpq_desc_meta q') = 10"
proof -
  let ?p = "pci_priv net"
  obtain p' where p': "xpnet_queue_en_dis ?p q 0 0 XPNET_AFLAG_ACQLOCK = Some p'" "priv_wf p'"
      "\<not> tx_dma_read_lock p'"
    using assms(3-5) xpnet_queue_en_dis_ok [of ?p XPNET_AFLAG_ACQLOCK q 0 0] by auto
  obtain q1 e1 where q1: "rx_uninit_loop q e 0 k = Some (q1, e1)" "rx_base_ok q1" "q_conf q1 = q_conf q"
      "mset (dma_live e1) = add_mset (q_dma q, desc_memlen) L" "dma_res e1 = dma_res e"
    using rx_uninit_loop_ok [of q 0 k e "add_mset (q_dma q, desc_memlen) L"] assms(6-9) by auto
  obtain area where a: "q_va q1 = Some area"
    using q1(2) by (auto simp: rx_base_ok_def)
  obtain e2 where e2: "dma_free_coherent desc_memlen (Some area) (q_dma q) e1 = Some e2"
      "mset (dma_live e2) = L" "dma_res e2 = dma_res e1"
    using dma_free_coherent_ok [of "Some area" e1 "q_dma q" desc_memlen L] q1(4) by auto
  have "xpnet_rx_queue_uninit net e i k = Some (rx_q_put (net\<lparr>pci_priv := p'\<rparr>) i q1, e2)"
    using assms(1,2) p'(1) q1(1) a e2(1) q_conf_fields(4) [OF q1(3)]
    by (simp add: xpnet_rx_queue_uninit_def)
  then show ?thesis
    using p' e2 q1
    by (intro exI [of _ "rx_q_put (net\<lparr>pci_priv := p'\<rparr>) i q1"] exI [of _ e2] exI [of _ q1])
      (auto simp: rx_q_put_def rx_base_ok_def)
qed

text \<open>
  An RX queue the chip can use: the ring is complete, active and empty, the chip owns every
  descriptor, each descriptor names its own 16 KB buffer and its successor, and the descriptor
  pointer register of the queue holds the address of the ring.
\<close>

definition rx_queue_ready :: "xp_private \<Rightarrow> nat \<Rightarrow> xpnet_queue_struct \<Rightarrow> bool" where
  "rx_queue_ready p i q \<longleftrightarrow>
     ring_wf XPNET_MAX_PACKET_SIZE q \<and> xpq_id q = of_nat i \<and> xpq_type q = XPNET_QUEUE_TYPE_RX \<and>
     q_status q = XPNET_QUEUE_ACTIVE \<and> q_head q = 0 \<and> q_tail q = 0 \<and> \<not> xpq_lock q \<and>
     reg64 p DMA0_TX_CDP_REG_E (of_nat i) = q_dma q \<and>
     (\<forall>j<10. rx_entry_ok q j \<and> (\<exists>v. desc_get q j = Some v \<and> hw_owns v \<and>
        qword1 v = of_nat XPNET_MAX_PACKET_SIZE \<and>
        qword2 v = shard_dma (buf_sta (xpq_desc_meta q ! j)) \<and>
        qword3 v = (if j = 9 then 0 else q_dma q + of_nat (32 * (j + 1)))))"

lemma rx_base_ring_wf:
  "rx_base_ok q \<Longrightarrow> (\<And>j. j < 10 \<Longrightarrow> rx_entry_ok q j) \<Longrightarrow> q_tail q < 10 \<Longrightarrow> q_head q < 10 \<Longrightarrow>
   ring_wf XPNET_MAX_PACKET_SIZE q"
  by (auto simp: rx_base_ok_def rx_entry_ok_def ring_wf_def)

lemma rx_queue_ready_base:
  assumes "rx_queue_ready p i q"
  shows "rx_base_ok q" "\<And>j. j < 10 \<Longrightarrow> rx_entry_ok q j" "xpq_id q = of_nat i"
  using assms by (auto simp: rx_queue_ready_def ring_wf_def rx_base_ok_def)

lemma of_nat_lt_64: "i < 64 \<Longrightarrow> (of_nat i :: u32) < 64"
  by (simp add: word_less_nat_alt unat_of_nat)

text \<open>The second half of \<open>xpnet_rx_queue_init\<close>, after all buffers are there.\<close>

lemma rx_init_finish:
  assumes "rx_base_ok q" "\<And>j. j < 10 \<Longrightarrow> rx_entry_ok q j \<and> rx_desc_ok q j" "q_tail q = 0" "q_head q = 0"
    "xpq_id q = of_nat i" "xpq_type q = XPNET_QUEUE_TYPE_RX" "\<not> xpq_lock q" "i < 64"
    "priv_wf p" "\<not> tx_dma_read_lock p"
  shows "\<exists>q' p'. xpnet_rx_queue_link_and_enable q = Some q' \<and>
    xpnet_set_q_cdp p q' 0 XPNET_AFLAG_ACQLOCK = Some p' \<and> rx_queue_ready p' i q' \<and>
    p' = p\<lparr>vma := put_words (vma p) (unat (q_reg_addr (mode p) DMA0_TX_CDP_REG_E (of_nat i)))
            [lo32 (q_dma q), hi32 (q_dma q)]\<rparr> \<and>
    q_dma q' = q_dma q \<and> xpq_desc_meta q' = xpq_desc_meta q"
proof -
  have wf: "ring_wf XPNET_MAX_PACKET_SIZE q"
    using assms(1-4) by (intro rx_base_ring_wf) auto
  obtain q' where q': "xpnet_rx_queue_link_and_enable q = Some q'" "ring_wf XPNET_MAX_PACKET_SIZE q'"
      "q_status q' = XPNET_QUEUE_ACTIVE" "q_head q' = 0" "q_tail q' = 0"
      "xpq_desc_meta q' = xpq_desc_meta q" "q_dma q' = q_dma q" "xpq_id q' = xpq_id q"
      "xpq_type q' = xpq_type q" "xpq_lock q' = xpq_lock q"
    and d: "\<And>j. j < 10 \<Longrightarrow> \<exists>v v'. desc_get q j = Some v \<and> desc_get q' j = Some v' \<and> hw_owns v' \<and>
       qword3 v' = (if j = 9 then 0 else q_dma q + of_nat (32 * (j + 1))) \<and>
       qword2 v' = qword2 v \<and> qword1 v' = qword1 v"
    using xpnet_rx_queue_link_and_enable_ok [OF wf] by blast
  let ?p' = "p\<lparr>vma := put_words (vma p) (unat (q_reg_addr (mode p) DMA0_TX_CDP_REG_E (of_nat i)))
            [lo32 (q_dma q), hi32 (q_dma q)]\<rparr>"
  have cdp: "q_cdp_reg q' = DMA0_TX_CDP_REG_E"
    using q'(9) assms(6) by (simp add: q_cdp_reg_def)
  have "xpnet_set_q_cdp p q' 0 XPNET_AFLAG_ACQLOCK = Some ?p'"
    using xpnet_set_q_cdp_ok [of p XPNET_AFLAG_ACQLOCK q' 0] assms(5,8-10) cdp q' of_nat_lt_64 by simp
  moreover have "rx_entry_ok q' j" if "j < 10" for j
    using assms(2) [OF that] q'(6,7) by (simp add: rx_entry_ok_def)
  moreover have "\<exists>v. desc_get q' j = Some v \<and> hw_owns v \<and> qword1 v = of_nat XPNET_MAX_PACKET_SIZE \<and>
        qword2 v = shard_dma (buf_sta (xpq_desc_meta q' ! j)) \<and>
        qword3 v = (if j = 9 then 0 else q_dma q' + of_nat (32 * (j + 1)))" if "j < 10" for j
    using d [OF that] assms(2) [OF that] q'(6,7) by (auto simp: rx_desc_ok_def)
  moreover have "reg64 ?p' DMA0_TX_CDP_REG_E (of_nat i) = q_dma q"
    by (rule reg64_write_same)
  ultimately have "rx_queue_ready ?p' i q'"
    using q' assms(5-7) by (simp add: rx_queue_ready_def)
  then show ?thesis
    using \<open>xpnet_set_q_cdp p q' 0 XPNET_AFLAG_ACQLOCK = Some ?p'\<close> q' by blast
qed

lemma xpnet_rx_queue_init_cases:
  assumes sh: "length (rx_queue net) = 64" "length (xpq_desc_meta (rx_queue net ! i)) = 10" and i: "i < 64"
    and p: "priv_wf (pci_priv net)" "\<not> tx_dma_read_lock (pci_priv net)"
  obtains (built) q' net' e' where "xpnet_rx_queue_init net e i = Some (0, net', e')"
      "net' = rx_q_put (net\<lparr>pci_priv := pci_priv net'\<rparr>) i q'"
      "pci_priv net' = (pci_priv net)\<lparr>vma := put_words (vma (pci_priv net))
         (unat (q_reg_addr (mode (pci_priv net)) DMA0_TX_CDP_REG_E (of_nat i)))
         [lo32 (q_dma q'), hi32 (q_dma q')]\<rparr>"
      "rx_queue_ready (pci_priv net') i q'"
      "mset (dma_live e') = q_mem XPNET_MAX_PACKET_SIZE q' + mset (dma_live e)"
      "\<forall>j\<le>10. dma_res e (dma_calls e + j) \<noteq> None"
  | (failed) q' net' e' where "xpnet_rx_queue_init net e i = Some (- ENOMEM, net', e')"
      "net' = rx_q_put (net\<lparr>pci_priv := pci_priv net'\<rparr>) i q'" "length (xpq_desc_meta q') = 10"
      "priv_wf (pci_priv net')" "\<not> tx_dma_read_lock (pci_priv net')"
      "mset (dma_live e') = mset (dma_live e)"
      "\<not> (\<forall>j\<le>10. dma_res e (dma_calls e + j) \<noteq> None)"
proof (cases rule: dma_alloc_coherent_cases [of desc_memlen e])
  case (fail e')
  let ?net' = "rx_q_put net i ((rx_queue net ! i)\<lparr>q_va := None\<rparr>)"
  have f: "\<not> (\<forall>j\<le>10. dma_res e (dma_calls e + j) \<noteq> None)"
    using fail(2) by (auto intro: exI [of _ 0])
  have "xpnet_rx_queue_init net e i = Some (- ENOMEM, ?net', e')"
    using fail i sh by (simp add: xpnet_rx_queue_init_def XPNET_RX_NUM_QUEUES_def)
  then show ?thesis
    using fail sh p f by (intro failed [of ?net' e' "(rx_queue net ! i)\<lparr>q_va := None\<rparr>"]) (auto simp: rx_q_put_def)
next
  case (ok va dma e1)
  let ?q0 = "(rx_queue net ! i)\<lparr>q_va := Some zero_area, q_dma := dma, xpq_lock := False, xpq_id := of_nat i,
     xpq_type := XPNET_QUEUE_TYPE_RX, xpq_num_desc := of_nat XPNET_RX_NUM_DESCS,
     q_status := XPNET_QUEUE_STOPPED, q_tail := 0, q_head := 0\<rparr>"
  have b0: "rx_base_ok ?q0"
    using sh by (simp add: rx_base_ok_def XPNET_RX_NUM_DESCS_def)
  obtain rc m q1 e2 where l: "rx_init_loop ?q0 e1 0 10 = Some (rc, m, q1, e2)" "rx_base_ok q1"
      "q_conf q1 = q_conf ?q0" "\<And>j. j < m \<Longrightarrow> rx_entry_ok q1 j \<and> rx_desc_ok q1 j" "m \<le> 10"
      "mset (dma_live e2) = bufs_mem XPNET_MAX_PACKET_SIZE q1 0 m + add_mset (dma, desc_memlen) (mset (dma_live e))"
      "if \<forall>j<10. dma_res e1 (dma_calls e1 + j) \<noteq> None then rc = 0 \<and> m = 10 else rc = - ENOMEM"
    using rx_init_loop_ok [OF b0, of 0 10 e1 "add_mset (dma, desc_memlen) (mset (dma_live e))"] ok(4) by auto
  have all: "(\<forall>j\<le>10. dma_res e (dma_calls e + j) \<noteq> None) \<longleftrightarrow>
      (\<forall>j<10. dma_res e1 (dma_calls e1 + j) \<noteq> None)"
    unfolding less_Suc_eq_le [symmetric] All_less_Suc2 using ok(2,5,6) by simp
  note conf = q_conf_fields [OF l(3)]
  have id: "xpq_id q1 < 64"
    using conf i by (simp add: of_nat_lt_64)
  show ?thesis
  proof (cases "\<forall>j<10. dma_res e1 (dma_calls e1 + j) \<noteq> None")
    case True
    then have rc: "rc = 0" "m = 10"
      using l(7) by simp_all
    have t: "q_tail q1 = 0" "q_head q1 = 0" "xpq_id q1 = of_nat i" "xpq_type q1 = XPNET_QUEUE_TYPE_RX"
        "\<not> xpq_lock q1" "q_dma q1 = dma"
      using conf by simp_all
    obtain q2 p2 where f: "xpnet_rx_queue_link_and_enable q1 = Some q2"
        "xpnet_set_q_cdp (pci_priv net) q2 0 XPNET_AFLAG_ACQLOCK = Some p2" "rx_queue_ready p2 i q2"
        "p2 = (pci_priv net)\<lparr>vma := put_words (vma (pci_priv net))
          (unat (q_reg_addr (mode (pci_priv net)) DMA0_TX_CDP_REG_E (of_nat i))) [lo32 (q_dma q1), hi32 (q_dma q1)]\<rparr>"
        "q_dma q2 = q_dma q1" "xpq_desc_meta q2 = xpq_desc_meta q1"
      using rx_init_finish [OF l(2) _ t(1-5) i p] l(4) rc(2) by blast
    let ?net' = "rx_q_put (net\<lparr>pci_priv := p2\<rparr>) i q2"
    have "bufs_mem XPNET_MAX_PACKET_SIZE q2 0 10 = bufs_mem XPNET_MAX_PACKET_SIZE q1 0 10"
      using f(6) by (intro bufs_mem_cong) simp
    then have mem: "mset (dma_live e2) = q_mem XPNET_MAX_PACKET_SIZE q2 + mset (dma_live e)"
      using l(6) rc(2) f(5) t(6) by (simp add: q_mem_def)
    have "xpnet_rx_queue_init net e i = Some (0, ?net', e2)"
      using ok(1) l(1) rc(1) f(1,2) i sh
      by (simp add: xpnet_rx_queue_init_def XPNET_RX_NUM_QUEUES_def XPNET_RX_NUM_DESCS_def)
    then show ?thesis
      using built [of ?net' e2 q2] f mem all True by (simp add: rx_q_put_def)
  next
    case False
    then have rc: "rc = - ENOMEM"
      using l(7) by argo
    let ?net1 = "rx_q_put net i q1"
    have n1: "i < length (rx_queue ?net1)" "rx_queue ?net1 ! i = q1" "pci_priv ?net1 = pci_priv net"
      using i sh by (simp_all add: rx_q_put_def)
    obtain net' e' q' where u: "xpnet_rx_queue_uninit ?net1 e2 i m = Some (net', e')"
        "net' = rx_q_put (?net1\<lparr>pci_priv := pci_priv net'\<rparr>) i q'" "priv_wf (pci_priv net')"
        "\<not> tx_dma_read_lock (pci_priv net')" "mset (dma_live e') = mset (dma_live e)"
        "length (xpq_desc_meta q') = 10"
      using xpnet_rx_queue_uninit_ok [of i ?net1 q1 m e2 "mset (dma_live e)"] n1 p id l(2,4-6) conf(4)
      by auto
    have "xpnet_rx_queue_init net e i = Some (- ENOMEM, net', e')"
      using ok(1) l(1) rc u(1) i sh
      by (simp add: xpnet_rx_queue_init_def XPNET_RX_NUM_QUEUES_def XPNET_RX_NUM_DESCS_def)
    moreover have "net' = rx_q_put (net\<lparr>pci_priv := pci_priv net'\<rparr>) i q'"
      using u(2) by (simp add: rx_q_put_def)
    ultimately show ?thesis
      using failed u False all by blast
  qed
qed

subsection \<open>Building and clearing all RX queues\<close>

lemma of_nat_64_inj: "i < 64 \<Longrightarrow> j < 64 \<Longrightarrow> (of_nat i :: u32) = of_nat j \<longleftrightarrow> i = j"
  by (auto dest: arg_cong [of _ _ unat] simp: unat_of_nat)

lemma rx_queue_ready_other:
  assumes "rx_queue_ready p j q" "i \<noteq> j" "i < 64" "j < 64"
  shows "rx_queue_ready (p\<lparr>vma := put_words (vma p)
    (unat (q_reg_addr (mode p) DMA0_TX_CDP_REG_E (of_nat i))) [a, b]\<rparr>) j q"
proof -
  have "reg64 (p\<lparr>vma := put_words (vma p)
      (unat (q_reg_addr (mode p) DMA0_TX_CDP_REG_E (of_nat i))) [a, b]\<rparr>) DMA0_TX_CDP_REG_E (of_nat j)
    = reg64 p DMA0_TX_CDP_REG_E (of_nat j)"
    using assms(2-4) by (intro reg64_write_other) (auto simp: is_q_reg_def of_nat_lt_64 of_nat_64_inj)
  then show ?thesis
    using assms(1) by (simp add: rx_queue_ready_def)
qed

definition rx_built :: "xpnet_private \<Rightarrow> nat \<Rightarrow> bool" where
  "rx_built net i \<longleftrightarrow>
     rx_base_ok (rx_queue net ! i) \<and> (\<forall>j<10. rx_entry_ok (rx_queue net ! i) j) \<and>
     xpq_id (rx_queue net ! i) = of_nat i"

definition rx_mem :: "xpnet_private \<Rightarrow> nat \<Rightarrow> (u64 \<times> nat) multiset" where
  "rx_mem net i = q_mem XPNET_MAX_PACKET_SIZE (rx_queue net ! i)"

lemma rx_teardown_loop_ok:
  assumes "length (rx_queue net) = 64" "i + k \<le> 64" "\<And>j. i \<le> j \<Longrightarrow> j < i + k \<Longrightarrow> rx_built net j"
    "priv_wf (pci_priv net)" "\<not> tx_dma_read_lock (pci_priv net)"
    "mset (dma_live e) = (\<Sum>j = i..<i + k. rx_mem net j) + L"
  shows "\<exists>net' e'. rx_teardown_loop net e i k = Some (net', e') \<and> mset (dma_live e') = L \<and>
    priv_wf (pci_priv net') \<and> \<not> tx_dma_read_lock (pci_priv net')"
  using assms
proof (induction k arbitrary: net e i)
  case 0
  then show ?case
    by simp
next
  case (Suc k)
  let ?q = "rx_queue net ! i"
  have i: "i < 64" and b: "rx_base_ok ?q" "\<And>j. j < 10 \<Longrightarrow> rx_entry_ok ?q j" "xpq_id ?q = of_nat i"
    using Suc.prems(2) Suc.prems(3) [of i] by (auto simp: rx_built_def)
  have n: "unat (xpq_num_desc ?q) = 10"
    using b(1) by (simp add: rx_base_ok_def)
  have live: "mset (dma_live e) = add_mset (q_dma ?q, desc_memlen) (bufs_mem XPNET_MAX_PACKET_SIZE ?q 0 10)
      + ((\<Sum>j = Suc i..<Suc i + k. rx_mem net j) + L)"
    using Suc.prems(6) by (simp add: sum.atLeast_Suc_lessThan rx_mem_def q_mem_def add.assoc)
  obtain net1 e1 q1 where u: "xpnet_rx_queue_uninit net e i 10 = Some (net1, e1)"
      "net1 = rx_q_put (net\<lparr>pci_priv := pci_priv net1\<rparr>) i q1" "priv_wf (pci_priv net1)"
      "\<not> tx_dma_read_lock (pci_priv net1)"
      "mset (dma_live e1) = (\<Sum>j = Suc i..<Suc i + k. rx_mem net j) + L"
    using xpnet_rx_queue_uninit_ok [OF _ refl Suc.prems(4,5) _ b(1,2) _ live] i Suc.prems(1)
    by (auto simp: b(3) of_nat_lt_64)
  have r: "rx_queue net1 = (rx_queue net)[i := q1]"
    using u(2) by (metis rx_q_put_def xpnet_private.select_convs(3) xpnet_private.surjective
        xpnet_private.update_convs(2,3))
  have same: "rx_queue net1 ! j = rx_queue net ! j" if "Suc i \<le> j" for j
    using that by (simp add: r)
  have "(\<Sum>j = Suc i..<Suc i + k. rx_mem net1 j) = (\<Sum>j = Suc i..<Suc i + k. rx_mem net j)"
    by (intro sum.cong refl) (simp add: rx_mem_def same)
  moreover have "rx_built net1 j" if "Suc i \<le> j" "j < Suc i + k" for j
    using Suc.prems(3) [of j] that same [of j] by (simp add: rx_built_def)
  moreover have "length (rx_queue net1) = 64"
    using Suc.prems(1) by (simp add: r)
  ultimately have "\<exists>net' e'. rx_teardown_loop net1 e1 (Suc i) k = Some (net', e') \<and> mset (dma_live e') = L \<and>
      priv_wf (pci_priv net') \<and> \<not> tx_dma_read_lock (pci_priv net')"
    using Suc.prems(2) u(3-5) by (intro Suc.IH) auto
  moreover have "rx_teardown_loop net e i (Suc k) = rx_teardown_loop net1 e1 (Suc i) k"
    using u(1) n i Suc.prems(1) by simp
  ultimately show ?case
    by simp
qed

lemma rx_setup_loop_ok:
  assumes "length (rx_queue net) = 64" "\<And>j. j < 64 \<Longrightarrow> length (xpq_desc_meta (rx_queue net ! j)) = 10"
    "priv_wf (pci_priv net)" "\<not> tx_dma_read_lock (pci_priv net)" "i + k = 64"
    "\<And>j. j < i \<Longrightarrow> rx_queue_ready (pci_priv net) j (rx_queue net ! j)"
    "mset (dma_live e) = (\<Sum>j = 0..<i. rx_mem net j) + L"
  shows "\<exists>rc net' e'. rx_setup_loop net e i k = Some (rc, net', e') \<and>
    priv_wf (pci_priv net') \<and> \<not> tx_dma_read_lock (pci_priv net') \<and>
    (rc = 0 \<and> (\<forall>j<64. rx_queue_ready (pci_priv net') j (rx_queue net' ! j)) \<and>
       length (rx_queue net') = 64 \<and> mset (dma_live e') = (\<Sum>j = 0..<64. rx_mem net' j) + L \<or>
     rc = - ENOMEM \<and> mset (dma_live e') = L)"
  using assms
proof (induction k arbitrary: net e i)
  case 0
  then show ?case
    by auto
next
  case (Suc k)
  have i: "i < 64"
    using Suc.prems(5) by simp
  from Suc.prems(1) Suc.prems(2) [OF i] i Suc.prems(3,4) show ?case
  proof (cases rule: xpnet_rx_queue_init_cases [where e = e])
    case (built q1 net1 e1)
    have r: "rx_queue net1 = (rx_queue net)[i := q1]"
      using built(2) by (metis rx_q_put_def xpnet_private.select_convs(3) xpnet_private.surjective
          xpnet_private.update_convs(2,3))
    have ready: "rx_queue_ready (pci_priv net1) j (rx_queue net1 ! j)" if "j < Suc i" for j
    proof (cases "j = i")
      case False
      then show ?thesis
        using that i Suc.prems(6) [of j] rx_queue_ready_other [of "pci_priv net" j _ i]
        unfolding r built(3) by simp
    qed (use built(4) i Suc.prems(1) in \<open>simp add: r\<close>)
    have "(\<Sum>j = 0..<i. rx_mem net1 j) = (\<Sum>j = 0..<i. rx_mem net j)"
      by (intro sum.cong refl) (simp add: rx_mem_def r)
    then have live: "mset (dma_live e1) = (\<Sum>j = 0..<Suc i. rx_mem net1 j) + L"
      using built(5) Suc.prems(7) i Suc.prems(1) by (simp add: rx_mem_def r ac_simps)
    have m: "length (xpq_desc_meta (rx_queue net1 ! j)) = 10" if "j < 64" for j
      using that built(4) Suc.prems(1,2) i rx_queue_ready_base(1) [OF built(4)]
      by (cases "j = i") (auto simp: r rx_base_ok_def)
    show ?thesis
      using Suc.IH [OF _ m _ _ _ ready live] built(1,3) Suc.prems(1,3-5) by (simp add: r)
  next
    case (failed q1 net1 e1)
    have r: "rx_queue net1 = (rx_queue net)[i := q1]"
      using failed(2) by (metis rx_q_put_def xpnet_private.select_convs(3) xpnet_private.surjective
          xpnet_private.update_convs(2,3))
    have "rx_built net1 j" if "j < i" for j
      using rx_queue_ready_base [OF Suc.prems(6) [OF that]] that by (simp add: rx_built_def r)
    moreover have "(\<Sum>j = 0..<i. rx_mem net1 j) = (\<Sum>j = 0..<i. rx_mem net j)"
      by (intro sum.cong refl) (simp add: rx_mem_def r)
    ultimately obtain net2 e2 where "xpnet_rx_teardown net1 e1 i = Some (net2, e2)" "mset (dma_live e2) = L"
        "priv_wf (pci_priv net2)" "\<not> tx_dma_read_lock (pci_priv net2)"
      using rx_teardown_loop_ok [of net1 0 i e1 L] failed Suc.prems(1,7) i
      by (auto simp: xpnet_rx_teardown_def r)
    then show ?thesis
      using failed(1) by simp
  qed
qed

subsection \<open>Building one TX queue\<close>

text \<open>Entry \<open>j\<close> of a TX queue after its allocation returned \<open>res\<close>.\<close>

definition tx_entry :: "u64 option \<Rightarrow> xpnet_queue_struct \<Rightarrow> nat \<Rightarrow> bool" where
  "tx_entry res q j \<longleftrightarrow>
     (let d = xpq_desc_meta q ! j in
      desc_va d = Some j \<and> cdp d = q_dma q + of_nat (32 * j) \<and> shard_len (buf_sta d) = 0 \<and>
      (case res of
         None \<Rightarrow> shard_va (buf_sta d) = None
       | Some a \<Rightarrow> shard_dma (buf_sta d) = a \<and> (\<exists>b. shard_va (buf_sta d) = Some b \<and> length b = PAGE_SIZE)))"

definition tx_queue_ready :: "xp_private \<Rightarrow> nat \<Rightarrow> xpnet_queue_struct \<Rightarrow> bool" where
  "tx_queue_ready p i q \<longleftrightarrow>
     ring_wf PAGE_SIZE q \<and> xpq_id q = of_nat i \<and> xpq_type q = XPNET_QUEUE_TYPE_TX \<and>
     q_status q = XPNET_QUEUE_ACTIVE \<and> q_head q = 9 \<and> q_tail q = 0 \<and> \<not> xpq_lock q \<and>
     reg64 p DMA0_RX_CDP_REG_E (of_nat i) = q_dma q \<and>
     (\<forall>j<10. \<exists>v. desc_get q j = Some v \<and> \<not> hw_owns v \<and> \<not> desc_error v)"

lemma tx_init_loop_ok:
  assumes "length (xpq_desc_meta q) = 10" "n + k \<le> 10"
  shows "\<exists>q' e'. tx_init_loop q e n k = Some (0, n + k, q', e') \<and> length (xpq_desc_meta q') = 10 \<and>
    q_va q' = q_va q \<and> q_conf q' = q_conf q \<and>
    (\<forall>j. n \<le> j \<and> j < n + k \<longrightarrow> tx_entry (dma_res e (dma_calls e + (j - n))) q' j) \<and>
    (\<forall>j<n. xpq_desc_meta q' ! j = xpq_desc_meta q ! j)"
  using assms
proof (induction k arbitrary: q e n)
  case 0
  then show ?case
    by auto
next
  case (Suc k)
  let ?d0 = "(xpq_desc_meta q ! n)\<lparr>num_shards := 0, desc_va := Some n, cdp := q_dma q + of_nat (32 * n)\<rparr>"
  obtain b e1 where s: "tx_init_loop q e n (Suc k) =
        tx_init_loop (q\<lparr>xpq_desc_meta := (xpq_desc_meta q)[n := ?d0\<lparr>buf_sta := b\<rparr>]\<rparr>) e1 (Suc n) k"
      "shard_len b = 0" "dma_res e1 = dma_res e" "dma_calls e1 = Suc (dma_calls e)"
      "case dma_res e (dma_calls e) of None \<Rightarrow> shard_va b = None
       | Some a \<Rightarrow> shard_dma b = a \<and> (\<exists>by. shard_va b = Some by \<and> length by = PAGE_SIZE)"
  proof (cases rule: dma_alloc_coherent_cases [of PAGE_SIZE e])
    case (fail e')
    then show ?thesis
      using Suc.prems
      by (intro that [of "(buf_sta ?d0)\<lparr>shard_va := None, shard_len := 0\<rparr>" e'])
        (auto simp: xpnet_tx_desc_init_def meta_get_def meta_set_def XPNET_DESC_SIZE_def)
  next
    case (ok va dma e')
    then show ?thesis
      using Suc.prems
      by (intro that [of "(buf_sta ?d0)\<lparr>shard_va := Some va, shard_dma := dma, shard_len := 0\<rparr>" e'])
        (auto simp: xpnet_tx_desc_init_def meta_get_def meta_set_def XPNET_DESC_SIZE_def)
  qed
  let ?q1 = "q\<lparr>xpq_desc_meta := (xpq_desc_meta q)[n := ?d0\<lparr>buf_sta := b\<rparr>]\<rparr>"
  obtain q' e' where q': "tx_init_loop ?q1 e1 (Suc n) k = Some (0, Suc n + k, q', e')"
      "length (xpq_desc_meta q') = 10" "q_va q' = q_va q" "q_conf q' = q_conf ?q1"
    and new: "\<And>j. Suc n \<le> j \<Longrightarrow> j < Suc n + k \<Longrightarrow> tx_entry (dma_res e1 (dma_calls e1 + (j - Suc n))) q' j"
    and old: "\<And>j. j < Suc n \<Longrightarrow> xpq_desc_meta q' ! j = xpq_desc_meta ?q1 ! j"
    using Suc.IH [of ?q1 "Suc n" e1] Suc.prems by auto
  have "tx_entry (dma_res e (dma_calls e)) q' n"
    using old [of n] s(2,5) Suc.prems q_conf_fields(4) [OF q'(4)]
    by (simp add: tx_entry_def Let_def split: option.splits)
  moreover have "tx_entry (dma_res e (dma_calls e + (j - n))) q' j" if "n < j" "j < n + Suc k" for j
    using new [of j] that s(3,4) by (simp add: Suc_diff_Suc flip: add_Suc_right)
  ultimately have "tx_entry (dma_res e (dma_calls e + (j - n))) q' j" if "n \<le> j" "j < n + Suc k" for j
    using that by (cases "j = n") auto
  moreover have "q_conf ?q1 = q_conf q"
    by (simp add: q_conf_def)
  ultimately show ?case
    using s(1) q' old by auto
qed

text \<open>What the loop allocates, when every allocation succeeds.\<close>

lemma tx_init_loop_mem:
  assumes "length (xpq_desc_meta q) = 10" "n + k \<le> 10" "\<And>c. dma_res e c \<noteq> None"
    "tx_init_loop q e n k = Some (rc, m, q', e')"
  shows "mset (dma_live e') = bufs_mem PAGE_SIZE q' n k + mset (dma_live e) \<and> dma_res e' = dma_res e"
  using assms
proof (induction k arbitrary: q e n)
  case (Suc k)
  obtain va dma e1 where al: "dma_alloc_coherent PAGE_SIZE e = (Some (va, dma), e1)" "dma_res e1 = dma_res e"
      "dma_live e1 = (dma, PAGE_SIZE) # dma_live e"
    by (cases rule: dma_alloc_coherent_cases [of PAGE_SIZE e]) (use Suc.prems(3) in auto)
  let ?d = "(xpq_desc_meta q ! n)\<lparr>num_shards := 0, desc_va := Some n, cdp := q_dma q + of_nat (32 * n),
      buf_sta := (buf_sta (xpq_desc_meta q ! n))\<lparr>shard_va := Some va, shard_dma := dma, shard_len := 0\<rparr>\<rparr>"
  let ?q1 = "q\<lparr>xpq_desc_meta := (xpq_desc_meta q)[n := ?d]\<rparr>"
  have "xpnet_tx_desc_init q e n = Some (0, ?q1, e1)"
    using Suc.prems(1,2) al(1) by (simp add: xpnet_tx_desc_init_def meta_get_def meta_set_def XPNET_DESC_SIZE_def)
  then have step: "tx_init_loop ?q1 e1 (Suc n) k = Some (rc, m, q', e')"
    using Suc.prems(4) by simp
  have "mset (dma_live e') = bufs_mem PAGE_SIZE q' (Suc n) k + mset (dma_live e1) \<and> dma_res e' = dma_res e1"
    using Suc.prems(1-3) al(2) by (intro Suc.IH [OF _ _ _ step]) auto
  moreover have "xpq_desc_meta q' ! n = ?d"
    using tx_init_loop_ok [of ?q1 "Suc n" k e1] step Suc.prems(1,2) by auto
  ultimately show ?case
    using al(2,3) by (simp add: buf_mem_def)
qed simp

text \<open>
  The result of \<open>xpnet_tx_queue_init\<close> when the descriptor area is there: it returns 0 whatever
  the buffer allocations did, and the queue can be used only if all of them succeeded.
\<close>

lemma tx_entry_meta_ok: "tx_entry (Some a) q j \<Longrightarrow> meta_ok PAGE_SIZE (q_dma q) j (xpq_desc_meta q ! j)"
  by (auto simp: tx_entry_def meta_ok_def Let_def)

lemma tx_link_ok:
  assumes "ring_wf PAGE_SIZE q" "\<And>j. j < 10 \<Longrightarrow> desc_get q j = Some zero_desc"
  shows "\<exists>q'. (if hw_flags net AND XPNET_HWFLAG_A0 = 0 then xpnet_queue_desc_link q False else Some q) = Some q' \<and>
    ring_wf PAGE_SIZE q' \<and> q'\<lparr>q_va := None\<rparr> = q\<lparr>q_va := None\<rparr> \<and>
    (\<forall>j<10. \<exists>v. desc_get q' j = Some v \<and> qword0 v = 0)"
  using assms xpnet_queue_desc_link_ok [OF assms(1), of False] by (fastforce simp: zero_desc_def)

lemma xpnet_tx_queue_init_ready:
  assumes sh: "length (tx_queue net) = 64" "length (xpq_desc_meta (tx_queue net ! i)) = 10"
    and i: "i < unat (num_txqueues net)" "num_txqueues net \<le> 64"
    and p: "priv_wf (pci_priv net)" "\<not> tx_dma_read_lock (pci_priv net)"
    and all: "\<And>j. j \<le> 10 \<Longrightarrow> dma_res e (dma_calls e + j) \<noteq> None"
  shows "\<exists>net' e' q'. xpnet_tx_queue_init net e i = Some (0, net', e') \<and>
    net' = tx_q_put (net\<lparr>pci_priv := pci_priv net'\<rparr>) i q' \<and> tx_queue_ready (pci_priv net') i q' \<and>
    pci_priv net' = (pci_priv net)\<lparr>vma := vma (pci_priv net')\<rparr> \<and>
    ((\<forall>c. dma_res e c \<noteq> None) \<longrightarrow>
       mset (dma_live e') = q_mem PAGE_SIZE q' + mset (dma_live e) \<and> dma_res e' = dma_res e)"
proof -
  have i64: "i < 64"
    using i by (simp add: word_le_nat_alt)
  obtain a where a: "dma_res e (dma_calls e) = Some a"
    using all [of 0] by auto
  obtain va e1 where al: "dma_alloc_coherent desc_memlen e = (Some (va, a), e1)"
      "dma_res e1 = dma_res e" "dma_calls e1 = Suc (dma_calls e)" "dma_live e1 = (a, desc_memlen) # dma_live e"
    by (cases rule: dma_alloc_coherent_cases [of desc_memlen e]) (use a in auto)
  let ?q0 = "(tx_queue net ! i)\<lparr>xpq_lock := False, xpq_id := of_nat i, xpq_type := XPNET_QUEUE_TYPE_TX,
     xpq_num_desc := of_nat XPNET_TX_NUM_DESCS, q_tail := 0, q_head := of_nat XPNET_TX_NUM_DESCS - 1,
     q_va := Some zero_area, q_dma := a\<rparr>"
  obtain q1 e2 where l: "tx_init_loop ?q0 e1 0 10 = Some (0, 10, q1, e2)" "length (xpq_desc_meta q1) = 10"
      "q_va q1 = Some zero_area" "q_conf q1 = q_conf ?q0"
    and ent: "\<And>j. j < 10 \<Longrightarrow> tx_entry (dma_res e1 (dma_calls e1 + j)) q1 j"
    using tx_init_loop_ok [of ?q0 0 10 e1] sh by auto
  note conf = q_conf_fields [OF l(4)]
  have meta: "meta_ok PAGE_SIZE (q_dma q1) j (xpq_desc_meta q1 ! j)" if "j < 10" for j
    using ent [OF that] all [of "Suc j"] that al(2,3) by (auto intro: tx_entry_meta_ok)
  have wf: "ring_wf PAGE_SIZE q1"
    using meta l(2,3) conf by (auto simp: ring_wf_def XPNET_TX_NUM_DESCS_def)
  have zero: "desc_get q1 j = Some zero_desc" if "j < 10" for j
    using meta [OF that] that l(2,3) by (simp add: desc_get_def meta_get_def meta_ok_def zero_area_def XPNET_DESC_SIZE_def)
  obtain q2 where q2: "(if hw_flags net AND XPNET_HWFLAG_A0 = 0 then xpnet_queue_desc_link q1 False else Some q1) = Some q2"
      "ring_wf PAGE_SIZE q2" "q2\<lparr>q_va := None\<rparr> = q1\<lparr>q_va := None\<rparr>"
      "\<forall>j<10. \<exists>v. desc_get q2 j = Some v \<and> qword0 v = 0"
    using tx_link_ok [OF wf zero] by blast
  note f2 = frame_fields [OF q2(3)]
  let ?p' = "(pci_priv net)\<lparr>vma := put_words (vma (pci_priv net))
      (unat (q_reg_addr (mode (pci_priv net)) DMA0_RX_CDP_REG_E (of_nat i))) [lo32 a, hi32 a]\<rparr>"
  have p': "xpnet_set_q_cdp (pci_priv net) q2 0 XPNET_AFLAG_ACQLOCK = Some ?p'"
    using xpnet_set_q_cdp_ok [of "pci_priv net" XPNET_AFLAG_ACQLOCK q2 0] p i64 f2 conf of_nat_lt_64
    by (simp add: q_cdp_reg_def)
  let ?q3 = "q2\<lparr>q_status := XPNET_QUEUE_ACTIVE\<rparr>"
  have "reg64 ?p' DMA0_RX_CDP_REG_E (of_nat i) = a"
    by (rule reg64_write_same)
  moreover have "ring_wf PAGE_SIZE ?q3"
    using q2(2) by (simp add: ring_wf_def)
  moreover have "desc_get ?q3 j = desc_get q2 j" for j
    by (simp add: desc_get_def meta_get_def)
  moreover have "\<exists>v. desc_get q2 j = Some v \<and> \<not> hw_owns v \<and> \<not> desc_error v" if "j < 10" for j
    using q2(4) that by (auto simp: hw_owns_bit desc_error_bit)
  ultimately have "tx_queue_ready ?p' i ?q3"
    using f2 conf by (simp add: tx_queue_ready_def XPNET_TX_NUM_DESCS_def)
  moreover have "xpnet_tx_queue_init net e i = Some (0, tx_q_put (net\<lparr>pci_priv := ?p'\<rparr>) i ?q3, e2)"
    using i sh i64 al(1) l(1) q2(1) p'
    by (simp add: xpnet_tx_queue_init_def XPNET_TX_NUM_DESCS_def)
  moreover have "mset (dma_live e2) = q_mem PAGE_SIZE ?q3 + mset (dma_live e) \<and> dma_res e2 = dma_res e"
    if "\<forall>c. dma_res e c \<noteq> None"
  proof -
    have "mset (dma_live e2) = bufs_mem PAGE_SIZE q1 0 10 + mset (dma_live e1) \<and> dma_res e2 = dma_res e1"
      using tx_init_loop_mem [OF _ _ _ l(1)] sh(2) that al(2) by simp
    moreover have "bufs_mem PAGE_SIZE ?q3 0 10 = bufs_mem PAGE_SIZE q1 0 10"
      using arg_cong [OF q2(3), of xpq_desc_meta] by (intro bufs_mem_cong) simp
    ultimately show ?thesis
      using al(2,4) f2 conf by (simp add: q_mem_def)
  qed
  ultimately show ?thesis
    by (intro exI [of _ "tx_q_put (net\<lparr>pci_priv := ?p'\<rparr>) i ?q3"] exI [of _ e2] exI [of _ ?q3])
      (simp add: tx_q_put_def)
qed

end
