(* ===== verification/Skb.thy ===== *)
theory Skb
  imports Net_Priv
begin

text \<open>
  Packets: the fields of the kernel's \<open>sk_buff\<close> that the driver uses, and the byte swap of
  packet data for A0 chips (\<open>__xpnet_endian_swap32\<close> of \<open>xp_netdev_core.c\<close>). The lemmas show
  that the swap loop ends and reverses each of the words it visits, and nothing else, as long
  as these lie in the buffer, and that swapping twice restores the buffer.
\<close>

text \<open>
  \<open>skb_data\<close> is the linear part from \<open>skb->data\<close> to \<open>skb->end\<close>; \<open>skb_len\<close> and \<open>skb_data_len\<close>
  are the counters the kernel keeps for the whole packet and for its fragments.
\<close>

record sk_buff =
  skb_data :: "u8 list"
  skb_len :: u32
  skb_data_len :: u32

datatype netdev_tx_t = NETDEV_TX_OK | NETDEV_TX_BUSY

text \<open>\<open>base[chr_num] = __builtin_bswap32(base[chr_num])\<close> on a byte buffer.\<close>

definition bswap_at :: "u8 list \<Rightarrow> nat \<Rightarrow> u8 list option" where
  "bswap_at base k =
     do { bs \<leftarrow> buf_read base (4 * k) 4;
          let w = bswap32 (le32 (bs ! 0) (bs ! 1) (bs ! 2) (bs ! 3)) AND 0xFFFFFFFF
          in buf_write base (4 * k) [byte_of32 0 w, byte_of32 1 w, byte_of32 2 w, byte_of32 3 w] }"

text \<open>
  The loop of \<open>__xpnet_endian_swap32\<close>. Its counter has 16 bits and its bound 32, so it does
  not end for every bound; \<open>None\<close> also stands for that.
\<close>

partial_function (option) endian_swap_loop :: "u8 list \<Rightarrow> u16 \<Rightarrow> u32 \<Rightarrow> u8 list option" where
  "endian_swap_loop base chr_num bound =
     (if ucast chr_num \<le> bound
      then do { base' \<leftarrow> bswap_at base (unat chr_num); endian_swap_loop base' (chr_num + 1) bound }
      else Some base)"

definition xpnet_endian_swap32 :: "u8 list \<Rightarrow> u32 \<Rightarrow> xp_address_mode \<Rightarrow> u8 list option" where
  "xpnet_endian_swap32 base buf_size m =
     (if m = XP_A0_UNCOMPRESSED then endian_swap_loop base 0 ((buf_size - 1) div 4) else Some base)"

text \<open>The reference: the first \<open>n\<close> groups of four bytes reversed.\<close>

fun swap_words :: "nat \<Rightarrow> u8 list \<Rightarrow> u8 list" where
  "swap_words (Suc n) (a # b # c # d # bs) = d # c # b # a # swap_words n bs"
| "swap_words _ bs = bs"

text \<open>Words that hold \<open>len\<close> bytes, and a buffer as a chip of mode \<open>m\<close> reads it.\<close>

definition len_words :: "nat \<Rightarrow> nat" where
  "len_words n = (n + 3) div 4"

definition chip_view :: "xp_address_mode \<Rightarrow> nat \<Rightarrow> u8 list \<Rightarrow> u8 list" where
  "chip_view m n bs = (if m = XP_A0_UNCOMPRESSED then swap_words (len_words n) bs else bs)"

lemma swap_words_0 [simp]: "swap_words 0 bs = bs"
  by (cases bs) simp_all

lemma length_swap_words [simp]: "length (swap_words n bs) = length bs"
  by (induction n bs rule: swap_words.induct) simp_all

lemma swap_words_involution [simp]: "swap_words n (swap_words n bs) = bs"
  by (induction n bs rule: swap_words.induct) simp_all

lemma drop_swap_words: "drop (4 * n) (swap_words n bs) = drop (4 * n) bs"
proof (induction n bs rule: swap_words.induct)
  case (1 n a b c d bs)
  then show ?case
    by (simp add: numeral_eq_Suc)
qed (auto simp: drop_eq_Nil)

lemma swap_words_append:
  "length bs = 4 * n \<Longrightarrow> swap_words (n + k) (bs @ rest) = swap_words n bs @ swap_words k rest"
proof (induction n arbitrary: bs)
  case (Suc n)
  then obtain a b c d bs' where "bs = a # b # c # d # bs'" "length bs' = 4 * n"
    by (auto simp: numeral_eq_Suc length_Suc_conv)
  then show ?case
    using Suc.IH by simp
qed simp

lemma bswap_at_eq:
  assumes "4 * k + 4 \<le> length base"
  shows "bswap_at base k = Some (take (4 * k) base @ swap_words 1 (drop (4 * k) base))"
proof -
  obtain a b c d r where r: "drop (4 * k) base = a # b # c # d # r"
    using assms length_ge_4_conv [of "drop (4 * k) base"] by auto
  have "drop 4 (drop (4 * k) base) = r"
    by (simp add: r)
  then have "drop (Suc (Suc (Suc (Suc (4 * k))))) base = r"
    by (simp add: numeral_eq_Suc)
  moreover have "w AND 0xFFFFFFFF = w" for w :: u32
  proof -
    have "0xFFFFFFFF = (- 1 :: u32)"
      by simp
    then show ?thesis
      by (simp only: and.right_neutral)
  qed
  ultimately show ?thesis
    using assms r by (simp add: bswap_at_def)
qed

lemma unat_u16_Suc: "unat (c :: u16) < 65535 \<Longrightarrow> unat (c + 1) = unat c + 1"
  by (simp add: unat_word_ariths)

lemma ucast_u16_le: "ucast (c :: u16) \<le> (b :: u32) \<longleftrightarrow> unat c \<le> unat b"
proof -
  have "unat (ucast c :: u32) = unat c"
    using unsigned_less [of c, where 'a = nat]
    by (simp add: unsigned_ucast_eq take_bit_nat_eq_self)
  then show ?thesis
    by (simp add: word_le_nat_alt)
qed

lemma endian_swap_loop_ok:
  assumes "4 * (unat bound + 1) \<le> length base" "unat bound < 65535" "unat c \<le> unat bound + 1"
  shows "endian_swap_loop base c bound =
    Some (take (4 * unat c) base @ swap_words (unat bound + 1 - unat c) (drop (4 * unat c) base))"
  using assms
proof (induction "unat bound + 1 - unat c" arbitrary: base c)
  case 0
  then have "\<not> ucast c \<le> bound"
    by (simp add: ucast_u16_le)
  then show ?case
    using 0 by (simp add: endian_swap_loop.simps [of base])
next
  case (Suc k)
  have le: "ucast c \<le> bound" and c: "unat c \<le> unat bound" and k: "k = unat bound - unat c"
    using Suc.hyps(2) by (simp_all add: ucast_u16_le)
  have c1: "unat (c + 1) = unat c + 1"
    using c Suc.prems(2) by (intro unat_u16_Suc) simp
  obtain a b x d r where r: "drop (4 * unat c) base = a # b # x # d # r"
    using c Suc.prems(1) length_ge_4_conv [of "drop (4 * unat c) base"] by auto
  let ?base' = "take (4 * unat c) base @ [d, x, b, a] @ r"
  have l: "length (take (4 * unat c) base) = 4 * unat c" "length base = 4 * unat c + 4 + length r"
    using arg_cong [OF r, of length] c Suc.prems(1) by auto
  have "bswap_at base (unat c) = Some ?base'"
    using bswap_at_eq [of "unat c" base] c Suc.prems(1) r by simp
  moreover have "endian_swap_loop ?base' (c + 1) bound =
      Some (take (4 * unat (c + 1)) ?base' @ swap_words (unat bound + 1 - unat (c + 1)) (drop (4 * unat (c + 1)) ?base'))"
    using Suc.hyps(2) Suc.prems c c1 l by (intro Suc.hyps(1)) auto
  moreover have "take (4 * (unat c + 1)) ?base' = take (4 * unat c) base @ [d, x, b, a]"
      "drop (4 * (unat c + 1)) ?base' = r"
    using l by (simp_all add: add.commute)
  moreover have "unat bound + 1 - unat c = Suc (unat bound - unat c)"
    using c by simp
  ultimately show ?case
    using le r c by (simp add: endian_swap_loop.simps [of base] c1)
qed

text \<open>A bound past the end of the buffer: the loop leaves the buffer.\<close>

lemma endian_swap_loop_leaves:
  assumes "length base < 4 * (unat bound + 1)" "length base \<le> 4 * 65535" "4 * unat c \<le> length base"
  shows "endian_swap_loop base c bound = None"
  using assms
proof (induction "length base - 4 * unat c" arbitrary: base c rule: less_induct)
  case less
  have le: "ucast c \<le> bound"
    using less.prems by (simp add: ucast_u16_le)
  show ?case
  proof (cases "4 * unat c + 4 \<le> length base")
    case False
    then show ?thesis
      using le by (simp add: endian_swap_loop.simps [of base] bswap_at_def buf_read_def)
  next
    case True
    have c1: "unat (c + 1) = unat c + 1"
      using True less.prems(2) by (intro unat_u16_Suc) simp
    let ?base' = "take (4 * unat c) base @ swap_words 1 (drop (4 * unat c) base)"
    have l: "length ?base' = length base"
      using True by simp
    have "endian_swap_loop ?base' (c + 1) bound = None"
      using less.prems True by (intro less.hyps) (simp_all only: l c1, simp_all)
    then show ?thesis
      using le True by (simp add: endian_swap_loop.simps [of base] bswap_at_eq)
  qed
qed

lemma swap_bound:
  assumes "0 < (n :: u32)"
  shows "unat ((n - 1) div 4) + 1 = len_words (unat n)"
proof -
  have "unat (n - 1) = unat n - 1" "0 < unat n"
    using assms unat_sub [of 1 n] by (simp_all add: word_le_nat_alt unat_gt_0 Suc_leI)
  then have "unat ((n - 1) div 4) = (unat n - 1) div 4"
    by (simp add: unat_div_distrib)
  moreover have "(unat n - 1) div 4 + 1 = (unat n + 3) div 4"
    using \<open>0 < unat n\<close> by presburger
  ultimately show ?thesis
    by (simp add: len_words_def)
qed

lemma xpnet_endian_swap32_ok:
  assumes "0 < n" "4 * len_words (unat n) \<le> length base" "len_words (unat n) \<le> 65535"
  shows "xpnet_endian_swap32 base n m = Some (chip_view m (unat n) base)"
  using endian_swap_loop_ok [of "(n - 1) div 4" base 0] swap_bound [OF assms(1)] assms(2,3)
  by (simp add: xpnet_endian_swap32_def chip_view_def)

lemma xpnet_endian_swap32_zero:
  assumes "length base \<le> 4 * 65535"
  shows "xpnet_endian_swap32 base 0 XP_A0_UNCOMPRESSED = None"
proof -
  have "unat ((0 - 1 :: u32) div 4) = 1073741823"
    by simp
  then show ?thesis
    using assms unfolding xpnet_endian_swap32_def
    by (simp only: simp_thms if_True) (rule endian_swap_loop_leaves, simp_all)
qed

lemma length_chip_view [simp]: "length (chip_view m n bs) = length bs"
  by (simp add: chip_view_def)

lemma chip_view_involution [simp]: "chip_view m n (chip_view m n bs) = bs"
  by (simp add: chip_view_def)

end
