(* ===== verification/Samples.thy ===== *)
theory Samples
  imports Queue_Init Skb
begin

text \<open>
  Concrete configurations of the driver, at which the properties with hypotheses are applied:
  an A0 device with BAR 0 mapped and zeroed, rings of ten idle descriptors whose buffers have a
  given size, and the private structure with 64 such rings in each direction.
\<close>

definition sample_priv :: "xp_address_mode \<Rightarrow> xp_private" where
  "sample_priv m =
     \<lparr>mode = m, vma = (\<lambda>_. 0), mmio_len = 256 * 1024 * 1024, tx_dma_read_lock = False,
      cdev_minor = 0, app_pid = 0, w_queue = Some []\<rparr>"

definition sample_meta :: "nat \<Rightarrow> nat \<Rightarrow> xpnet_desc_struct" where
  "sample_meta b i =
     \<lparr>num_shards = 0, desc_va = Some i, cdp = of_nat (32 * i),
      buf_sta = \<lparr>shard_va = Some (replicate b 0), shard_dma = of_nat (0x10000 * (i + 1)), shard_len = of_nat b\<rparr>\<rparr>"

definition sample_ring :: "xpnet_enum \<Rightarrow> nat \<Rightarrow> u32 \<Rightarrow> u32 \<Rightarrow> xpnet_descriptor list \<Rightarrow> xpnet_queue_struct" where
  "sample_ring ty b h t ds =
     \<lparr>xpq_lock = False, xpq_id = 0, xpq_type = ty, xpq_num_desc = 10, q_status = XPNET_QUEUE_ACTIVE,
      q_tail = t, q_head = h, q_va = Some ds, q_dma = 0, xpq_desc_meta = map (sample_meta b) [0..<10]\<rparr>"

definition tx_idle :: xpnet_queue_struct where
  "tx_idle = sample_ring XPNET_QUEUE_TYPE_TX 4096 9 0 (replicate 10 zero_desc)"

definition rx_idle :: xpnet_queue_struct where
  "rx_idle = sample_ring XPNET_QUEUE_TYPE_RX 16384 0 0 (replicate 10 zero_desc)"

text \<open>A ring whose second descriptor is still owned by the chip.\<close>

definition tx_second_owned :: xpnet_queue_struct where
  "tx_second_owned = sample_ring XPNET_QUEUE_TYPE_TX 4096 9 0 (zero_desc # zero_desc\<lparr>qword0 := own_bit\<rparr> # replicate 8 zero_desc)"

definition sample_stats :: net_device_stats where
  "sample_stats =
     \<lparr>rx_packets = 0, rx_bytes = 0, rx_dropped = 0, rx_length_errors = 0, tx_packets = 0,
      tx_bytes = 0, tx_errors = 0, tx_dropped = 0, tx_aborted_errors = 0\<rparr>"

definition sample_net :: "xp_address_mode \<Rightarrow> xpnet_queue_struct \<Rightarrow> xpnet_queue_struct \<Rightarrow> xpnet_private" where
  "sample_net m rx tx =
     \<lparr>hw_flags = XPNET_HWFLAG_A0, pci_priv = sample_priv m, rx_queue = replicate 64 rx, tx_queue = replicate 64 tx,
      num_rxqueues = 64, num_txqueues = 64, txqno = 0, rxqno = 0, priv_lock = False, dma_trigger = True,
      stats = sample_stats, jiffies_defer = 5\<rparr>"

text \<open>An allocator that never fails, and one that fails from the \<open>k\<close>-th call on.\<close>

definition sample_dma :: "nat \<Rightarrow> dma_env" where
  "sample_dma k =
     \<lparr>dma_res = (\<lambda>i. if i < k then Some (of_nat (0x10000 * (i + 1))) else None), dma_fill = (\<lambda>_ _. 0),
      dma_calls = 0, dma_live = []\<rparr>"

definition sample_skb :: "nat \<Rightarrow> sk_buff" where
  "sample_skb n = \<lparr>skb_data = map of_nat [0..<n], skb_len = of_nat n, skb_data_len = 0\<rparr>"

lemma priv_wf_sample [simp]: "priv_wf (sample_priv m)"
  by (simp add: priv_wf_def sample_priv_def bar0_size_def)

lemma sample_priv_fields [simp]:
  "\<not> tx_dma_read_lock (sample_priv m)" "mode (sample_priv m) = m" "vma (sample_priv m) = (\<lambda>_. 0)"
  by (simp_all add: sample_priv_def)

lemma sample_net_fields [simp]:
  "pci_priv (sample_net m rx tx) = sample_priv m" "tx_queue (sample_net m rx tx) = replicate 64 tx"
  "rx_queue (sample_net m rx tx) = replicate 64 rx" "txqno (sample_net m rx tx) = 0" "\<not> priv_lock (sample_net m rx tx)"
  "hw_flags (sample_net m rx tx) = XPNET_HWFLAG_A0" "num_txqueues (sample_net m rx tx) = 64"
  by (simp_all add: sample_net_def)

lemma sample_ring_fields [simp]:
  "xpq_num_desc (sample_ring ty b h t ds) = 10" "q_tail (sample_ring ty b h t ds) = t" "q_head (sample_ring ty b h t ds) = h"
  "\<not> xpq_lock (sample_ring ty b h t ds)" "xpq_id (sample_ring ty b h t ds) = 0" "xpq_type (sample_ring ty b h t ds) = ty"
  "q_status (sample_ring ty b h t ds) = XPNET_QUEUE_ACTIVE" "length (xpq_desc_meta (sample_ring ty b h t ds)) = 10"
  by (simp_all add: sample_ring_def)

lemma sample_ring_desc [simp]:
  "i < 10 \<Longrightarrow> length ds = 10 \<Longrightarrow> desc_get (sample_ring ty b h t ds) i = Some (ds ! i)"
  by (simp add: desc_get_def meta_get_def sample_ring_def sample_meta_def)

lemma ring_wf_sample:
  "h < 10 \<Longrightarrow> t < 10 \<Longrightarrow> length ds = 10 \<Longrightarrow> ring_wf b (sample_ring ty b h t ds)"
  by (simp add: ring_wf_def sample_ring_def meta_ok_def sample_meta_def)

lemma sample_free_desc:
  "xpnet_get_free_desc (sample_ring ty b 9 0 ds) = 9" "xpnet_get_busy_desc (sample_ring ty b 9 0 ds) = 0"
  by (simp_all add: xpnet_get_free_desc_def xpnet_get_busy_desc_def)

lemma net_shape_sample [simp]: "net_shape (sample_net m rx_idle tx_idle)"
  by (simp add: net_shape_def rx_idle_def tx_idle_def)

end
