(* ===== verification/Device_Props.thy ===== *)
theory Device_Props
  imports Samples
begin

text \<open>
  The properties of the device layer: register access, descriptor rings, and the life cycle of
  the queues, each stated over the definitions of the component and applied at a concrete
  configuration where it has hypotheses.
\<close>

subsection \<open>Register access\<close>

text \<open>
  Access widths. A byte write (\<open>BYTE_SIZE\<close>) and a word write (\<open>WORD_SIZE\<close>) through
  \<open>xp_dev_reg_write\<close>, which read, merge and write back a whole double word, change exactly the
  addressed byte or the two addressed bytes of the BAR, to the low bits of the value.
\<close>

lemma narrow_write_changes_only_its_bytes:
  assumes "\<not> tx_dma_read_lock p" "unat a + 4 \<le> mmio_len p"
  shows "xp_dev_reg_write [v] a BYTE_SIZE p 1 = Some (0, p\<lparr>vma := (vma p)(unat a := byte_of32 0 v)\<rparr>) \<and>
    xp_dev_reg_write [v] a WORD_SIZE p 1 =
      Some (0, p\<lparr>vma := (vma p)(unat a := byte_of32 0 v, unat a + 1 := byte_of32 1 v)\<rparr>)"
  using assms store_masked_byte [OF assms(2), of v] store_masked_word [OF assms(2), of v]
  by (simp add: xp_dev_reg_write_def BYTE_SIZE_def WORD_SIZE_def)

text \<open>
  C31: Register round trip. Writing \<open>n\<close> double words at an address range inside the BAR and
  reading the range back gives the values written, and every byte outside the range is kept.
\<close>

theorem dword_write_read_roundtrip:
  assumes "\<not> tx_dma_read_lock p" "mmio_len p < 2 ^ 32" "unat a + 4 * length vs \<le> mmio_len p" "length us = length vs"
    and "length vs < 2 ^ 32"
  shows "\<exists>p'. xp_dev_reg_write vs a DWORD_SIZE p (of_nat (length vs)) = Some (0, p') \<and>
    xp_dev_reg_read us a DWORD_SIZE p' (of_nat (length vs)) = Some (0, vs) \<and>
    (\<forall>b. b < unat a \<or> unat a + 4 * length vs \<le> b \<longrightarrow> vma p' b = vma p b)"
proof -
  have n: "unat (of_nat (length vs) :: u32) = length vs"
    using assms(5) by (simp add: unat_of_nat)
  let ?p' = "p\<lparr>vma := put_words (vma p) (unat a) vs\<rparr>"
  have "xp_dev_reg_write vs a DWORD_SIZE p (of_nat (length vs)) = Some (0, ?p')"
    using reg_write_loop_dword [of p a "length vs" 0 vs] assms(1-3) n
    by (simp add: xp_dev_reg_write_def BYTE_SIZE_def WORD_SIZE_def DWORD_SIZE_def)
  moreover have "xp_dev_reg_read us a DWORD_SIZE ?p' (of_nat (length vs)) = Some (0, vs)"
    using reg_read_loop_dword [of ?p' a "length vs" 0 us] assms(1-4) n words_at_put_words [of "vma p" "unat a" vs]
    by (simp add: xp_dev_reg_read_def BYTE_SIZE_def WORD_SIZE_def DWORD_SIZE_def)
  ultimately show ?thesis
    using put_words_outside [of _ "unat a" vs "vma p"] by auto
qed

theorem dword_write_read_roundtrip_witness:
  "\<exists>p'. xp_dev_reg_write [1, 2, 3] 64 DWORD_SIZE (sample_priv XP_A0_UNCOMPRESSED) 3 = Some (0, p') \<and>
     xp_dev_reg_read [0, 0, 0] 64 DWORD_SIZE p' 3 = Some (0, [1, 2, 3])"
  using dword_write_read_roundtrip [of "sample_priv XP_A0_UNCOMPRESSED" 64 "[1, 2, 3]" "[0, 0, 0]"]
  by (auto simp: sample_priv_def)

text \<open>
  Any other access size is refused with \<open>-EINVAL\<close>: nothing is read into the buffer and
  nothing in the device changes, in the locking and in the lock-free accessors.
\<close>

lemma bad_access_size_refused:
  assumes "\<not> tx_dma_read_lock p" "sz \<notin> {BYTE_SIZE, WORD_SIZE, DWORD_SIZE}"
  shows "xp_dev_reg_read vs a sz p n = Some (- EINVAL, vs) \<and> xp_dev_reg_write vs a sz p n = Some (- EINVAL, p) \<and>
    xp_dev_reg_read_raw v a sz p = Some (- EINVAL, v) \<and> xp_dev_reg_write_raw v a sz p = Some (- EINVAL, p)"
  using assms
  by (auto simp: xp_dev_reg_read_def xp_dev_reg_write_def xp_dev_reg_read_raw_def xp_dev_reg_write_raw_def)

text \<open>
  C30: Queues do not interfere through their registers. After the registers of one queue are
  written, reading a register of another queue, or another register of the same queue, returns
  what it returned before; this holds for all 64 queues and the three address maps.
\<close>

theorem queue_registers_isolated:
  assumes "priv_wf p" "\<not> tx_dma_read_lock p" "is_q_reg r" "is_q_reg r'" "q < 64" "q' < 64" "(r, q) \<noteq> (r', q')"
    "length vs = q_reg_words r" "length us = q_reg_words r'"
  shows "\<exists>p'. xp_dev_reg_write_q p r (of_nat (q_reg_words r)) vs q = Some p' \<and>
    xp_dev_reg_read_q p' r (of_nat (q_reg_words r)) vs q = Some vs \<and>
    xp_dev_reg_read_q p' r' (of_nat (q_reg_words r')) us q' = xp_dev_reg_read_q p r' (of_nat (q_reg_words r')) us q'"
  using locked.read_after_write [OF assms(1,2,5) refl assms(8) assms(8)]
    locked.read_other_after_write [OF assms] by blast

theorem queue_registers_isolated_witness:
  "\<exists>p'. xp_dev_reg_write_q (sample_priv XP_B0_UNCOMPRESSED) DMA0_RX_CDP_REG_E 2 [1, 2] 63 = Some p' \<and>
     xp_dev_reg_read_q p' DMA0_RX_CMD_REG_E 1 [0] 0 = xp_dev_reg_read_q (sample_priv XP_B0_UNCOMPRESSED) DMA0_RX_CMD_REG_E 1 [0] 0"
  using queue_registers_isolated [of "sample_priv XP_B0_UNCOMPRESSED" DMA0_RX_CDP_REG_E DMA0_RX_CMD_REG_E 63 0 "[1, 2]" "[0]"]
  by (auto simp: is_q_reg_def)

text \<open>
  The current descriptor pointer round trip. \<open>xpnet_set_q_cdp\<close> followed by
  \<open>xpnet_get_q_cdp\<close> gives the DMA address of the descriptor with that index, whether the device
  lock is taken by the accessors or held by the caller.
\<close>

lemma cdp_roundtrip:
  assumes "priv_wf p" "lock_ok aflags p" "xpq_id q < 64"
  shows "\<exists>p'. xpnet_set_q_cdp p q idx aflags = Some p' \<and>
    xpnet_get_q_cdp p' q aflags = Some (q_dma q + scast idx * of_nat XPNET_DESC_SIZE)"
proof -
  let ?v = "q_dma q + scast idx * 32"
  let ?p' = "p\<lparr>vma := put_words (vma p) (unat (q_reg_addr (mode p) (q_cdp_reg q) (xpq_id q))) [lo32 ?v, hi32 ?v]\<rparr>"
  have "reg64 ?p' (q_cdp_reg q) (xpq_id q) = ?v"
    by (rule reg64_write_same)
  then show ?thesis
    using xpnet_set_q_cdp_ok [OF assms, of idx] xpnet_get_q_cdp_ok [of ?p' aflags q] assms
    by (simp add: XPNET_DESC_SIZE_def)
qed

text \<open>
  \<open>xpnet_queue_en_dis\<close> sets the command register of its queue to the enable bit and the
  priority, keeping the old priority when the argument is above 7, and leaves every descriptor
  pointer and every other command register alone.
\<close>

lemma queue_en_dis_sets_command:
  assumes "priv_wf p" "lock_ok aflags p" "xpq_id q < 64"
  shows "\<exists>p'. xpnet_queue_en_dis p q enable prio aflags = Some p' \<and>
    reg32 p' (q_cmd_reg q) (xpq_id q) =
      (if enable \<noteq> 0 then 8 else 0) OR (if prio > 7 then reg32 p (q_cmd_reg q) (xpq_id q) AND 7 else ucast prio) \<and>
    (\<forall>r k. is_q_reg r \<and> k < 64 \<and> (r, k) \<noteq> (q_cmd_reg q, xpq_id q) \<longrightarrow>
       words_at (vma p') (unat (q_reg_addr (mode p) r k)) (q_reg_words r) =
       words_at (vma p) (unat (q_reg_addr (mode p) r k)) (q_reg_words r))"
proof -
  let ?a = "unat (q_reg_addr (mode p) (q_cmd_reg q) (xpq_id q))"
  let ?v = "cmd_value (reg32 p (q_cmd_reg q) (xpq_id q)) enable prio"
  let ?p' = "p\<lparr>vma := put_word (vma p) ?a ?v\<rparr>"
  have "words_at (vma ?p') (unat (q_reg_addr (mode p) r k)) (q_reg_words r) =
      words_at (vma p) (unat (q_reg_addr (mode p) r k)) (q_reg_words r)"
    if "is_q_reg r" "k < 64" "(r, k) \<noteq> (q_cmd_reg q, xpq_id q)" for r k
    using words_write_other [OF is_q_reg_cdp(2) that(1) assms(3) that(2) that(3) [symmetric] _ refl order_refl, of "[?v]"]
    by (simp add: q_cmd_reg_def)
  moreover have "reg32 ?p' (q_cmd_reg q) (xpq_id q) = ?v"
    by (rule reg32_write_same)
  ultimately show ?thesis
    using xpnet_queue_en_dis_ok [OF assms, of enable prio] by (auto simp: cmd_value_def Let_def)
qed

subsection \<open>Descriptor rings\<close>

text \<open>
  C32: Ring accounting. With both indices inside a ring of ten, the busy and the free count of
  the macros sum to nine, the busy count is the number of steps from the entry after the head to
  the tail, and moving the tail over \<open>k\<close> free entries makes exactly these \<open>k\<close> busy.
\<close>

theorem ring_accounting:
  assumes "xpq_num_desc q = 10" "q_tail q < 10" "q_head q < 10" "unat k \<le> unat (xpnet_get_free_desc q)"
  shows "unat (xpnet_get_free_desc q) + unat (xpnet_get_busy_desc q) = 9 \<and>
    (unat (q_head q) + 1 + unat (xpnet_get_busy_desc q)) mod 10 = unat (q_tail q) \<and>
    unat (xpnet_get_busy_desc (q\<lparr>q_tail := xpnet_add_and_wrap (q_tail q) k 10\<rparr>)) = unat (xpnet_get_busy_desc q) + unat k"
proof -
  let ?h = "unat (q_head q)" and ?t = "unat (q_tail q)"
  have ht: "?h < 10" "?t < 10"
    using assms(2,3) by (simp_all add: unat_lt_10)
  have m: "x mod 10 = (if x < 10 then x else x - 10)" if "x < 20" for x :: nat
    using that by (simp add: le_mod_geq)
  have fb: "unat (xpnet_get_free_desc q) + unat (xpnet_get_busy_desc q) = 9"
    by (rule free_plus_busy [OF assms(1)])
  have b: "unat (xpnet_get_busy_desc q) = (9 + ?t - ?h) mod 10"
    by (rule unat_busy_desc [OF assms(1-3)])
  have k: "unat k \<le> 9"
    using assms(4) fb by linarith
  have t': "unat (xpnet_add_and_wrap (q_tail q) k 10) = (?t + unat k) mod 10"
    using unat_add_and_wrap [OF assms(2), of k] k by simp
  have "unat (xpnet_get_busy_desc (q\<lparr>q_tail := xpnet_add_and_wrap (q_tail q) k 10\<rparr>)) = (9 + (?t + unat k) mod 10 - ?h) mod 10"
    using unat_busy_desc [of "q\<lparr>q_tail := xpnet_add_and_wrap (q_tail q) k 10\<rparr>"] assms(1,3) t' by (simp add: unat_lt_10)
  moreover have "(9 + (?t + unat k) mod 10 - ?h) mod 10 = (9 + ?t - ?h) mod 10 + unat k"
    using ht k assms(4) fb b m [of "?t + unat k"] m [of "9 + (?t + unat k) mod 10 - ?h"] m [of "9 + ?t - ?h"]
    by (auto split: if_splits)
  moreover have "(?h + 1 + (9 + ?t - ?h) mod 10) mod 10 = ?t"
    using ht m [of "9 + ?t - ?h"] m [of "?h + 1 + (9 + ?t - ?h) mod 10"] by (auto split: if_splits)
  ultimately show ?thesis
    using fb b by simp
qed

theorem ring_accounting_witness:
  "unat (xpnet_get_busy_desc (tx_idle\<lparr>q_tail := xpnet_add_and_wrap (q_tail tx_idle) 9 10\<rparr>)) = 9"
  using ring_accounting [of tx_idle 9] by (simp add: tx_idle_def sample_free_desc)

text \<open>
  Linking and enabling an RX ring gives every descriptor to the chip, chains them in ring
  order to an end after the last one, empties the ring and activates the queue, without touching
  buffer addresses, lengths or the book-keeping.
\<close>

lemma link_and_enable_builds_chain:
  assumes "ring_wf b q"
  shows "\<exists>q'. xpnet_rx_queue_link_and_enable q = Some q' \<and> ring_wf b q' \<and>
    q_status q' = XPNET_QUEUE_ACTIVE \<and> q_head q' = 0 \<and> q_tail q' = 0 \<and> xpq_desc_meta q' = xpq_desc_meta q \<and>
    (\<forall>i<10. \<exists>v v'. desc_get q i = Some v \<and> desc_get q' i = Some v' \<and> hw_owns v' \<and>
       qword3 v' = (if i = 9 then 0 else q_dma q + of_nat (32 * (i + 1))) \<and>
       qword2 v' = qword2 v \<and> qword1 v' = qword1 v)"
  using xpnet_rx_queue_link_and_enable_ok [OF assms] by blast

text \<open>
  Resetting and re-enabling one descriptor puts it back to the state of a fresh one (owned
  by the chip, full buffer length, its own buffer, linked to the next entry of the ring) and
  changes no other descriptor.
\<close>

lemma desc_reset_restores:
  assumes "ring_wf b q" "idx < 10"
  shows "\<exists>q1 q' d. xpnet_rx_desc_reset q idx = Some q1 \<and> xpnet_rx_desc_enable q1 (unat idx) = Some q' \<and>
    ring_wf b q' \<and> meta_get q (unat idx) = Some d \<and>
    desc_get q' (unat idx) = Some \<lparr>qword0 = own_bit, qword1 = of_nat XPNET_MAX_PACKET_SIZE,
      qword2 = shard_dma (buf_sta d), qword3 = q_dma q + of_nat (32 * ((unat idx + 1) mod 10))\<rparr> \<and>
    (\<forall>j<10. j \<noteq> unat idx \<longrightarrow> desc_get q' j = desc_get q j)"
  using xpnet_rx_desc_reset_enable_ok [OF assms] by blast

subsection \<open>Queue life cycle\<close>

text \<open>
  Initialising one RX queue is all or nothing. It succeeds exactly when all eleven
  allocations do; then the queue is ready for the chip and owns exactly the memory allocated.
  Otherwise it returns \<open>-ENOMEM\<close> and everything allocated for the queue has been freed. In
  both cases the other queues are untouched and the call returns normally.
\<close>

lemma rx_queue_init_all_or_nothing:
  assumes "net_shape net" "i < 64" "priv_wf (pci_priv net)" "\<not> tx_dma_read_lock (pci_priv net)"
  shows "\<exists>rc q' net' e'. xpnet_rx_queue_init net e i = Some (rc, net', e') \<and>
    rx_queue net' = (rx_queue net)[i := q'] \<and> tx_queue net' = tx_queue net \<and>
    (if \<forall>j\<le>10. dma_res e (dma_calls e + j) \<noteq> None
     then rc = 0 \<and> rx_queue_ready (pci_priv net') i q' \<and>
          mset (dma_live e') = q_mem XPNET_MAX_PACKET_SIZE q' + mset (dma_live e)
     else rc = - ENOMEM \<and> mset (dma_live e') = mset (dma_live e))"
proof -
  have sh: "length (rx_queue net) = 64" "length (xpq_desc_meta (rx_queue net ! i)) = 10"
    using assms(1,2) by (auto simp: net_shape_def)
  have put: "rx_queue net' = (rx_queue net)[i := q']" "tx_queue net' = tx_queue net"
    if "net' = rx_q_put (net\<lparr>pci_priv := pci_priv net'\<rparr>) i q'" for net' q'
    using arg_cong [OF that, of rx_queue] arg_cong [OF that, of tx_queue] by (simp_all add: rx_q_put_def)
  from sh assms(2-4) show ?thesis
  proof (cases rule: xpnet_rx_queue_init_cases [where e = e])
    case (built q' net' e')
    then show ?thesis
      using put [OF built(2)] by auto
  next
    case (failed q' net' e')
    then show ?thesis
      using put [OF failed(2)] unfolding if_not_P [OF failed(7)] by auto
  qed
qed

text \<open>
  C9: Setting up all 64 RX queues is all or nothing as well: either every queue is ready for the
  chip with its own descriptor pointer register, and the memory allocated is exactly that of the
  queues, or the call returns \<open>-ENOMEM\<close> with the allocator as it was before.
\<close>

theorem rx_queue_setup_all_or_nothing:
  assumes "net_shape net" "priv_wf (pci_priv net)" "\<not> tx_dma_read_lock (pci_priv net)"
  shows "\<exists>rc net' e'. xpnet_rx_queue_setup net e XPNET_RX_NUM_QUEUES = Some (rc, net', e') \<and>
    (rc = 0 \<and> (\<forall>j<64. rx_queue_ready (pci_priv net') j (rx_queue net' ! j)) \<and>
       mset (dma_live e') = (\<Sum>j = 0..<64. q_mem XPNET_MAX_PACKET_SIZE (rx_queue net' ! j)) + mset (dma_live e) \<or>
     rc = - ENOMEM \<and> mset (dma_live e') = mset (dma_live e))"
proof -
  have m: "length (xpq_desc_meta (rx_queue net ! j)) = 10" if "j < 64" for j
    using assms(1) that by (auto simp: net_shape_def)
  show ?thesis
    using rx_setup_loop_ok [of "net\<lparr>num_rxqueues := 64\<rparr>" 0 64 e "mset (dma_live e)"] m assms
    by (auto simp: xpnet_rx_queue_setup_def XPNET_RX_NUM_QUEUES_def net_shape_def rx_mem_def)
qed

theorem rx_queue_setup_all_or_nothing_witness:
  "\<exists>rc net' e'. xpnet_rx_queue_setup (sample_net XP_A0_UNCOMPRESSED rx_idle tx_idle) (sample_dma 100) 64 = Some (rc, net', e') \<and>
     (rc = 0 \<or> rc = - ENOMEM \<and> mset (dma_live e') = {#})"
  using rx_queue_setup_all_or_nothing [of "sample_net XP_A0_UNCOMPRESSED rx_idle tx_idle" "sample_dma 100"]
  by (auto simp: XPNET_RX_NUM_QUEUES_def sample_dma_def)

text \<open>
  Initialising a TX queue when memory is there: the call returns 0 and the queue is active
  and empty, no descriptor is owned by the chip, every buffer has 4 KB, and the descriptor
  pointer register of the queue holds the address of the ring.
\<close>

lemma tx_queue_init_ready:
  assumes "net_shape net" "i < unat (num_txqueues net)" "num_txqueues net \<le> 64"
    "priv_wf (pci_priv net)" "\<not> tx_dma_read_lock (pci_priv net)"
    "\<forall>j\<le>10. dma_res e (dma_calls e + j) \<noteq> None"
  shows "\<exists>net' e'. xpnet_tx_queue_init net e i = Some (0, net', e') \<and>
    tx_queue_ready (pci_priv net') i (tx_queue net' ! i)"
proof -
  have i: "i < 64"
    using assms(2,3) by (simp add: word_le_nat_alt)
  then have sh: "length (tx_queue net) = 64" "length (xpq_desc_meta (tx_queue net ! i)) = 10"
    using assms(1) by (auto simp: net_shape_def)
  obtain net' e' q' where r: "xpnet_tx_queue_init net e i = Some (0, net', e')"
      "net' = tx_q_put (net\<lparr>pci_priv := pci_priv net'\<rparr>) i q'" "tx_queue_ready (pci_priv net') i q'"
    using xpnet_tx_queue_init_ready [OF sh assms(2-5) assms(6) [rule_format]] by blast
  have "tx_queue net' ! i = q'"
    using arg_cong [OF r(2), of tx_queue] i sh(1) by (simp add: tx_q_put_def)
  then show ?thesis
    using r by auto
qed

text \<open>
  A failed buffer allocation of a TX queue goes unnoticed. \<open>xpnet_tx_desc_init\<close> tests the
  descriptor pointer where it means the buffer pointer, so it returns 0 and leaves an entry
  without a buffer.
\<close>

lemma tx_desc_init_misses_failure:
  assumes "i < length (xpq_desc_meta q)" "dma_res e (dma_calls e) = None"
  shows "\<exists>q' e'. xpnet_tx_desc_init q e i = Some (0, q', e') \<and> shard_va (buf_sta (xpq_desc_meta q' ! i)) = None"
  using assms by (auto simp: xpnet_tx_desc_init_def meta_get_def meta_set_def dma_alloc_coherent_def)

subsection \<open>Byte order of packet data\<close>

text \<open>
  C33: The swap loop. For a length that fits the buffer, \<open>__xpnet_endian_swap32\<close> ends, reverses
  the bytes of exactly the words that hold the data on A0 chips and nothing on the others, and
  doing it again restores the buffer.
\<close>

theorem endian_swap_correct:
  assumes "0 < n" "4 * len_words (unat n) \<le> length base" "len_words (unat n) \<le> 65535"
  shows "xpnet_endian_swap32 base n m =
      Some (if m = XP_A0_UNCOMPRESSED then swap_words (len_words (unat n)) base else base) \<and>
    Option.bind (xpnet_endian_swap32 base n m) (\<lambda>b. xpnet_endian_swap32 b n m) = Some base"
  using xpnet_endian_swap32_ok [OF assms, of m] xpnet_endian_swap32_ok [of n "chip_view m (unat n) base" m] assms
  by (simp add: chip_view_def)

theorem endian_swap_correct_witness:
  "xpnet_endian_swap32 [1, 2, 3, 4, 5, 6, 7, 8, 9] 5 XP_A0_UNCOMPRESSED = Some [4, 3, 2, 1, 8, 7, 6, 5, 9]"
proof -
  have "len_words (unat (5 :: u32)) = Suc (Suc 0)"
    by (simp add: len_words_def)
  then show ?thesis
    using endian_swap_correct [of 5 "[1, 2, 3, 4, 5, 6, 7, 8, 9]" XP_A0_UNCOMPRESSED] by simp
qed

text \<open>
  The length 0. On an A0 chip the bound \<open>(buf_size - 1) / 4\<close> wraps, and the loop runs past
  the end of any packet buffer.
\<close>

lemma endian_swap_zero_leaves_buffer:
  assumes "length base \<le> XPNET_MAX_PACKET_SIZE"
  shows "xpnet_endian_swap32 base 0 XP_A0_UNCOMPRESSED = None"
  using assms by (intro xpnet_endian_swap32_zero) (simp add: XPNET_MAX_PACKET_SIZE_def)

end
