(* ===== verification/Tx_Path.thy ===== *)
theory Tx_Path
  imports Samples
begin

text \<open>
  Transmission (\<open>xp_netdev_core.c\<close>): splitting a packet over the buffers of a TX ring, handing
  the descriptors to the chip, and reclaiming them. The lemmas show that the chip reads exactly
  the packet (padded to 128 bytes when shorter), which descriptors change and how, that no
  buffer or ring is left, and what the caller may do with the packet afterwards.
\<close>

subsection \<open>Operations\<close>

text \<open>
  The body of the \<open>while\<close> loop of \<open>__xpnet_skb_to_shards\<close> for one descriptor: copy up to 4 KB
  of the packet into its buffer. The locals are C \<open>int\<close>s.
\<close>

definition shard_copy ::
  "sk_buff \<Rightarrow> xp_address_mode \<Rightarrow> int \<Rightarrow> int \<Rightarrow> int \<Rightarrow> xpnet_desc_struct \<Rightarrow> xpnet_desc_struct option"
where
  "shard_copy skb m mx copied b2c d =
     do { va \<leftarrow> shard_va (buf_sta d);
          va \<leftarrow> (if mx < 128 then buf_write va 0 (replicate 128 0) else Some va);
          let len = (if mx < 128 then 128 else of_int b2c);
          src \<leftarrow> buf_read (skb_data skb) (nat copied) (nat b2c);
          va \<leftarrow> buf_write va 0 src;
          va \<leftarrow> xpnet_endian_swap32 va len m;
          Some (d\<lparr>buf_sta := (buf_sta d)\<lparr>shard_va := Some va, shard_len := len\<rparr>\<rparr>) }"

function skb_to_shards_loop ::
  "sk_buff \<Rightarrow> xp_address_mode \<Rightarrow> int \<Rightarrow> xpnet_queue_struct \<Rightarrow> int \<Rightarrow> u32 \<Rightarrow> nat \<Rightarrow> (nat \<times> xpnet_queue_struct) option"
where
  "skb_to_shards_loop skb m mx q copied n idx =
     (if copied < mx then
        do { d \<leftarrow> meta_get q (unat n);
             let b2c = (if mx - copied < int XPNET_MAX_DMA_SIZE then mx - copied else int XPNET_MAX_DMA_SIZE);
             d \<leftarrow> shard_copy skb m mx copied b2c d;
             q \<leftarrow> meta_set q (unat n) d;
             skb_to_shards_loop skb m mx q (copied + b2c) (xpnet_add_and_wrap n 1 (xpq_num_desc q)) (idx + 1) }
      else Some (idx, q))"
  by pat_completeness auto
termination
  by (relation "measure (\<lambda>(skb, m, mx, q, copied, n, idx). nat (mx - copied))")
    (auto simp: XPNET_MAX_DMA_SIZE_def)

declare skb_to_shards_loop.simps [simp del]

definition xpnet_skb_to_shards ::
  "sk_buff \<Rightarrow> xpnet_queue_struct \<Rightarrow> xp_address_mode \<Rightarrow> (nat \<times> xpnet_queue_struct) option"
where
  "xpnet_skb_to_shards skb q m = skb_to_shards_loop skb m (sint (skb_len skb)) q 0 (q_tail q) 0"

text \<open>The two loops of \<open>__xpnet_skb_stat_enqueue\<close>; the second returns the last index it wrote.\<close>

fun enqueue_check_loop :: "xpnet_queue_struct \<Rightarrow> u32 \<Rightarrow> nat \<Rightarrow> xpnet_enum option" where
  "enqueue_check_loop q idx 0 = Some XPNET_OK"
| "enqueue_check_loop q idx (Suc k) =
     do { v \<leftarrow> desc_get q (unat idx);
          if hw_owns v then Some XPNET_QUEUE_BUSY
          else if desc_error v then Some XPNET_QUEUE_ERROR
          else enqueue_check_loop q (xpnet_add_and_wrap idx 1 (xpq_num_desc q)) k }"

fun enqueue_fill_loop :: "xpnet_queue_struct \<Rightarrow> u32 \<Rightarrow> u32 \<Rightarrow> nat \<Rightarrow> (u32 \<times> xpnet_queue_struct) option" where
  "enqueue_fill_loop q lst idx 0 = Some (lst, q)"
| "enqueue_fill_loop q lst idx (Suc k) =
     do { d \<leftarrow> meta_get q (unat idx);
          v \<leftarrow> desc_get q (unat idx);
          q \<leftarrow> desc_set q (unat idx)
                 (v\<lparr>qword2 := shard_dma (buf_sta d), qword1 := scast (shard_len (buf_sta d)),
                    qword0 := (if idx = q_tail q then push_bit 3 1 else own_bit)\<rparr>);
          enqueue_fill_loop q idx (xpnet_add_and_wrap idx 1 (xpq_num_desc q)) k }"

definition xpnet_skb_stat_enqueue ::
  "xpnet_private \<Rightarrow> xpnet_queue_struct \<Rightarrow> nat \<Rightarrow> (xpnet_enum \<times> xp_private \<times> xpnet_queue_struct) option"
where
  "xpnet_skb_stat_enqueue net q shards =
     do { rc \<leftarrow> enqueue_check_loop q (q_tail q) shards;
          if rc \<noteq> XPNET_OK then Some (rc, pci_priv net, q)
          else
            do { (lst, q) \<leftarrow> enqueue_fill_loop q (q_tail q) (q_tail q) shards;
                 v \<leftarrow> desc_get q (unat lst);
                 q \<leftarrow> desc_set q (unat lst) (v\<lparr>qword0 := qword0 v OR push_bit 2 1\<rparr>);
                 d \<leftarrow> meta_get q (unat (q_tail q));
                 q \<leftarrow> meta_set q (unat (q_tail q)) (d\<lparr>num_shards := of_nat shards\<rparr>);
                 v \<leftarrow> desc_get q (unat (q_tail q));
                 q \<leftarrow> desc_set q (unat (q_tail q)) (v\<lparr>qword0 := qword0 v OR own_bit\<rparr>);
                 if hw_flags net AND XPNET_HWFLAG_A0 \<noteq> 0 then
                   do { p \<leftarrow> xpnet_set_q_cdp (pci_priv net) q (q_tail q) 0;
                        p \<leftarrow> xpnet_queue_en_dis p q 1 0 0;
                        Some (XPNET_OK, p, q) }
                 else Some (XPNET_OK, pci_priv net, q) } }"

definition xpnet_enforce_skb_sanity :: "xpnet_private \<Rightarrow> sk_buff \<Rightarrow> xpnet_enum" where
  "xpnet_enforce_skb_sanity net skb =
     (if hw_flags net AND XPNET_HWFLAG_A0 = 0 then XPNET_OK
      else if sint (XPNET_CEIL_LEN (skb_len skb) 4) > int XPNET_MAX_DMA_SEGMENT_SIZE then XPNET_REASON_4KCROSS
      else if unat (skb_len skb) < XPNET_MIN_PACKET_SIZE then XPNET_REASON_SHORTPACKET
      else XPNET_OK)"

text \<open>
  \<open>xpnet_hard_start_xmit\<close>. The boolean of the result says that the packet was passed to
  \<open>dev_kfree_skb_any\<close>. The code reads \<open>skb->len\<close> for the byte counter after that call; what
  the freed memory holds is not the driver's, so \<open>stale\<close> gives the value read. A division by
  the ring size 0 has no meaning.
\<close>

definition tx_drop :: "xpnet_private \<Rightarrow> netdev_tx_t \<times> bool \<times> xpnet_private" where
  "tx_drop net = (NETDEV_TX_OK, True, net\<lparr>stats := (stats net)\<lparr>tx_dropped := tx_dropped (stats net) + 1\<rparr>\<rparr>)"

definition tx_error :: "xpnet_private \<Rightarrow> xpnet_private" where
  "tx_error net = net\<lparr>stats := (stats net)\<lparr>tx_errors := tx_errors (stats net) + 1\<rparr>\<rparr>"

text \<open>What follows the call of \<open>__xpnet_skb_stat_enqueue\<close>, on its results.\<close>

fun tx_finish ::
  "(sk_buff \<Rightarrow> u32) \<Rightarrow> sk_buff \<Rightarrow> xpnet_private \<Rightarrow> nat \<Rightarrow> nat \<Rightarrow> xpnet_enum \<times> xp_private \<times> xpnet_queue_struct \<Rightarrow>
   netdev_tx_t \<times> bool \<times> xpnet_private"
where
  "tx_finish stale skb net qno shards (rc, p, q) =
     (let net = tx_q_put (net\<lparr>pci_priv := p\<rparr>) qno q in
      if rc = XPNET_QUEUE_BUSY then (NETDEV_TX_BUSY, False, net)
      else if rc = XPNET_QUEUE_ERROR then
        (NETDEV_TX_BUSY, False,
          net\<lparr>stats := (stats net)\<lparr>tx_aborted_errors := tx_aborted_errors (stats net) + 1,
                                  tx_dropped := tx_dropped (stats net) + 1\<rparr>\<rparr>)
      else
        (NETDEV_TX_OK, True,
          (tx_q_put net qno
             (q\<lparr>q_tail := xpnet_add_and_wrap (q_tail q) (of_nat shards) (xpq_num_desc q)\<rparr>))
            \<lparr>stats := (stats net)\<lparr>tx_packets := tx_packets (stats net) + 1,
                                  tx_bytes := tx_bytes (stats net) + ucast (stale skb)\<rparr>\<rparr>))"

definition xpnet_hard_start_xmit ::
  "(sk_buff \<Rightarrow> u32) \<Rightarrow> sk_buff option \<Rightarrow> xpnet_private \<Rightarrow> nat \<Rightarrow> (netdev_tx_t \<times> bool \<times> xpnet_private) option"
where
  "xpnet_hard_start_xmit stale skb_ptr net qno =
     do { q \<leftarrow> arr_get (tx_queue net) qno;
          if xpq_lock q then None
          else if q_status q \<noteq> XPNET_QUEUE_ACTIVE then Some (tx_drop (tx_error net))
          else case skb_ptr of
            None \<Rightarrow> Some (tx_drop net)
          | Some skb \<Rightarrow>
            if xpq_num_desc q = 0 then None
            else let num_free_desc = xpnet_get_free_desc q in
            if num_free_desc = 0 then Some (NETDEV_TX_BUSY, False, net)
            else if skb_len skb = 0 \<or> skb_len skb > num_free_desc * of_nat XPNET_MAX_DMA_SEGMENT_SIZE
              then Some (tx_drop (tx_error net))
            else if skb_data_len skb \<noteq> 0 then Some (tx_drop (tx_error net))
            else do { v \<leftarrow> desc_get q (unat (q_tail q));
              if hw_owns v \<or> desc_error v then Some (NETDEV_TX_BUSY, False, net)
              else
                let skb_good = xpnet_enforce_skb_sanity net skb in
                do { (shards, q) \<leftarrow> xpnet_skb_to_shards skb q (mode (pci_priv net));
                     map_option (tx_finish stale skb net qno shards) (xpnet_skb_stat_enqueue net q shards) } } }"

text \<open>
  \<open>xpnet_tx_complete\<close>. While the loop waits in \<open>udelay\<close>, the chip works on the descriptor
  area: \<open>chip t\<close> is what it does to the area during the \<open>t\<close>-th wait.
\<close>

definition chip_step :: "(nat \<Rightarrow> xpnet_descriptor list \<Rightarrow> xpnet_descriptor list) \<Rightarrow> nat \<Rightarrow> xpnet_queue_struct \<Rightarrow> xpnet_queue_struct"
where
  "chip_step chip t q = q\<lparr>q_va := map_option (chip t) (q_va q)\<rparr>"

fun tx_poll_loop ::
  "(nat \<Rightarrow> xpnet_descriptor list \<Rightarrow> xpnet_descriptor list) \<Rightarrow> nat \<Rightarrow> xpnet_queue_struct \<Rightarrow> nat \<Rightarrow> nat \<Rightarrow>
   (nat \<times> xpnet_queue_struct) option"
where
  "tx_poll_loop chip t q head 0 = Some (t, q)"
| "tx_poll_loop chip t q head (Suc k) =
     do { v \<leftarrow> desc_get q head;
          if hw_owns v then tx_poll_loop chip (Suc t) (chip_step chip t q) head k else Some (t, q) }"

fun tx_complete_loop ::
  "(nat \<Rightarrow> xpnet_descriptor list \<Rightarrow> xpnet_descriptor list) \<Rightarrow> nat \<Rightarrow> xpnet_queue_struct \<Rightarrow> u32 \<Rightarrow> u32 \<Rightarrow> nat \<Rightarrow>
   (nat \<times> xpnet_queue_struct) option"
where
  "tx_complete_loop chip t q head tail 0 = Some (t, q)"
| "tx_complete_loop chip t q head tail (Suc k) =
     (let head = xpnet_add_and_wrap head 1 (xpq_num_desc q) in
      if head = tail then Some (t, q)
      else do { v \<leftarrow> desc_get q (unat head);
                if desc_error v then Some (t, q)
                else do { (t, q) \<leftarrow> tx_poll_loop chip t q (unat head) XPNET_MAX_ATTEMPTS;
                          v \<leftarrow> desc_get q (unat head);
                          if hw_owns v then Some (t, q)
                          else tx_complete_loop chip t
                                 (q\<lparr>q_head := xpnet_add_and_wrap (q_head q) 1 (xpq_num_desc q)\<rparr>) head tail k } })"

definition xpnet_tx_complete ::
  "(nat \<Rightarrow> xpnet_descriptor list \<Rightarrow> xpnet_descriptor list) \<Rightarrow> xpnet_private \<Rightarrow> nat \<Rightarrow> nat \<Rightarrow> xpnet_private option"
where
  "xpnet_tx_complete chip net qno maxiter =
     do { q \<leftarrow> arr_get (tx_queue net) qno;
          if xpq_lock q \<or> xpq_num_desc q = 0 then None
          else
            do { (_, q) \<leftarrow> tx_complete_loop chip 0 q (q_head q) (q_tail q)
                             (min maxiter (unat (xpnet_get_busy_desc q)));
                 let q = (if hw_flags net AND XPNET_HWFLAG_A0 \<noteq> 0
                          then q\<lparr>q_head := xpq_num_desc q - 1, q_tail := 0\<rparr> else q);
                 Some (tx_q_put net qno q) } }"

definition xpnet_start_xmit ::
  "(nat \<Rightarrow> xpnet_descriptor list \<Rightarrow> xpnet_descriptor list) \<Rightarrow> (sk_buff \<Rightarrow> u32) \<Rightarrow> sk_buff option \<Rightarrow> xpnet_private \<Rightarrow>
   (netdev_tx_t \<times> bool \<times> xpnet_private) option"
where
  "xpnet_start_xmit chip stale skb net =
     (if priv_lock net then None
      else if \<not> dma_trigger net then Some (NETDEV_TX_OK, True, net)
      else if tx_dma_read_lock (pci_priv net) then None
      else
        let net = net\<lparr>pci_priv := (pci_priv net)\<lparr>tx_dma_read_lock := True\<rparr>\<rparr> in
        do { (rc, freed, net) \<leftarrow> xpnet_hard_start_xmit stale skb net (unat (txqno net));
             net \<leftarrow> (if rc = NETDEV_TX_OK
                     then do { q \<leftarrow> arr_get (tx_queue net) (unat (txqno net));
                               xpnet_tx_complete chip net (unat (txqno net)) (unat (xpq_num_desc q)) }
                     else Some net);
             Some (rc, freed, net\<lparr>pci_priv := (pci_priv net)\<lparr>tx_dma_read_lock := False\<rparr>\<rparr>) })"

subsection \<open>Splitting a packet\<close>

text \<open>
  The abstract view: a packet of \<open>L\<close> bytes takes \<open>num_shards_for L\<close> buffers, shard \<open>k\<close> of it is
  \<open>shard_payload\<close>, and an entry holds a shard when that is what the chip reads from its buffer.
\<close>

definition num_shards_for :: "nat \<Rightarrow> nat" where
  "num_shards_for L = (L + 4095) div 4096"

definition shard_payload :: "u8 list \<Rightarrow> nat \<Rightarrow> u8 list" where
  "shard_payload data k =
     (if length data < 128 then data @ replicate (128 - length data) 0 else take 4096 (drop (4096 * k) data))"

definition holds_shard :: "xp_address_mode \<Rightarrow> u8 list \<Rightarrow> xpnet_desc_struct \<Rightarrow> bool" where
  "holds_shard m bs d \<longleftrightarrow>
     shard_len (buf_sta d) = of_nat (length bs) \<and>
     (\<exists>va. shard_va (buf_sta d) = Some va \<and> take (length bs) (chip_view m (length bs) va) = bs)"

lemma len_words_le: "n \<le> 4096 \<Longrightarrow> len_words n \<le> 1024"
  by (simp add: len_words_def)

lemma swap_page:
  assumes "0 < n" "n \<le> 4096" "length va = 4096"
  shows "xpnet_endian_swap32 va (of_nat n) m = Some (chip_view m n va)"
proof -
  have "unat (of_nat n :: u32) = n"
    using assms(2) by (simp add: unat_of_nat)
  then show ?thesis
    using xpnet_endian_swap32_ok [of "of_nat n" va m] len_words_le [OF assms(2)] assms
    by (simp add: word_less_nat_alt)
qed

lemma shard_copy_ok:
  assumes b: "shard_va (buf_sta d) = Some b" "length b = PAGE_SIZE"
    and k: "4096 * k < L" "L \<le> length (skb_data skb)" and n: "n = min (L - 4096 * k) 4096"
  shows "\<exists>va len. length va = PAGE_SIZE \<and>
    shard_copy skb m (int L) (int (4096 * k)) (int n) d =
      Some (d\<lparr>buf_sta := (buf_sta d)\<lparr>shard_va := Some va, shard_len := len\<rparr>\<rparr>) \<and>
    holds_shard m (shard_payload (take L (skb_data skb)) k)
      (d\<lparr>buf_sta := (buf_sta d)\<lparr>shard_va := Some va, shard_len := len\<rparr>\<rparr>)"
proof -
  let ?src = "take n (drop (4096 * k) (skb_data skb))"
  have src: "buf_read (skb_data skb) (nat (int (4096 * k))) (nat (int n)) = Some ?src" "length ?src = n"
    unfolding nat_int using k n by (simp_all add: buf_read_def)
  have n0: "0 < n" "n \<le> 4096"
    using k n by simp_all
  show ?thesis
  proof (cases "L < 128")
    case True
    then have [simp]: "k = 0"
      using k by simp
    then have [simp]: "n = L"
      using True n by simp
    let ?va = "?src @ replicate (128 - n) 0 @ drop 128 b"
    have va: "length ?va = 4096"
      using True b k by (simp add: PAGE_SIZE_def)
    have "xpnet_endian_swap32 ?va 128 m = Some (chip_view m 128 ?va)"
      using swap_page [of 128 ?va m] va by simp
    moreover have "shard_payload (take L (skb_data skb)) k = ?src @ replicate (128 - n) 0"
      using True k by (simp add: shard_payload_def)
    ultimately show ?thesis
      using b va src True k
      by (intro exI [of _ "chip_view m 128 ?va"] exI [of _ 128])
        (simp add: shard_copy_def PAGE_SIZE_def holds_shard_def)
  next
    case False
    let ?va = "?src @ drop n b"
    have va: "length ?va = 4096"
      using src b n0 by (simp add: PAGE_SIZE_def)
    have "shard_payload (take L (skb_data skb)) k = ?src"
      using False k n by (simp add: shard_payload_def drop_take min.commute)
    then show ?thesis
      using b va src False swap_page [OF n0 va, of m] n0
      by (intro exI [of _ "chip_view m n ?va"] exI [of _ "of_nat n"])
        (simp add: shard_copy_def PAGE_SIZE_def holds_shard_def del: of_nat_mult)
  qed
qed

text \<open>The entries of a ring that a packet starting at \<open>t\<close> takes, from shard \<open>k\<close> on.\<close>

definition slot :: "u32 \<Rightarrow> nat \<Rightarrow> nat" where
  "slot t j = (unat t + j) mod 10"

definition slots :: "u32 \<Rightarrow> nat \<Rightarrow> nat \<Rightarrow> nat set" where
  "slots t k S = slot t ` {k..<S}"

lemma slot_lt [simp]: "slot t j < 10"
  by (simp add: slot_def)

lemma slot_0: "t < 10 \<Longrightarrow> slot t 0 = unat t"
  by (simp add: slot_def unat_lt_10)

lemma slot_word: "unat (of_nat (slot t j) :: u32) = slot t j" "of_nat (slot t j) < (10 :: u32)"
proof -
  have "slot t j < 2 ^ 32"
    by (rule order.strict_trans [OF slot_lt]) simp
  then show "unat (of_nat (slot t j) :: u32) = slot t j"
    by (simp add: unat_of_nat)
  then show "of_nat (slot t j) < (10 :: u32)"
    by (simp add: word_less_nat_alt)
qed

lemma slot_Suc: "xpnet_add_and_wrap (of_nat (slot t j)) 1 10 = of_nat (slot t (Suc j))"
  using unat_add_and_wrap [of "of_nat (slot t j)" 1] slot_word [of t j] slot_word(1) [of t "Suc j"]
  by (simp add: word_unat_eq_iff) (simp add: slot_def mod_Suc_eq)

lemma mod_add_inj:
  fixes a i j :: nat
  assumes "i < j" "j < i + 10"
  shows "(a + i) mod 10 \<noteq> (a + j) mod 10"
proof
  assume "(a + i) mod 10 = (a + j) mod 10"
  then have "10 dvd (a + j) - (a + i)"
    using assms by (metis mod_eq_dvd_iff_nat add_le_cancel_left less_imp_le)
  then show False
    using assms by (auto dest: dvd_imp_le)
qed

lemma slot_inj: "i < S \<Longrightarrow> j < S \<Longrightarrow> S \<le> 10 \<Longrightarrow> slot t i = slot t j \<longleftrightarrow> i = j"
  using mod_add_inj [of i j "unat t"] mod_add_inj [of j i "unat t"]
  by (auto simp: slot_def intro: linorder_cases [of i j])

lemma slots_lt: "i \<in> slots t k S \<Longrightarrow> i < 10"
  by (auto simp: slots_def)

lemma slots_Suc: "k < S \<Longrightarrow> slots t k S = insert (slot t k) (slots t (Suc k) S)"
proof -
  assume "k < S"
  then have "{k..<S} = insert k {Suc k..<S}"
    by auto
  then show ?thesis
    by (simp add: slots_def)
qed

lemma slot_notin: "k < S \<Longrightarrow> S \<le> 10 \<Longrightarrow> slot t k \<notin> slots t (Suc k) S"
  using slot_inj [of k S] by (auto simp: slots_def)

text \<open>A change of book-keeping entries that keeps the ring: only buffer contents and lengths.\<close>

definition bufs_only :: "xpnet_queue_struct \<Rightarrow> xpnet_queue_struct \<Rightarrow> bool" where
  "bufs_only q q' \<longleftrightarrow>
     q'\<lparr>xpq_desc_meta := []\<rparr> = q\<lparr>xpq_desc_meta := []\<rparr> \<and> length (xpq_desc_meta q') = length (xpq_desc_meta q) \<and>
     (\<forall>i<length (xpq_desc_meta q). desc_va (xpq_desc_meta q' ! i) = desc_va (xpq_desc_meta q ! i) \<and>
        cdp (xpq_desc_meta q' ! i) = cdp (xpq_desc_meta q ! i) \<and>
        shard_dma (buf_sta (xpq_desc_meta q' ! i)) = shard_dma (buf_sta (xpq_desc_meta q ! i)))"

lemma bufs_only_refl [simp]: "bufs_only q q"
  by (simp add: bufs_only_def)

lemma bufs_only_trans: "bufs_only q1 q2 \<Longrightarrow> bufs_only q2 q3 \<Longrightarrow> bufs_only q1 q3"
  by (simp add: bufs_only_def)

lemma bufs_only_fields:
  assumes "bufs_only q q'"
  shows "xpq_num_desc q' = xpq_num_desc q" "q_tail q' = q_tail q" "q_head q' = q_head q" "q_dma q' = q_dma q"
    "xpq_id q' = xpq_id q" "xpq_type q' = xpq_type q" "q_status q' = q_status q" "xpq_lock q' = xpq_lock q"
    "q_va q' = q_va q"
  by (cases q; cases q'; use assms in \<open>simp add: bufs_only_def\<close>)+

lemma bufs_only_desc_get: "bufs_only q q' \<Longrightarrow> desc_get q' i = desc_get q i"
  using bufs_only_fields(9) [of q q']
  by (cases "i < length (xpq_desc_meta q)") (simp_all add: desc_get_def meta_get_def arr_get_def bufs_only_def)

lemma shards_loop_ok:
  assumes "ring_wf PAGE_SIZE q" "L \<le> length (skb_data skb)" "S = num_shards_for L" "S \<le> 10" "k \<le> S"
  shows "\<exists>q'. skb_to_shards_loop skb m (int L) q (int (min L (4096 * k))) (of_nat (slot t k)) k = Some (S, q') \<and>
    ring_wf PAGE_SIZE q' \<and> bufs_only q q' \<and>
    (\<forall>j. k \<le> j \<and> j < S \<longrightarrow>
       holds_shard m (shard_payload (take L (skb_data skb)) j) (xpq_desc_meta q' ! slot t j)) \<and>
    (\<forall>i<10. i \<notin> slots t k S \<longrightarrow> xpq_desc_meta q' ! i = xpq_desc_meta q ! i)"
  using assms(1,5)
proof (induction "S - k" arbitrary: q k)
  case 0
  then have "L \<le> 4096 * k" "k = S"
    using assms(3) by (simp_all add: num_shards_for_def)
  then show ?case
    using 0 by (subst skb_to_shards_loop.simps) auto
next
  case (Suc x)
  have k: "k < S" "4096 * k < L"
    using Suc.hyps(2) assms(3) by (simp_all add: num_shards_for_def)
  let ?i = "slot t k" and ?n = "min (L - 4096 * k) 4096"
  obtain b where b: "shard_va (buf_sta (xpq_desc_meta q ! ?i)) = Some b" "length b = PAGE_SIZE"
    using ring_wf_meta_ok [OF Suc.prems(1) slot_lt] by (auto simp: meta_ok_def)
  let ?upd = "\<lambda>va len. (xpq_desc_meta q ! ?i)\<lparr>buf_sta := (buf_sta (xpq_desc_meta q ! ?i))\<lparr>shard_va := Some va, shard_len := len\<rparr>\<rparr>"
  obtain va len where d: "length va = PAGE_SIZE"
      "shard_copy skb m (int L) (int (4096 * k)) (int ?n) (xpq_desc_meta q ! ?i) = Some (?upd va len)"
      "holds_shard m (shard_payload (take L (skb_data skb)) k) (?upd va len)"
    using shard_copy_ok [OF b k(2) assms(2) refl, of m] by blast
  let ?d = "?upd va len"
  let ?q1 = "q\<lparr>xpq_desc_meta := (xpq_desc_meta q)[?i := ?d]\<rparr>"
  have l: "length (xpq_desc_meta q) = 10" "xpq_num_desc q = 10"
    using Suc.prems(1) by (simp_all add: ring_wf_def)
  have wf1: "ring_wf PAGE_SIZE ?q1"
    using Suc.prems(1) d(1) by (auto simp: ring_wf_def meta_ok_def nth_list_update)
  have x: "x = S - Suc k" "Suc k \<le> S"
    using Suc.hyps(2) by simp_all
  have bo: "bufs_only q ?q1"
    using l by (auto simp: bufs_only_def nth_list_update)
  have cp: "int (4096 * k) + int ?n = int (min L (4096 * Suc k))" "min L (4096 * k) = 4096 * k"
      "(if int L - int (4096 * k) < int XPNET_MAX_DMA_SIZE then int L - int (4096 * k) else int XPNET_MAX_DMA_SIZE) = int ?n"
    using k(2) by (simp_all add: XPNET_MAX_DMA_SIZE_def)
  have step: "skb_to_shards_loop skb m (int L) q (int (min L (4096 * k))) (of_nat ?i) k =
      skb_to_shards_loop skb m (int L) ?q1 (int (min L (4096 * Suc k))) (of_nat (slot t (Suc k))) (Suc k)"
    using k(2) l d(2) slot_Suc [of t k] cp(1)
    by (subst skb_to_shards_loop.simps, simp only: Let_def cp(2,3))
      (simp add: meta_get_def meta_set_def slot_word del: of_nat_mult)
  obtain q' where q': "skb_to_shards_loop skb m (int L) ?q1 (int (min L (4096 * Suc k))) (of_nat (slot t (Suc k))) (Suc k) = Some (S, q')"
      "ring_wf PAGE_SIZE q'" "bufs_only ?q1 q'"
    and new: "\<And>j. Suc k \<le> j \<Longrightarrow> j < S \<Longrightarrow>
       holds_shard m (shard_payload (take L (skb_data skb)) j) (xpq_desc_meta q' ! slot t j)"
    and old: "\<And>i. i < 10 \<Longrightarrow> i \<notin> slots t (Suc k) S \<Longrightarrow> xpq_desc_meta q' ! i = xpq_desc_meta ?q1 ! i"
    using Suc.hyps(1) [OF _ wf1, of "Suc k"] x by blast
  have "xpq_desc_meta q' ! ?i = ?d"
    using old [OF slot_lt slot_notin [OF k(1) assms(4)]] l by simp
  then have "holds_shard m (shard_payload (take L (skb_data skb)) j) (xpq_desc_meta q' ! slot t j)"
    if "k \<le> j" "j < S" for j
    using d(3) new [of j] that by (cases "j = k") auto
  moreover have "xpq_desc_meta q' ! i = xpq_desc_meta q ! i" if "i < 10" "i \<notin> slots t k S" for i
    using old [of i] that slots_Suc [OF k(1), of t] by simp
  ultimately show ?case
    unfolding step using q' bufs_only_trans [OF bo] by blast
qed

lemma sint_small: "unat (w :: u32) < 2 ^ 31 \<Longrightarrow> sint w = int (unat w)"
proof -
  assume "unat w < 2 ^ 31"
  then have "w < 0x80000000"
    by (simp add: word_less_nat_alt)
  then have "uint w < 2 ^ 31"
    by (simp add: word_less_def)
  moreover have "- (2 ^ 31) \<le> uint w"
    by (rule order_trans [OF _ unsigned_greater_eq]) simp
  ultimately show ?thesis
    by (simp add: sint_uint signed_take_bit_int_eq_self_iff)
qed

lemma xpnet_skb_to_shards_ok:
  assumes "ring_wf PAGE_SIZE q" "L = unat (skb_len skb)" "L \<le> length (skb_data skb)" "L \<le> 9 * 4096"
  shows "\<exists>q'. xpnet_skb_to_shards skb q m = Some (num_shards_for L, q') \<and> ring_wf PAGE_SIZE q' \<and> bufs_only q q' \<and>
    (\<forall>j<num_shards_for L.
       holds_shard m (shard_payload (take L (skb_data skb)) j) (xpq_desc_meta q' ! slot (q_tail q) j)) \<and>
    (\<forall>i<10. i \<notin> slots (q_tail q) 0 (num_shards_for L) \<longrightarrow> xpq_desc_meta q' ! i = xpq_desc_meta q ! i)"
proof -
  have s: "sint (skb_len skb) = int L"
    using assms(2,4) by (simp add: sint_small)
  have "q_tail q < 10"
    using assms(1) by (simp add: ring_wf_def)
  then have t: "of_nat (slot (q_tail q) 0) = q_tail q"
    by (simp add: slot_0)
  have "num_shards_for L \<le> 10"
    using assms(4) by (simp add: num_shards_for_def)
  then show ?thesis
    using shards_loop_ok [OF assms(1,3) refl, of 0 m "q_tail q"]
    unfolding xpnet_skb_to_shards_def s t by simp
qed

subsection \<open>Handing descriptors to the chip\<close>

definition tx_desc_free :: "xpnet_queue_struct \<Rightarrow> nat \<Rightarrow> bool" where
  "tx_desc_free q i \<longleftrightarrow> (\<exists>v. desc_get q i = Some v \<and> \<not> hw_owns v \<and> \<not> desc_error v)"

text \<open>Ownership, start-of-packet and end-of-packet bits of shard \<open>j\<close> of \<open>S\<close>.\<close>

definition tx_desc_word :: "nat \<Rightarrow> nat \<Rightarrow> u64" where
  "tx_desc_word S j = own_bit OR (if j = 0 then 8 else 0) OR (if Suc j = S then 4 else 0)"

lemma enqueue_check_loop_ok:
  assumes "ring_wf b q"
  shows "\<exists>rc. enqueue_check_loop q (of_nat (slot t k)) n = Some rc \<and>
    rc \<in> {XPNET_OK, XPNET_QUEUE_BUSY, XPNET_QUEUE_ERROR} \<and>
    (rc = XPNET_OK \<longleftrightarrow> (\<forall>j\<in>{k..<k + n}. tx_desc_free q (slot t j)))"
proof (induction n arbitrary: k)
  case (Suc n)
  obtain v where v: "desc_get q (slot t k) = Some v"
    using ring.rd_total [OF assms slot_lt] by blast
  have "{k..<k + Suc n} = insert k {Suc k..<Suc k + n}"
    by auto
  then show ?case
    using Suc.IH [of "Suc k"] v assms by (auto simp: slot_word slot_Suc tx_desc_free_def)
qed simp

definition fill_desc :: "xpnet_queue_struct \<Rightarrow> nat \<Rightarrow> xpnet_descriptor \<Rightarrow> xpnet_descriptor" where
  "fill_desc q i v =
     v\<lparr>qword2 := shard_dma (buf_sta (xpq_desc_meta q ! i)), qword1 := scast (shard_len (buf_sta (xpq_desc_meta q ! i))),
       qword0 := (if i = unat (q_tail q) then push_bit 3 1 else own_bit)\<rparr>"

lemma enqueue_fill_loop_seq:
  assumes "xpq_num_desc q = 10" "length (xpq_desc_meta q) = 10"
  shows "enqueue_fill_loop q lst (of_nat (slot t k)) n =
    map_option (Pair (if n = 0 then lst else of_nat (slot t (k + n - 1))))
      (upd_seq desc_get desc_set (fill_desc q) (map (slot t) [k..<k + n]) q)"
  using assms
proof (induction n arbitrary: k q lst)
  case 0
  then show ?case
    by simp
next
  case (Suc n)
  have u: "map (slot t) [k..<k + Suc n] = slot t k # map (slot t) [Suc k..<Suc k + n]"
    by (simp add: upt_conv_Cons del: upt_Suc)
  have f: "fill_desc q' = fill_desc q" if "desc_set q i v = Some q'" for q' i v
    using desc_set_frame [OF that] by (auto simp: fill_desc_def fun_eq_iff)
  have tl: "(of_nat (slot t k) = q_tail q) = (slot t k = unat (q_tail q))"
    by (simp add: word_unat_eq_iff slot_word)
  let ?v = "\<lambda>v. v\<lparr>qword2 := shard_dma (buf_sta (xpq_desc_meta q ! slot t k)),
      qword1 := scast (shard_len (buf_sta (xpq_desc_meta q ! slot t k))),
      qword0 := (if of_nat (slot t k) = q_tail q then push_bit 3 1 else own_bit)\<rparr>"
  have v: "?v v = fill_desc q (slot t k) v" for v
    by (simp only: fill_desc_def tl)
  have "enqueue_fill_loop q lst (of_nat (slot t k)) (Suc n) =
      do { v \<leftarrow> desc_get q (slot t k); q \<leftarrow> desc_set q (slot t k) (?v v);
           enqueue_fill_loop q (of_nat (slot t k)) (xpnet_add_and_wrap (of_nat (slot t k)) 1 (xpq_num_desc q)) n }"
    using Suc.prems by (simp only: enqueue_fill_loop.simps) (simp add: meta_get_def slot_word)
  moreover have "enqueue_fill_loop q1 (of_nat (slot t k)) (xpnet_add_and_wrap (of_nat (slot t k)) 1 (xpq_num_desc q1)) n =
      map_option (Pair (of_nat (slot t (k + n))))
        (upd_seq desc_get desc_set (fill_desc q) (map (slot t) [Suc k..<Suc k + n]) q1)"
    if "desc_set q (slot t k) w = Some q1" for w q1
    using Suc.IH [of q1 "of_nat (slot t k)" "Suc k"] desc_set_frame [OF that] f [OF that] Suc.prems
    by (cases "n = 0") (simp_all add: slot_Suc)
  ultimately show ?case
    unfolding u v by (auto simp: v split: Option.bind_split)
qed

lemma enqueue_fill_loop_ok:
  assumes wf: "ring_wf b q" and S: "0 < S" "S \<le> 10"
  shows "\<exists>q'. enqueue_fill_loop q (q_tail q) (q_tail q) S = Some (of_nat (slot (q_tail q) (S - 1)), q') \<and>
    ring_wf b q' \<and> q'\<lparr>q_va := None\<rparr> = q\<lparr>q_va := None\<rparr> \<and>
    (\<forall>i<10. desc_get q' i = (if i \<in> slots (q_tail q) 0 S then map_option (fill_desc q i) (desc_get q i) else desc_get q i))"
proof -
  have t: "of_nat (slot (q_tail q) 0) = q_tail q"
    using wf by (simp add: slot_0 ring_wf_def)
  have l: "xpq_num_desc q = 10" "length (xpq_desc_meta q) = 10"
    using wf by (simp_all add: ring_wf_def)
  have "inj_on (slot (q_tail q)) {0..<S}"
    using slot_inj [OF _ _ S(2)] by (auto intro: inj_onI)
  then have d: "distinct (map (slot (q_tail q)) [0..<S])" "set (map (slot (q_tail q)) [0..<S]) = slots (q_tail q) 0 S"
    by (simp_all add: distinct_map slots_def)
  obtain q' where "upd_seq desc_get desc_set (fill_desc q) (map (slot (q_tail q)) [0..<S]) q = Some q'"
      "ring_wf b q'" "q'\<lparr>q_va := None\<rparr> = q\<lparr>q_va := None\<rparr>"
      "\<forall>i<10. desc_get q' i = (if i \<in> slots (q_tail q) 0 S then map_option (fill_desc q i) (desc_get q i) else desc_get q i)"
    using ring.upd_seq_ok [OF wf d(1), of "fill_desc q"] slots_lt unfolding d(2) by blast
  then show ?thesis
    using enqueue_fill_loop_seq [OF l, of "q_tail q" "q_tail q" 0 S] S(1) unfolding t by auto
qed

text \<open>
  What a successful enqueue does to the ring: the descriptors of the packet, and only these,
  are filled from their buffers, with start and end marked, and owned by the chip.
\<close>

definition tx_sent :: "xpnet_queue_struct \<Rightarrow> nat \<Rightarrow> xpnet_queue_struct \<Rightarrow> bool" where
  "tx_sent q S q' \<longleftrightarrow>
     (\<forall>j<S. \<exists>v. desc_get q (slot (q_tail q) j) = Some v \<and>
        desc_get q' (slot (q_tail q) j) = Some
          \<lparr>qword0 = tx_desc_word S j,
           qword1 = scast (shard_len (buf_sta (xpq_desc_meta q ! slot (q_tail q) j))),
           qword2 = shard_dma (buf_sta (xpq_desc_meta q ! slot (q_tail q) j)),
           qword3 = qword3 v\<rparr>) \<and>
     (\<forall>i<10. i \<notin> slots (q_tail q) 0 S \<longrightarrow> desc_get q' i = desc_get q i) \<and>
     xpq_desc_meta q' = (xpq_desc_meta q)
       [unat (q_tail q) := (xpq_desc_meta q ! unat (q_tail q))\<lparr>num_shards := of_nat S\<rparr>] \<and>
     q'\<lparr>q_va := None, xpq_desc_meta := []\<rparr> = q\<lparr>q_va := None, xpq_desc_meta := []\<rparr>"

definition tx_doorbell :: "xpnet_private \<Rightarrow> xpnet_queue_struct \<Rightarrow> xp_private \<Rightarrow> bool" where
  "tx_doorbell net q p' \<longleftrightarrow>
     (if hw_flags net AND XPNET_HWFLAG_A0 \<noteq> 0
      then reg64 p' (q_cdp_reg q) (xpq_id q) = q_dma q + of_nat (32 * unat (q_tail q)) \<and>
           reg32 p' (q_cmd_reg q) (xpq_id q) = 8 \<and> (\<exists>m. p' = (pci_priv net)\<lparr>vma := m\<rparr>)
      else p' = pci_priv net)"

lemma scast_index: "(t :: u32) < 10 \<Longrightarrow> scast t * (32 :: u64) = of_nat (32 * unat t)"
proof -
  assume "t < 10"
  then have "sint t = int (unat t)"
    by (intro sint_small) (simp add: unat_lt_10)
  then show ?thesis
    by (simp add: scast_eq)
qed

lemma tx_doorbell_ok:
  assumes "priv_wf (pci_priv net)" "xpq_id q < 64" "q_tail q < 10"
  shows "\<exists>p'. (if hw_flags net AND XPNET_HWFLAG_A0 \<noteq> 0 then
       do { p \<leftarrow> xpnet_set_q_cdp (pci_priv net) q (q_tail q) 0;
            p \<leftarrow> xpnet_queue_en_dis p q 1 0 0;
            Some (XPNET_OK, p, q) }
     else Some (XPNET_OK, pci_priv net, q)) = Some (XPNET_OK, p', q) \<and> tx_doorbell net q p'"
proof (cases "hw_flags net AND XPNET_HWFLAG_A0 = 0")
  case True
  then show ?thesis
    by (simp add: tx_doorbell_def)
next
  case False
  let ?a = "q_dma q + of_nat (32 * unat (q_tail q))"
  let ?p1 = "(pci_priv net)\<lparr>vma := put_words (vma (pci_priv net))
      (unat (q_reg_addr (mode (pci_priv net)) (q_cdp_reg q) (xpq_id q))) [lo32 ?a, hi32 ?a]\<rparr>"
  let ?p2 = "?p1\<lparr>vma := put_word (vma ?p1) (unat (q_reg_addr (mode ?p1) (q_cmd_reg q) (xpq_id q))) 8\<rparr>"
  have "xpnet_set_q_cdp (pci_priv net) q (q_tail q) 0 = Some ?p1"
    using xpnet_set_q_cdp_ok [OF assms(1) lock_ok_raw assms(2), of "q_tail q"] scast_index [OF assms(3)] by simp
  moreover have "xpnet_queue_en_dis ?p1 q 1 0 0 = Some ?p2"
    using xpnet_queue_en_dis_ok [of ?p1 0 q 1 0] assms(1,2) by (simp add: cmd_value_def)
  moreover have "reg64 ?p2 (q_cdp_reg q) (xpq_id q) = ?a"
  proof -
    have "reg64 ?p2 (q_cdp_reg q) (xpq_id q) = reg64 ?p1 (q_cdp_reg q) (xpq_id q)"
      using assms(2) unfolding put_word_put_words
      by (intro reg64_write_other) (auto simp: q_cdp_reg_def q_cmd_reg_def is_q_reg_def)
    also have "\<dots> = ?a"
      by (rule reg64_write_same)
    finally show ?thesis .
  qed
  moreover have "reg32 ?p2 (q_cmd_reg q) (xpq_id q) = 8"
    by (rule reg32_write_same)
  ultimately show ?thesis
    using False by (intro exI [of _ ?p2]) (auto simp: tx_doorbell_def)
qed

lemma ring_wf_num_shards:
  "ring_wf b q \<Longrightarrow> i < 10 \<Longrightarrow>
   ring_wf b (q\<lparr>xpq_desc_meta := (xpq_desc_meta q)[i := (xpq_desc_meta q ! i)\<lparr>num_shards := n\<rparr>]\<rparr>)"
  by (auto simp: ring_wf_def meta_ok_def nth_list_update)

lemma desc_get_num_shards:
  "i < 10 \<Longrightarrow> length (xpq_desc_meta q) = 10 \<Longrightarrow>
   desc_get (q\<lparr>xpq_desc_meta := (xpq_desc_meta q)[i := (xpq_desc_meta q ! i)\<lparr>num_shards := n\<rparr>]\<rparr>) j = desc_get q j"
  by (auto simp: desc_get_def meta_get_def arr_get_def nth_list_update)

lemma tx_desc_word_of_fill:
  assumes "j < S"
  shows "(if j = 0 then ((if Suc j = S then 8 OR 4 else 8) OR own_bit)
          else if Suc j = S then own_bit OR 4 else own_bit) = tx_desc_word S j"
  by (auto simp: tx_desc_word_def own_bit_def BITOFF_OWNERSHIP_def)

text \<open>The three descriptor writes after the fill loop, seen through the descriptors of the packet.\<close>

lemma enqueue_marks_ok:
  assumes wf: "ring_wf b q" and S: "0 < S" "S \<le> 10"
  shows "\<exists>q1 v1 q2 v2 q3. enqueue_fill_loop q (q_tail q) (q_tail q) S = Some (of_nat (slot (q_tail q) (S - 1)), q1) \<and>
    desc_get q1 (slot (q_tail q) (S - 1)) = Some v1 \<and>
    desc_set q1 (slot (q_tail q) (S - 1)) (v1\<lparr>qword0 := qword0 v1 OR 4\<rparr>) = Some q2 \<and>
    xpq_desc_meta q2 = xpq_desc_meta q \<and> q_tail q2 = q_tail q \<and>
    desc_get (q2\<lparr>xpq_desc_meta := (xpq_desc_meta q)[unat (q_tail q) := (xpq_desc_meta q ! unat (q_tail q))\<lparr>num_shards := of_nat S\<rparr>]\<rparr>)
      (unat (q_tail q)) = Some v2 \<and>
    desc_set (q2\<lparr>xpq_desc_meta := (xpq_desc_meta q)[unat (q_tail q) := (xpq_desc_meta q ! unat (q_tail q))\<lparr>num_shards := of_nat S\<rparr>]\<rparr>)
      (unat (q_tail q)) (v2\<lparr>qword0 := qword0 v2 OR own_bit\<rparr>) = Some q3 \<and>
    ring_wf b q3 \<and> tx_sent q S q3"
proof -
  let ?t = "unat (q_tail q)" and ?l = "slot (q_tail q) (S - 1)"
  have t0: "slot (q_tail q) 0 = ?t" and t: "?t < 10"
    using wf by (simp_all add: slot_0 ring_wf_def unat_lt_10)
  obtain q1 where q1: "enqueue_fill_loop q (q_tail q) (q_tail q) S = Some (of_nat ?l, q1)"
      "ring_wf b q1" "q1\<lparr>q_va := None\<rparr> = q\<lparr>q_va := None\<rparr>"
    and r1: "\<And>i. i < 10 \<Longrightarrow> desc_get q1 i =
        (if i \<in> slots (q_tail q) 0 S then map_option (fill_desc q i) (desc_get q i) else desc_get q i)"
    using enqueue_fill_loop_ok [OF wf S] by blast
  obtain v1 q2 where q2: "desc_get q1 ?l = Some v1" "desc_set q1 ?l (v1\<lparr>qword0 := qword0 v1 OR 4\<rparr>) = Some q2"
      "ring_wf b q2" "q2\<lparr>q_va := None\<rparr> = q1\<lparr>q_va := None\<rparr>"
    and r2: "\<And>i. i < 10 \<Longrightarrow> desc_get q2 i = (if i = ?l then Some (v1\<lparr>qword0 := qword0 v1 OR 4\<rparr>) else desc_get q1 i)"
    using ring.upd_one [OF q1(2) slot_lt, of "q_tail q" "S - 1" "\<lambda>v. v\<lparr>qword0 := qword0 v OR 4\<rparr>"] by auto
  note f = frame_fields [OF q1(3)] frame_fields [OF q2(4)]
  let ?q2 = "q2\<lparr>xpq_desc_meta := (xpq_desc_meta q)[?t := (xpq_desc_meta q ! ?t)\<lparr>num_shards := of_nat S\<rparr>]\<rparr>"
  have wf2: "ring_wf b ?q2" and g2: "desc_get ?q2 i = desc_get q2 i" for i
    using ring_wf_num_shards [OF q2(3) t, of "of_nat S"] desc_get_num_shards [OF t, of q2 "of_nat S"] q2(3) f
    by (simp_all add: ring_wf_def)
  obtain v2 q3 where q3: "desc_get ?q2 ?t = Some v2" "desc_set ?q2 ?t (v2\<lparr>qword0 := qword0 v2 OR own_bit\<rparr>) = Some q3"
      "ring_wf b q3" "q3\<lparr>q_va := None\<rparr> = ?q2\<lparr>q_va := None\<rparr>"
    and r3: "\<And>i. i < 10 \<Longrightarrow> desc_get q3 i = (if i = ?t then Some (v2\<lparr>qword0 := qword0 v2 OR own_bit\<rparr>) else desc_get ?q2 i)"
    using ring.upd_one [OF wf2 t, of "\<lambda>v. v\<lparr>qword0 := qword0 v OR own_bit\<rparr>"] by auto
  have sent: "\<exists>v. desc_get q (slot (q_tail q) j) = Some v \<and> desc_get q3 (slot (q_tail q) j) = Some
        \<lparr>qword0 = tx_desc_word S j, qword1 = scast (shard_len (buf_sta (xpq_desc_meta q ! slot (q_tail q) j))),
         qword2 = shard_dma (buf_sta (xpq_desc_meta q ! slot (q_tail q) j)), qword3 = qword3 v\<rparr>" if j: "j < S" for j
  proof -
    let ?j = "slot (q_tail q) j"
    obtain v where v: "desc_get q ?j = Some v"
      using ring.rd_total [OF wf slot_lt] by blast
    have in_slots: "?j \<in> slots (q_tail q) 0 S"
      using j by (auto simp: slots_def)
    have first: "?j = ?t \<longleftrightarrow> j = 0" and final: "?j = ?l \<longleftrightarrow> Suc j = S"
      using slot_inj [OF j S(1) S(2), of "q_tail q"] slot_inj [OF j _ S(2), of "S - 1" "q_tail q"] S j
      by (auto simp: t0)
    have g1: "desc_get q1 ?j = Some (fill_desc q ?j v)"
      using r1 [OF slot_lt, of "q_tail q" j] in_slots v by simp
    have "desc_get q2 ?j = Some (if Suc j = S then (fill_desc q ?j v)\<lparr>qword0 := qword0 (fill_desc q ?j v) OR 4\<rparr>
        else fill_desc q ?j v)"
    proof (cases "Suc j = S")
      case True
      then have "v1 = fill_desc q ?j v"
        using final g1 q2(1) by simp
      then show ?thesis
        using r2 [OF slot_lt, of "q_tail q" j] final True by simp
    next
      case False
      then show ?thesis
        using r2 [OF slot_lt, of "q_tail q" j] final g1 by simp
    qed
    then have "desc_get q3 ?j = Some ((fill_desc q ?j v)\<lparr>qword0 := tx_desc_word S j\<rparr>)"
      using r3 [OF slot_lt, of "q_tail q" j] g2 q3(1) first tx_desc_word_of_fill [OF j]
      by (auto simp: fill_desc_def)
    then show ?thesis
      using v by (cases v) (simp add: fill_desc_def)
  qed
  moreover have "desc_get q3 i = desc_get q i" if "i < 10" "i \<notin> slots (q_tail q) 0 S" for i
  proof -
    have "i \<noteq> ?l" "i \<noteq> ?t"
      using that(2) S unfolding t0 [symmetric] slots_def by auto
    then show ?thesis
      using r1 [OF that(1)] r2 [OF that(1)] r3 [OF that(1)] g2 that(2) by simp
  qed
  moreover have "q3\<lparr>q_va := None, xpq_desc_meta := []\<rparr> = q\<lparr>q_va := None, xpq_desc_meta := []\<rparr>"
    using arg_cong [OF q3(4), of "xpq_desc_meta_update (\<lambda>_. [])"] arg_cong [OF q2(4), of "xpq_desc_meta_update (\<lambda>_. [])"]
      arg_cong [OF q1(3), of "xpq_desc_meta_update (\<lambda>_. [])"]
    by simp
  ultimately have "tx_sent q S q3"
    using frame_fields(1) [OF q3(4)] by (simp add: tx_sent_def)
  then show ?thesis
    using q1(1) q2(1,2) q3(1-3) f by auto
qed

lemma xpnet_skb_stat_enqueue_ok:
  assumes wf: "ring_wf b q" and S: "0 < S" "S \<le> 10"
    and p: "priv_wf (pci_priv net)" "xpq_id q < 64"
  shows "\<exists>rc p' q'. xpnet_skb_stat_enqueue net q S = Some (rc, p', q') \<and>
    rc \<in> {XPNET_OK, XPNET_QUEUE_BUSY, XPNET_QUEUE_ERROR} \<and>
    (if \<forall>j<S. tx_desc_free q (slot (q_tail q) j)
     then rc = XPNET_OK \<and> ring_wf b q' \<and> tx_sent q S q' \<and> tx_doorbell net q' p'
     else rc \<noteq> XPNET_OK \<and> p' = pci_priv net \<and> q' = q)"
proof -
  let ?t = "unat (q_tail q)"
  have t: "of_nat (slot (q_tail q) 0) = q_tail q" "?t < 10"
    using wf by (simp_all add: slot_0 ring_wf_def unat_lt_10)
  obtain rc where rc: "enqueue_check_loop q (q_tail q) S = Some rc"
      "rc \<in> {XPNET_OK, XPNET_QUEUE_BUSY, XPNET_QUEUE_ERROR}"
      "rc = XPNET_OK \<longleftrightarrow> (\<forall>j<S. tx_desc_free q (slot (q_tail q) j))"
    using enqueue_check_loop_ok [OF wf, of "q_tail q" 0 S] unfolding t(1) by (auto simp: Ball_def)
  show ?thesis
  proof (cases "rc = XPNET_OK")
    case False
    then show ?thesis
      using rc by (auto simp: xpnet_skb_stat_enqueue_def)
  next
    case True
    obtain q1 v1 q2 v2 q3 where m: "enqueue_fill_loop q (q_tail q) (q_tail q) S = Some (of_nat (slot (q_tail q) (S - 1)), q1)"
        "desc_get q1 (slot (q_tail q) (S - 1)) = Some v1"
        "desc_set q1 (slot (q_tail q) (S - 1)) (v1\<lparr>qword0 := qword0 v1 OR 4\<rparr>) = Some q2"
        "xpq_desc_meta q2 = xpq_desc_meta q" "q_tail q2 = q_tail q"
        "desc_get (q2\<lparr>xpq_desc_meta := (xpq_desc_meta q)[?t := (xpq_desc_meta q ! ?t)\<lparr>num_shards := of_nat S\<rparr>]\<rparr>) ?t = Some v2"
        "desc_set (q2\<lparr>xpq_desc_meta := (xpq_desc_meta q)[?t := (xpq_desc_meta q ! ?t)\<lparr>num_shards := of_nat S\<rparr>]\<rparr>) ?t
          (v2\<lparr>qword0 := qword0 v2 OR own_bit\<rparr>) = Some q3"
        "ring_wf b q3" "tx_sent q S q3"
      using enqueue_marks_ok [OF wf S] by blast
    have q3: "xpq_id q3 = xpq_id q" "q_tail q3 = q_tail q"
      by (cases q; cases q3; use m(9) in \<open>simp add: tx_sent_def\<close>)+
    obtain p' where p': "(if hw_flags net AND XPNET_HWFLAG_A0 \<noteq> 0 then
         do { p \<leftarrow> xpnet_set_q_cdp (pci_priv net) q3 (q_tail q3) 0;
              p \<leftarrow> xpnet_queue_en_dis p q3 1 0 0;
              Some (XPNET_OK, p, q3) }
       else Some (XPNET_OK, pci_priv net, q3)) = Some (XPNET_OK, p', q3)" "tx_doorbell net q3 p'"
      using tx_doorbell_ok [OF p(1), of q3] p(2) q3 m(8) by (auto simp: ring_wf_def)
    have l: "length (xpq_desc_meta q) = 10"
      using wf by (simp add: ring_wf_def)
    have "xpnet_skb_stat_enqueue net q S = Some (XPNET_OK, p', q3)"
      using rc(1) True m t(2) p'(1) q3 l
      by (simp add: xpnet_skb_stat_enqueue_def slot_word meta_get_def meta_set_def del: if_split_asm split del: if_split)
    then show ?thesis
      using True rc m p'(2) by auto
  qed
qed

subsection \<open>Transmitting one packet\<close>

text \<open>
  A TX queue in operation. The packet is linear: its bytes are there when the kernel says it
  has no fragments.
\<close>

definition tx_q_ok :: "xpnet_queue_struct \<Rightarrow> bool" where
  "tx_q_ok q \<longleftrightarrow> ring_wf PAGE_SIZE q \<and> \<not> xpq_lock q \<and> xpq_id q < 64 \<and> xpq_type q = XPNET_QUEUE_TYPE_TX"

definition skb_wf :: "sk_buff \<Rightarrow> bool" where
  "skb_wf skb \<longleftrightarrow> (skb_data_len skb = 0 \<longrightarrow> unat (skb_len skb) \<le> length (skb_data skb))"

text \<open>The tests of \<open>xpnet_hard_start_xmit\<close> that lead to a drop, and to a busy return before any copy.\<close>

definition tx_refused :: "xpnet_queue_struct \<Rightarrow> sk_buff \<Rightarrow> bool" where
  "tx_refused q skb \<longleftrightarrow>
     skb_len skb = 0 \<or> unat (skb_len skb) > 4096 * unat (xpnet_get_free_desc q) \<or> skb_data_len skb \<noteq> 0"

lemma free_desc_bytes:
  assumes "ring_wf b q"
  shows "unat (xpnet_get_free_desc q * of_nat XPNET_MAX_DMA_SEGMENT_SIZE) = 4096 * unat (xpnet_get_free_desc q)"
    "unat (xpnet_get_free_desc q) \<le> 9"
proof -
  show le: "unat (xpnet_get_free_desc q) \<le> 9"
    using free_plus_busy [of q] assms by simp
  then show "unat (xpnet_get_free_desc q * of_nat XPNET_MAX_DMA_SEGMENT_SIZE) = 4096 * unat (xpnet_get_free_desc q)"
    by (simp add: XPNET_MAX_DMA_SEGMENT_SIZE_def unat_word_ariths)
qed

lemma hard_start_xmit_drop:
  assumes "n < length (tx_queue net)" "q = tx_queue net ! n" "ring_wf b q" "\<not> xpq_lock q"
    "q_status q = XPNET_QUEUE_ACTIVE" "xpnet_get_free_desc q \<noteq> 0" "tx_refused q skb"
  shows "xpnet_hard_start_xmit stale (Some skb) net n = Some (tx_drop (tx_error net))"
  using assms free_desc_bytes [OF assms(3)]
  by (auto simp: xpnet_hard_start_xmit_def tx_refused_def word_less_nat_alt)

lemma hard_start_xmit_reaches_copy:
  assumes "n < length (tx_queue net)" "q = tx_queue net ! n" "tx_q_ok q" "q_status q = XPNET_QUEUE_ACTIVE"
    "xpnet_get_free_desc q \<noteq> 0" "\<not> tx_refused q skb" "tx_desc_free q (unat (q_tail q))" "skb_wf skb"
    "S = num_shards_for (unat (skb_len skb))"
  shows "\<exists>q1. xpnet_hard_start_xmit stale (Some skb) net n =
      map_option (tx_finish stale skb net n S) (xpnet_skb_stat_enqueue net q1 S) \<and>
    0 < S \<and> S \<le> unat (xpnet_get_free_desc q) \<and> tx_q_ok q1 \<and> bufs_only q q1 \<and>
    (\<forall>j<S. holds_shard (mode (pci_priv net)) (shard_payload (take (unat (skb_len skb)) (skb_data skb)) j)
             (xpq_desc_meta q1 ! slot (q_tail q) j)) \<and>
    (\<forall>i<10. i \<notin> slots (q_tail q) 0 S \<longrightarrow> xpq_desc_meta q1 ! i = xpq_desc_meta q ! i)"
proof -
  let ?L = "unat (skb_len skb)"
  have wf: "ring_wf PAGE_SIZE q"
    using assms(3) by (simp add: tx_q_ok_def)
  note fb = free_desc_bytes [OF wf]
  have L: "0 < ?L" "?L \<le> 4096 * unat (xpnet_get_free_desc q)" "skb_data_len skb = 0" "?L \<le> length (skb_data skb)"
    using assms(6,8) by (simp_all add: tx_refused_def skb_wf_def unat_gt_0)
  have S: "0 < S" "S \<le> unat (xpnet_get_free_desc q)"
    using L(1,2) unfolding assms(9) num_shards_for_def by (simp_all add: div_greater_zero_iff less_mult_imp_div_less Suc_leI div_le_mono)
  obtain q1 where q1: "xpnet_skb_to_shards skb q (mode (pci_priv net)) = Some (S, q1)" "ring_wf PAGE_SIZE q1" "bufs_only q q1"
      "\<forall>j<S. holds_shard (mode (pci_priv net)) (shard_payload (take ?L (skb_data skb)) j) (xpq_desc_meta q1 ! slot (q_tail q) j)"
      "\<forall>i<10. i \<notin> slots (q_tail q) 0 S \<longrightarrow> xpq_desc_meta q1 ! i = xpq_desc_meta q ! i"
    using xpnet_skb_to_shards_ok [OF wf refl L(4), of "mode (pci_priv net)"] L(2) fb(2) unfolding assms(9) by auto
  have "tx_q_ok q1"
    using q1(2) assms(3) bufs_only_fields [OF q1(3)] by (simp add: tx_q_ok_def)
  moreover have "\<not> (skb_len skb = 0 \<or> skb_len skb > xpnet_get_free_desc q * of_nat XPNET_MAX_DMA_SEGMENT_SIZE)"
    using L(1,2) fb(1) by (auto simp: word_less_nat_alt unat_gt_0)
  ultimately show ?thesis
    using assms(1-5,7) q1 S L(3) wf
    by (intro exI [of _ q1]) (auto simp: xpnet_hard_start_xmit_def tx_desc_free_def tx_q_ok_def)
qed

text \<open>The ways through \<open>xpnet_hard_start_xmit\<close>.\<close>

lemma hard_start_xmit_cases:
  assumes "n < length (tx_queue net)" "q = tx_queue net ! n" "tx_q_ok q" "\<forall>skb. skb_ptr = Some skb \<longrightarrow> skb_wf skb"
  obtains (dropped) st where "xpnet_hard_start_xmit stale skb_ptr net n = Some (NETDEV_TX_OK, True, net\<lparr>stats := st\<rparr>)"
  | (busy) "xpnet_hard_start_xmit stale skb_ptr net n = Some (NETDEV_TX_BUSY, False, net)"
  | (enqueue) skb q1 S where "skb_ptr = Some skb" "0 < S" "S \<le> 9" "tx_q_ok q1" "bufs_only q q1"
      "xpnet_hard_start_xmit stale skb_ptr net n =
         map_option (tx_finish stale skb net n S) (xpnet_skb_stat_enqueue net q1 S)"
proof -
  have wf: "ring_wf PAGE_SIZE q" "\<not> xpq_lock q" "unat (q_tail q) < 10"
    using assms(3) by (simp_all add: tx_q_ok_def ring_wf_def unat_lt_10)
  consider "q_status q \<noteq> XPNET_QUEUE_ACTIVE \<or> skb_ptr = None"
    | skb where "q_status q = XPNET_QUEUE_ACTIVE" "skb_ptr = Some skb"
    by (cases skb_ptr) auto
  then show ?thesis
  proof cases
    case 1
    then show ?thesis
      using assms(1,2) wf(2)
      by (intro dropped [of "if q_status q \<noteq> XPNET_QUEUE_ACTIVE then stats (snd (snd (tx_drop (tx_error net))))
            else stats (snd (snd (tx_drop net)))"])
        (auto simp: xpnet_hard_start_xmit_def tx_drop_def tx_error_def)
  next
    case 2
    consider "xpnet_get_free_desc q = 0" | "xpnet_get_free_desc q \<noteq> 0" "tx_refused q skb"
      | "xpnet_get_free_desc q \<noteq> 0" "\<not> tx_refused q skb" "\<not> tx_desc_free q (unat (q_tail q))"
      | "xpnet_get_free_desc q \<noteq> 0" "\<not> tx_refused q skb" "tx_desc_free q (unat (q_tail q))"
      by blast
    then show ?thesis
    proof cases
      case c: 1
      then show ?thesis
        using 2 assms(1,2) wf(1,2) by (intro busy) (simp add: xpnet_hard_start_xmit_def)
    next
      case c: 2
      then show ?thesis
        using 2 hard_start_xmit_drop [OF assms(1,2) wf(1,2) 2(1) c, of stale]
        by (intro dropped [of "stats (snd (snd (tx_drop (tx_error net))))"]) (simp add: tx_drop_def tx_error_def)
    next
      case c: 3
      obtain v where "desc_get q (unat (q_tail q)) = Some v" "hw_owns v \<or> desc_error v"
        using ring.rd_total [OF wf(1,3)] c(3) by (auto simp: tx_desc_free_def)
      then show ?thesis
        using 2 assms(1,2) wf(1,2) c(1,2) free_desc_bytes [OF wf(1)]
        by (intro busy) (auto simp: xpnet_hard_start_xmit_def tx_refused_def word_less_nat_alt)
    next
      case c: 4
      show ?thesis
        using hard_start_xmit_reaches_copy [OF assms(1-3) 2(1) c _ refl, of stale] assms(4) 2(2)
          free_desc_bytes(2) [OF wf(1)] enqueue [of skb "num_shards_for (unat (skb_len skb))"]
        by (metis (no_types, lifting) order_trans)
    qed
  qed
qed

subsection \<open>Reclaiming descriptors\<close>

text \<open>
  The chip keeps to the descriptor area and never takes back a descriptor it has released
  (the ownership protocol of the DMA engine).
\<close>

definition chip_ok :: "(nat \<Rightarrow> xpnet_descriptor list \<Rightarrow> xpnet_descriptor list) \<Rightarrow> bool" where
  "chip_ok chip \<longleftrightarrow>
     (\<forall>t area. length (chip t area) = length area \<and>
        (\<forall>i<length area. hw_owns (chip t area ! i) \<longrightarrow> hw_owns (area ! i)))"

definition released :: "xpnet_queue_struct \<Rightarrow> nat \<Rightarrow> bool" where
  "released q i \<longleftrightarrow> (\<exists>v. desc_get q i = Some v \<and> \<not> hw_owns v)"

text \<open>Progress of the reclaiming loop: only the area and the head change, releases stay.\<close>

definition reclaim_step :: "nat \<Rightarrow> xpnet_queue_struct \<Rightarrow> xpnet_queue_struct \<Rightarrow> bool" where
  "reclaim_step b q q' \<longleftrightarrow>
     ring_wf b q' \<and> q'\<lparr>q_va := None, q_head := 0\<rparr> = q\<lparr>q_va := None, q_head := 0\<rparr> \<and>
     (\<forall>i<10. released q i \<longrightarrow> released q' i)"

lemma reclaim_step_trans: "reclaim_step b q1 q2 \<Longrightarrow> reclaim_step b q2 q3 \<Longrightarrow> reclaim_step b q1 q3"
  by (simp add: reclaim_step_def)

lemma reclaim_step_fields:
  assumes "reclaim_step b q q'"
  shows "xpq_num_desc q' = xpq_num_desc q" "q_tail q' = q_tail q" "xpq_lock q' = xpq_lock q" "xpq_id q' = xpq_id q"
    "xpq_type q' = xpq_type q" "q_status q' = q_status q" "xpq_desc_meta q' = xpq_desc_meta q" "q_dma q' = q_dma q"
  by (cases q; cases q'; use assms in \<open>simp add: reclaim_step_def\<close>)+

lemma chip_step_reclaim:
  assumes "chip_ok chip" "ring_wf b q"
  shows "reclaim_step b q (chip_step chip t q)" "q_head (chip_step chip t q) = q_head q"
proof -
  obtain area where a: "q_va q = Some area" "10 \<le> length area"
    using assms(2) by (auto simp: ring_wf_def)
  have g: "desc_get q i = Some (area ! i)" "desc_get (chip_step chip t q) i = Some (chip t area ! i)" if "i < 10" for i
    using ring_wf_meta_ok [OF assms(2) that] ring_wf_meta [OF assms(2) that] a assms(1) that
    by (auto simp: desc_get_def meta_ok_def chip_step_def chip_ok_def meta_get_def)
  have "released (chip_step chip t q) i" if "i < 10" "released q i" for i
    using g [OF that(1)] that a(2) assms(1) by (auto simp: released_def chip_ok_def)
  moreover have "ring_wf b (chip_step chip t q)"
    using assms a by (auto simp: ring_wf_def chip_step_def chip_ok_def)
  ultimately show "reclaim_step b q (chip_step chip t q)" "q_head (chip_step chip t q) = q_head q"
    by (simp_all add: reclaim_step_def chip_step_def)
qed

lemma tx_poll_loop_ok:
  assumes "chip_ok chip" "h < 10"
  shows "ring_wf b q \<Longrightarrow> \<exists>t' q'. tx_poll_loop chip t q h k = Some (t', q') \<and> reclaim_step b q q' \<and>
    q_head q' = q_head q \<and> t' \<le> t + k"
proof (induction k arbitrary: t q)
  case 0
  then show ?case
    by (simp add: reclaim_step_def)
next
  case (Suc k)
  obtain v where v: "desc_get q h = Some v"
    using ring.rd_total [OF Suc.prems assms(2)] by blast
  show ?case
  proof (cases "hw_owns v")
    case False
    then show ?thesis
      using v Suc.prems by (simp add: reclaim_step_def)
  next
    case True
    note s = chip_step_reclaim [OF assms(1) Suc.prems, of t]
    obtain t' q' where "tx_poll_loop chip (Suc t) (chip_step chip t q) h k = Some (t', q')"
        "reclaim_step b (chip_step chip t q) q'" "q_head q' = q_head q" "t' \<le> Suc t + k"
      using Suc.IH [of "chip_step chip t q" "Suc t"] s by (auto simp: reclaim_step_def)
    then show ?thesis
      using v True reclaim_step_trans [OF s(1)] by simp
  qed
qed

lemma desc_get_indices [simp]:
  "desc_get (q\<lparr>q_head := h\<rparr>) i = desc_get q i" "desc_get (q\<lparr>q_tail := h\<rparr>) i = desc_get q i"
  by (simp_all add: desc_get_def meta_get_def)

lemma head_step: "h < 10 \<Longrightarrow> xpnet_add_and_wrap h 1 10 = of_nat (slot h 1)"
  using slot_Suc [of h 0] by (simp add: slot_0)

lemma add_slots: "t < 10 \<Longrightarrow> S \<le> 10 \<Longrightarrow> xpnet_add_and_wrap t (of_nat S) 10 = of_nat (slot t S)"
  using unat_add_and_wrap [of t "of_nat S"] slot_word(1) [of t S]
  by (simp add: word_unat_eq_iff unat_of_nat) (simp add: slot_def)

lemma slot_add: "slot (of_nat (slot h a)) c = slot h (a + c)"
  by (simp add: slot_word slot_def [of "of_nat _"]) (simp add: slot_def mod_add_left_eq add.assoc)

lemma tx_complete_loop_ok:
  assumes "chip_ok chip"
  shows "ring_wf b q \<Longrightarrow> \<exists>t' q' c. tx_complete_loop chip t q (q_head q) tail k = Some (t', q') \<and>
    reclaim_step b q q' \<and> c \<le> k \<and> q_head q' = of_nat (slot (q_head q) c) \<and>
    (\<forall>j\<in>{1..c}. released q' (slot (q_head q) j))"
proof (induction k arbitrary: t q)
  case 0
  then have "of_nat (slot (q_head q) 0) = q_head q"
    by (simp add: slot_0 ring_wf_def)
  with 0 show ?case
    by (auto simp: reclaim_step_def intro: exI [of _ 0])
next
  case (Suc k)
  let ?h = "slot (q_head q) 1"
  have stay: "of_nat (slot (q_head q) 0) = q_head q"
    using Suc.prems by (simp add: slot_0 ring_wf_def)
  have hd: "xpnet_add_and_wrap (q_head q) 1 (xpq_num_desc q) = of_nat ?h"
    using Suc.prems by (simp add: head_step ring_wf_def)
  obtain v where v: "desc_get q ?h = Some v"
    using ring.rd_total [OF Suc.prems slot_lt] by blast
  have same: ?case if "tx_complete_loop chip t q (q_head q) tail (Suc k) = Some (t', q')" "reclaim_step b q q'"
      "q_head q' = q_head q" for t' q'
    using that stay by (intro exI [of _ t'] exI [of _ q'] exI [of _ 0]) auto
  have refl: "reclaim_step b q q"
    using Suc.prems by (simp add: reclaim_step_def)
  show ?case
  proof (cases "of_nat ?h = tail \<or> desc_error v")
    case True
    show ?thesis
      by (rule same [of t q, OF _ refl]) (use True v hd in \<open>auto simp: slot_word Let_def\<close>)
  next
    case False
    obtain t1 q1 where p: "tx_poll_loop chip t q ?h XPNET_MAX_ATTEMPTS = Some (t1, q1)" "reclaim_step b q q1" "q_head q1 = q_head q"
      using tx_poll_loop_ok [OF assms slot_lt Suc.prems] by blast
    have wf1: "ring_wf b q1"
      using p(2) by (simp add: reclaim_step_def)
    obtain v1 where v1: "desc_get q1 ?h = Some v1"
      using ring.rd_total [OF wf1 slot_lt] by blast
    show ?thesis
    proof (cases "hw_owns v1")
      case True
      show ?thesis
        by (rule same [OF _ p(2,3)]) (use True False v v1 p hd in \<open>simp add: slot_word Let_def\<close>)
    next
      case rel: False
      let ?q2 = "q1\<lparr>q_head := of_nat ?h\<rparr>"
      have wf2: "ring_wf b ?q2"
        using wf1 by (simp add: ring_wf_def slot_word)
      have s2: "reclaim_step b q ?q2"
        using p(2) wf2 by (simp add: reclaim_step_def released_def)
      obtain t' q' c where c: "tx_complete_loop chip t1 ?q2 (of_nat ?h) tail k = Some (t', q')" "reclaim_step b ?q2 q'"
          "c \<le> k" "q_head q' = of_nat (slot (q_head q) (Suc c))"
          "\<And>j. j \<in> {1..c} \<Longrightarrow> released q' (slot (q_head q) (Suc j))"
        using Suc.IH [OF wf2, of t1] by (auto simp: slot_add)
      have "tx_complete_loop chip t q (q_head q) tail (Suc k) = tx_complete_loop chip t1 ?q2 (of_nat ?h) tail k"
        using False rel v v1 p(1,3) hd reclaim_step_fields(1) [OF p(2)] by (simp add: slot_word Let_def)
      moreover have "released q' ?h"
        using c(2) rel v1 by (simp add: reclaim_step_def released_def)
      then have "released q' (slot (q_head q) j)" if "j \<in> {1..Suc c}" for j
      proof (cases "j = 1")
        case False
        then have "j - 1 \<in> {1..c}" "Suc (j - 1) = j"
          using that by auto
        then show ?thesis
          using c(5) [of "j - 1"] by simp
      qed (use \<open>released q' ?h\<close> in simp)
      ultimately show ?thesis
        using c reclaim_step_trans [OF s2 c(2)] by (intro exI [of _ t'] exI [of _ q'] exI [of _ "Suc c"]) auto
    qed
  qed
qed

subsection \<open>Properties\<close>

lemma tx_q_ok_idle: "tx_q_ok tx_idle"
  by (simp add: tx_q_ok_def tx_idle_def ring_wf_sample PAGE_SIZE_def)

lemma tx_desc_free_idle: "i < 10 \<Longrightarrow> tx_desc_free tx_idle i"
  by (simp add: tx_desc_free_def tx_idle_def zero_desc_def hw_owns_bit desc_error_bit)

lemma bufs_only_sent:
  assumes "bufs_only q q1" "tx_sent q1 S q'"
  shows "q_tail q' = q_tail q" "q_head q' = q_head q" "xpq_num_desc q' = xpq_num_desc q" "q_dma q' = q_dma q"
    "xpq_id q' = xpq_id q" "xpq_type q' = xpq_type q" "q_status q' = q_status q" "xpq_lock q' = xpq_lock q"
  by (cases q1; cases q'; use bufs_only_fields [OF assms(1)] assms(2) in \<open>simp add: tx_sent_def\<close>)+

lemma sent_entry:
  assumes "tx_sent q1 S q'" "length (xpq_desc_meta q1) = 10"
  shows "buf_sta (xpq_desc_meta q' ! i) = buf_sta (xpq_desc_meta q1 ! i)"
  using assms by (cases "i = unat (q_tail q1)"; cases "i < 10") (auto simp: tx_sent_def nth_list_update list_update_beyond)

lemma payload_length: "length (shard_payload data j) \<le> 4096"
  by (simp add: shard_payload_def)

lemma scast_len: "n \<le> 4096 \<Longrightarrow> scast (of_nat n :: u32) = (of_nat n :: u64)"
proof -
  assume "n \<le> 4096"
  then have "sint (of_nat n :: u32) = int n"
    by (subst sint_small) (simp_all add: unat_of_nat)
  then show ?thesis
    by (simp add: scast_eq)
qed

text \<open>
  C1: A packet that fits is sent. When the queue is active, the packet is linear and fits in the
  free descriptors, and the chip owns none of the descriptors it needs, \<open>xpnet_hard_start_xmit\<close>
  returns \<open>NETDEV_TX_OK\<close> and frees the packet. Every descriptor of the packet is then owned by
  the chip, carries the start mark exactly on the first and the end mark exactly on the last,
  names its buffer and the number of bytes in it, and what the chip reads there is exactly that
  part of the packet (padded to 128 bytes if shorter). All other descriptors are as before, the
  tail moves past the packet, and on A0 chips the queue is pointed at the first descriptor and
  enabled.
\<close>

theorem xmit_sends_packet:
  assumes n: "n < length (tx_queue net)" and q: "q = tx_queue net ! n" "tx_q_ok q" "q_status q = XPNET_QUEUE_ACTIVE"
    and fits: "xpnet_get_free_desc q \<noteq> 0" "\<not> tx_refused q skb" and skb: "skb_wf skb"
    and S: "S = num_shards_for (unat (skb_len skb))"
    and free: "\<forall>j<S. tx_desc_free q (slot (q_tail q) j)" and p: "priv_wf (pci_priv net)"
  shows "\<exists>q' p'. xpnet_hard_start_xmit stale (Some skb) net n =
      Some (NETDEV_TX_OK, True, (tx_q_put (net\<lparr>pci_priv := p'\<rparr>) n q')
        \<lparr>stats := (stats net)\<lparr>tx_packets := tx_packets (stats net) + 1,
                              tx_bytes := tx_bytes (stats net) + ucast (stale skb)\<rparr>\<rparr>) \<and>
    tx_q_ok q' \<and> q_tail q' = of_nat (slot (q_tail q) S) \<and> q_head q' = q_head q \<and>
    (\<forall>j<S. \<exists>v. desc_get q' (slot (q_tail q) j) = Some v \<and> qword0 v = tx_desc_word S j \<and>
       (let bs = shard_payload (take (unat (skb_len skb)) (skb_data skb)) j; d = xpq_desc_meta q' ! slot (q_tail q) j
        in qword1 v = of_nat (length bs) \<and> qword2 v = shard_dma (buf_sta d) \<and>
           holds_shard (mode (pci_priv net)) bs d)) \<and>
    (\<forall>i<10. i \<notin> slots (q_tail q) 0 S \<longrightarrow> desc_get q' i = desc_get q i) \<and>
    (hw_flags net AND XPNET_HWFLAG_A0 \<noteq> 0 \<longrightarrow>
       reg64 p' DMA0_RX_CDP_REG_E (xpq_id q) = q_dma q + of_nat (32 * unat (q_tail q)) \<and>
       reg32 p' DMA0_RX_CMD_REG_E (xpq_id q) = 8)"
proof -
  let ?t = "q_tail q" and ?bs = "shard_payload (take (unat (skb_len skb)) (skb_data skb))"
  have t: "slot ?t 0 = unat ?t"
    using q(2) by (simp add: slot_0 tx_q_ok_def ring_wf_def)
  have "0 < S"
    using fits(2) by (simp add: S num_shards_for_def tx_refused_def unat_gt_0 div_greater_zero_iff Suc_le_eq)
  then have "tx_desc_free q (unat ?t)"
    using free t by auto
  from hard_start_xmit_reaches_copy [OF n q(1,2,3) fits this skb S, of stale]
  obtain q1 where run: "xpnet_hard_start_xmit stale (Some skb) net n =
      map_option (tx_finish stale skb net n S) (xpnet_skb_stat_enqueue net q1 S)"
    and q1: "S \<le> unat (xpnet_get_free_desc q)" "tx_q_ok q1" "bufs_only q q1"
      "\<forall>j<S. holds_shard (mode (pci_priv net)) (?bs j) (xpq_desc_meta q1 ! slot ?t j)"
    by blast
  have S10: "S \<le> 9"
    using q1(1) free_desc_bytes(2) [of PAGE_SIZE q] q(2) by (simp add: tx_q_ok_def)
  note bo = bufs_only_fields [OF q1(3)] bufs_only_desc_get [OF q1(3)]
  have "\<forall>j<S. tx_desc_free q1 (slot (q_tail q1) j)"
    using free bo by (simp add: tx_desc_free_def)
  then obtain p' q2 where e: "xpnet_skb_stat_enqueue net q1 S = Some (XPNET_OK, p', q2)" "ring_wf PAGE_SIZE q2"
      "tx_sent q1 S q2" "tx_doorbell net q2 p'"
    using xpnet_skb_stat_enqueue_ok [of PAGE_SIZE q1 S net] q1(2) \<open>0 < S\<close> S10 p by (auto simp: tx_q_ok_def)
  note f = bufs_only_sent [OF q1(3) e(3)]
  let ?q' = "q2\<lparr>q_tail := xpnet_add_and_wrap (q_tail q2) (of_nat S) (xpq_num_desc q2)\<rparr>"
  have t10: "?t < 10" "xpq_num_desc q = 10" "length (xpq_desc_meta q1) = 10"
    using q(2) q1(2) by (simp_all add: tx_q_ok_def ring_wf_def)
  have tail: "q_tail ?q' = of_nat (slot ?t S)"
    using add_slots [OF t10(1), of S] S10 f t10 by simp
  have "tx_q_ok ?q'"
    using q(2) f e(2) tail by (simp add: tx_q_ok_def ring_wf_def slot_word)
  moreover have "\<exists>v. desc_get ?q' (slot ?t j) = Some v \<and> qword0 v = tx_desc_word S j \<and>
      qword1 v = of_nat (length (?bs j)) \<and> qword2 v = shard_dma (buf_sta (xpq_desc_meta ?q' ! slot ?t j)) \<and>
      holds_shard (mode (pci_priv net)) (?bs j) (xpq_desc_meta ?q' ! slot ?t j)" if "j < S" for j
    using e(3) q1(4) that scast_len [OF payload_length] sent_entry [OF e(3) t10(3)] bo
    by (auto simp: tx_sent_def holds_shard_def)
  moreover have "desc_get ?q' i = desc_get q i" if "i < 10" "i \<notin> slots ?t 0 S" for i
    using e(3) that bo by (simp add: tx_sent_def)
  moreover have "hw_flags net AND XPNET_HWFLAG_A0 \<noteq> 0 \<longrightarrow>
       reg64 p' DMA0_RX_CDP_REG_E (xpq_id q) = q_dma q + of_nat (32 * unat ?t) \<and>
       reg32 p' DMA0_RX_CMD_REG_E (xpq_id q) = 8"
    using e(4) f q(2) by (auto simp: tx_doorbell_def tx_q_ok_def q_cdp_reg_def q_cmd_reg_def)
  ultimately show ?thesis
    using run e(1) tail f(2) by (intro exI [of _ ?q'] exI [of _ p']) (simp add: Let_def tx_q_put_def)
qed

lemma hard_start_xmit_safe:
  assumes "n < length (tx_queue net)" "tx_q_ok (tx_queue net ! n)" "\<forall>skb. skb_ptr = Some skb \<longrightarrow> skb_wf skb"
    "priv_wf (pci_priv net)"
  shows "\<exists>rc freed net' q'. xpnet_hard_start_xmit stale skb_ptr net n = Some (rc, freed, net') \<and>
    (freed \<longleftrightarrow> rc \<noteq> NETDEV_TX_BUSY) \<and> tx_queue net' = (tx_queue net)[n := q'] \<and> tx_q_ok q' \<and>
    rx_queue net' = rx_queue net \<and> priv_wf (pci_priv net') \<and>
    tx_dma_read_lock (pci_priv net') = tx_dma_read_lock (pci_priv net) \<and>
    (rc = NETDEV_TX_BUSY \<longrightarrow> pci_priv net' = pci_priv net \<and> q_tail q' = q_tail (tx_queue net ! n) \<and>
       q_head q' = q_head (tx_queue net ! n) \<and> (\<forall>i<10. desc_get q' i = desc_get (tx_queue net ! n) i))"
proof -
  let ?q = "tx_queue net ! n"
  from assms(1) refl assms(2,3) show ?thesis
  proof (cases rule: hard_start_xmit_cases [where stale = stale])
    case (enqueue skb q1 S)
    obtain rc p' q2 where e: "xpnet_skb_stat_enqueue net q1 S = Some (rc, p', q2)"
        "rc \<in> {XPNET_OK, XPNET_QUEUE_BUSY, XPNET_QUEUE_ERROR}"
        "if \<forall>j<S. tx_desc_free q1 (slot (q_tail q1) j)
         then rc = XPNET_OK \<and> ring_wf PAGE_SIZE q2 \<and> tx_sent q1 S q2 \<and> tx_doorbell net q2 p'
         else rc \<noteq> XPNET_OK \<and> p' = pci_priv net \<and> q2 = q1"
      using xpnet_skb_stat_enqueue_ok [of PAGE_SIZE q1 S net] enqueue(2-4) assms(4) by (auto simp: tx_q_ok_def)
    note bo = bufs_only_fields [OF enqueue(5)] bufs_only_desc_get [OF enqueue(5)]
    show ?thesis
    proof (cases "rc = XPNET_OK")
      case True
      then have s: "ring_wf PAGE_SIZE q2" "tx_sent q1 S q2" "tx_doorbell net q2 p'"
        using e(3) by (auto split: if_splits)
      have "xpnet_add_and_wrap (q_tail q2) (of_nat S) (xpq_num_desc q2) < 10"
        using s(1) enqueue(3) by (simp add: ring_wf_def add_slots slot_word)
      then have "tx_q_ok (q2\<lparr>q_tail := xpnet_add_and_wrap (q_tail q2) (of_nat S) (xpq_num_desc q2)\<rparr>)"
        using s(1) assms(2) bufs_only_sent [OF enqueue(5) s(2)] by (simp add: tx_q_ok_def ring_wf_def)
      moreover have "priv_wf p' \<and> tx_dma_read_lock p' = tx_dma_read_lock (pci_priv net)"
        using s(3) assms(4) by (auto simp: tx_doorbell_def split: if_splits)
      ultimately show ?thesis
        using enqueue(6) e(1) True by (auto simp: tx_q_put_def)
    next
      case False
      then have "p' = pci_priv net" "q2 = q1"
        using e(3) by (auto split: if_splits)
      then show ?thesis
        using enqueue(4,6) e(1,2) False assms(4) bo(2,3,10)
        by (auto simp: tx_q_put_def intro!: exI [of _ q1])
    qed
  qed (use assms in \<open>auto simp: list_update_id intro: exI [of _ ?q]\<close>)
qed

lemma tx_complete_ok:
  assumes "chip_ok chip" "n < length (tx_queue net)" "tx_q_ok (tx_queue net ! n)"
  shows "\<exists>q'. xpnet_tx_complete chip net n k = Some (tx_q_put net n q') \<and> tx_q_ok q' \<and>
    q_status q' = q_status (tx_queue net ! n) \<and> xpq_desc_meta q' = xpq_desc_meta (tx_queue net ! n) \<and>
    (if hw_flags net AND XPNET_HWFLAG_A0 \<noteq> 0 then q_head q' = 9 \<and> q_tail q' = 0
     else q_tail q' = q_tail (tx_queue net ! n) \<and>
       (\<exists>c \<le> min k (unat (xpnet_get_busy_desc (tx_queue net ! n))).
          q_head q' = of_nat (slot (q_head (tx_queue net ! n)) c) \<and>
          (\<forall>j\<in>{1..c}. released q' (slot (q_head (tx_queue net ! n)) j))))"
proof -
  let ?q = "tx_queue net ! n" and ?m = "min k (unat (xpnet_get_busy_desc (tx_queue net ! n)))"
  have wf: "ring_wf PAGE_SIZE ?q" "\<not> xpq_lock ?q" "xpq_num_desc ?q = 10"
    using assms(3) by (simp_all add: tx_q_ok_def ring_wf_def)
  obtain t' q1 c where c: "tx_complete_loop chip 0 ?q (q_head ?q) (q_tail ?q) ?m = Some (t', q1)"
      "reclaim_step PAGE_SIZE ?q q1" "c \<le> ?m" "q_head q1 = of_nat (slot (q_head ?q) c)"
      "\<forall>j\<in>{1..c}. released q1 (slot (q_head ?q) j)"
    using tx_complete_loop_ok [OF assms(1) wf(1)] by blast
  note f = reclaim_step_fields [OF c(2)]
  let ?q' = "if hw_flags net AND XPNET_HWFLAG_A0 \<noteq> 0 then q1\<lparr>q_head := 9, q_tail := 0\<rparr> else q1"
  have "xpnet_tx_complete chip net n k = Some (tx_q_put net n ?q')"
    using assms(2) wf c(1) f(1) by (simp add: xpnet_tx_complete_def)
  moreover have "tx_q_ok ?q'"
    using assms(3) c(2) f by (simp add: tx_q_ok_def reclaim_step_def ring_wf_def)
  ultimately show ?thesis
    using c(3-5) f wf(3) by (intro exI [of _ ?q']) auto
qed

lemma hard_start_xmit_frame:
  assumes "xpnet_hard_start_xmit stale skb net n = Some (rc, freed, net')"
  shows "txqno net' = txqno net" "priv_lock net' = priv_lock net" "dma_trigger net' = dma_trigger net"
    "hw_flags net' = hw_flags net"
  using assms
  by (auto simp: xpnet_hard_start_xmit_def tx_drop_def tx_error_def tx_q_put_def Let_def
      split: Option.bind_splits if_splits option.splits)

theorem xmit_sends_packet_witness:
  "\<exists>net'. xpnet_hard_start_xmit skb_len (Some (sample_skb 5000)) (sample_net XP_A0_UNCOMPRESSED rx_idle tx_idle) 0 =
     Some (NETDEV_TX_OK, True, net') \<and> q_tail (tx_queue net' ! 0) = 2 \<and>
     reg32 (pci_priv net') DMA0_RX_CMD_REG_E 0 = 8"
proof -
  have q: "tx_idle = tx_queue (sample_net XP_A0_UNCOMPRESSED rx_idle tx_idle) ! 0"
    by simp
  have S: "(2::nat) = num_shards_for (unat (skb_len (sample_skb 5000)))"
    by (simp add: num_shards_for_def sample_skb_def)
  show ?thesis
    using xmit_sends_packet [OF _ q tx_q_ok_idle _ _ _ _ S, of skb_len]
    by (auto simp: tx_idle_def sample_free_desc tx_refused_def skb_wf_def sample_skb_def tx_desc_free_idle [unfolded tx_idle_def]
        tx_q_put_def slot_def XPNET_HWFLAG_A0_def)
qed

text \<open>
  C2: Transmission is safe on every path. Whatever the state of the descriptors, the queue and
  the packet, \<open>xpnet_hard_start_xmit\<close> on an unlocked, well-formed queue returns (it does not
  dereference NULL, leave an array or wait for a lock it holds), keeps the ring well-formed,
  touches no other queue, and frees the packet exactly when it does not return
  \<open>NETDEV_TX_BUSY\<close>. After a busy return no register, index or descriptor has changed.
\<close>

theorem xmit_safe:
  assumes "n < length (tx_queue net)" "tx_q_ok (tx_queue net ! n)" "\<forall>skb. skb_ptr = Some skb \<longrightarrow> skb_wf skb"
    "priv_wf (pci_priv net)"
  shows "\<exists>rc freed net' q'. xpnet_hard_start_xmit stale skb_ptr net n = Some (rc, freed, net') \<and>
    (freed \<longleftrightarrow> rc \<noteq> NETDEV_TX_BUSY) \<and> tx_queue net' = (tx_queue net)[n := q'] \<and> tx_q_ok q' \<and>
    rx_queue net' = rx_queue net \<and> priv_wf (pci_priv net') \<and>
    tx_dma_read_lock (pci_priv net') = tx_dma_read_lock (pci_priv net) \<and>
    (rc = NETDEV_TX_BUSY \<longrightarrow> pci_priv net' = pci_priv net \<and> q_tail q' = q_tail (tx_queue net ! n) \<and>
       q_head q' = q_head (tx_queue net ! n) \<and> (\<forall>i<10. desc_get q' i = desc_get (tx_queue net ! n) i))"
  using hard_start_xmit_safe [OF assms] .

theorem xmit_safe_witness:
  "\<exists>rc net'. xpnet_hard_start_xmit skb_len (Some (sample_skb 0)) (sample_net XP_A0_UNCOMPRESSED rx_idle tx_idle) 0 =
     Some (rc, rc \<noteq> NETDEV_TX_BUSY, net')"
  using xmit_safe [of 0 "sample_net XP_A0_UNCOMPRESSED rx_idle tx_idle" "Some (sample_skb 0)" skb_len]
  by (auto simp: tx_q_ok_idle skb_wf_def sample_skb_def)



lemma start_xmit_ok:
  assumes "chip_ok chip" "unat (txqno net) < length (tx_queue net)" "tx_q_ok (tx_queue net ! unat (txqno net))"
    "\<forall>s. skb = Some s \<longrightarrow> skb_wf s" "priv_wf (pci_priv net)" "\<not> priv_lock net" "\<not> tx_dma_read_lock (pci_priv net)"
  shows "\<exists>rc net' q'. xpnet_start_xmit chip stale skb net = Some (rc, rc = NETDEV_TX_OK, net') \<and>
    \<not> tx_dma_read_lock (pci_priv net') \<and> priv_wf (pci_priv net') \<and> priv_lock net' = priv_lock net \<and>
    tx_queue net' = (tx_queue net)[unat (txqno net) := q'] \<and> tx_q_ok q'"
proof (cases "dma_trigger net")
  case False
  then show ?thesis
    using assms by (auto simp: xpnet_start_xmit_def intro!: exI [of _ "tx_queue net ! unat (txqno net)"])
next
  case True
  let ?n = "unat (txqno net)" and ?net = "net\<lparr>pci_priv := (pci_priv net)\<lparr>tx_dma_read_lock := True\<rparr>\<rparr>"
  obtain rc net1 q1 where x: "xpnet_hard_start_xmit stale skb ?net ?n = Some (rc, rc \<noteq> NETDEV_TX_BUSY, net1)"
      "tx_queue net1 = (tx_queue net)[?n := q1]" "tx_q_ok q1" "priv_wf (pci_priv net1)"
    using hard_start_xmit_safe [of ?n ?net skb stale] assms by (auto simp: priv_wf_def)
  have keep: "txqno net1 = txqno net" "priv_lock net1 = priv_lock net"
    using hard_start_xmit_frame [OF x(1)] by simp_all
  have q1: "tx_queue net1 ! ?n = q1" "?n < length (tx_queue net1)" "xpq_num_desc q1 = 10"
    using x(2,3) assms(2) by (simp_all add: tx_q_ok_def ring_wf_def)
  obtain q2 where c: "xpnet_tx_complete chip net1 ?n 10 = Some (tx_q_put net1 ?n q2)" "tx_q_ok q2"
    using tx_complete_ok [OF assms(1) q1(2), of 10] x(3) q1(1) by auto
  have rc: "rc = NETDEV_TX_OK \<or> rc = NETDEV_TX_BUSY"
    by (cases rc) simp_all
  let ?q' = "if rc = NETDEV_TX_OK then q2 else q1"
  have "xpnet_start_xmit chip stale skb net = Some (rc, rc = NETDEV_TX_OK,
      (tx_q_put net1 ?n ?q')\<lparr>pci_priv := (pci_priv net1)\<lparr>tx_dma_read_lock := False\<rparr>\<rparr>)"
    using True assms(6,7) x(1,2) c(1) q1 keep rc by (auto simp: xpnet_start_xmit_def tx_q_put_def)
  then show ?thesis
    using x c(2) keep by (auto simp: tx_q_put_def priv_wf_def intro!: exI [of _ ?q'])
qed



text \<open>
  C38: The copy comes before the ownership check. When the first descriptor is free but a later
  one of the packet is still owned by the chip, \<open>xpnet_hard_start_xmit\<close> returns
  \<open>NETDEV_TX_BUSY\<close> and leaves every descriptor alone, but the buffers of all the descriptors
  concerned, also of the one the chip is reading from, already hold the new packet.
\<close>

theorem xmit_busy_overwrites_owned_buffer:
  assumes n: "n < length (tx_queue net)" and q: "q = tx_queue net ! n" "tx_q_ok q" "q_status q = XPNET_QUEUE_ACTIVE"
    and fits: "xpnet_get_free_desc q \<noteq> 0" "\<not> tx_refused q skb" and skb: "skb_wf skb"
    and S: "S = num_shards_for (unat (skb_len skb))"
    and first: "tx_desc_free q (unat (q_tail q))"
    and owned: "i < S" "desc_get q (slot (q_tail q) i) = Some v" "hw_owns v" and p: "priv_wf (pci_priv net)"
  shows "\<exists>q' st. xpnet_hard_start_xmit stale (Some skb) net n =
      Some (NETDEV_TX_BUSY, False, (tx_q_put net n q')\<lparr>stats := st\<rparr>) \<and>
    (\<forall>j<10. desc_get q' j = desc_get q j) \<and>
    (\<forall>j<S. holds_shard (mode (pci_priv net)) (shard_payload (take (unat (skb_len skb)) (skb_data skb)) j)
             (xpq_desc_meta q' ! slot (q_tail q) j))"
proof -
  from hard_start_xmit_reaches_copy [OF n q fits first skb S, of stale]
  obtain q1 where q1: "xpnet_hard_start_xmit stale (Some skb) net n =
        map_option (tx_finish stale skb net n S) (xpnet_skb_stat_enqueue net q1 S)"
      "0 < S" "S \<le> unat (xpnet_get_free_desc q)" "tx_q_ok q1" "bufs_only q q1"
      "\<forall>j<S. holds_shard (mode (pci_priv net)) (shard_payload (take (unat (skb_len skb)) (skb_data skb)) j)
         (xpq_desc_meta q1 ! slot (q_tail q) j)"
    by blast
  have S10: "S \<le> 10"
    using q1(3) free_desc_bytes(2) [of PAGE_SIZE q] q(2) by (simp add: tx_q_ok_def)
  have nf: "\<not> (\<forall>j<S. tx_desc_free q1 (slot (q_tail q1) j))"
    using owned bufs_only_desc_get [OF q1(5)] bufs_only_fields [OF q1(5)] by (auto simp: tx_desc_free_def)
  obtain rc where e: "xpnet_skb_stat_enqueue net q1 S = Some (rc, pci_priv net, q1)"
      "rc = XPNET_QUEUE_BUSY \<or> rc = XPNET_QUEUE_ERROR"
    using xpnet_skb_stat_enqueue_ok [of PAGE_SIZE q1 S net] q1(2,4) S10 p unfolding if_not_P [OF nf]
    by (auto simp: tx_q_ok_def)
  have "\<exists>st. tx_finish stale skb net n S (rc, pci_priv net, q1) = (NETDEV_TX_BUSY, False, (tx_q_put net n q1)\<lparr>stats := st\<rparr>)"
    using e(2) by (auto simp: tx_q_put_def intro: exI [of _ "stats net"])
  then show ?thesis
    using q1(1,6) e(1) bufs_only_desc_get [OF q1(5)] by (auto intro!: exI [of _ q1])
qed

theorem xmit_busy_overwrites_owned_buffer_witness:
  "\<exists>net'. xpnet_hard_start_xmit skb_len (Some (sample_skb 5000)) (sample_net XP_A0_UNCOMPRESSED rx_idle tx_second_owned) 0 =
     Some (NETDEV_TX_BUSY, False, net') \<and>
     holds_shard XP_A0_UNCOMPRESSED (shard_payload (skb_data (sample_skb 5000)) 1) (xpq_desc_meta (tx_queue net' ! 0) ! 1)"
proof -
  have q: "tx_second_owned = tx_queue (sample_net XP_A0_UNCOMPRESSED rx_idle tx_second_owned) ! 0"
    by simp
  have S: "(2::nat) = num_shards_for (unat (skb_len (sample_skb 5000)))"
    by (simp add: num_shards_for_def sample_skb_def)
  have ok: "tx_q_ok tx_second_owned"
    by (simp add: tx_q_ok_def tx_second_owned_def ring_wf_sample PAGE_SIZE_def)
  have d: "desc_get tx_second_owned (slot (q_tail tx_second_owned) 1) = Some (zero_desc\<lparr>qword0 := own_bit\<rparr>)"
    "tx_desc_free tx_second_owned (unat (q_tail tx_second_owned))" "slot (q_tail tx_second_owned) 1 = 1"
    by (simp_all add: tx_second_owned_def tx_desc_free_def slot_def zero_desc_def hw_owns_bit desc_error_bit)
  have fits: "xpnet_get_free_desc tx_second_owned \<noteq> 0" "\<not> tx_refused tx_second_owned (sample_skb 5000)"
      "skb_wf (sample_skb 5000)" "take (unat (skb_len (sample_skb 5000))) (skb_data (sample_skb 5000)) = skb_data (sample_skb 5000)"
    by (simp_all add: tx_second_owned_def sample_free_desc tx_refused_def skb_wf_def sample_skb_def)
  have "q_status tx_second_owned = XPNET_QUEUE_ACTIVE" "0 < length (tx_queue (sample_net XP_A0_UNCOMPRESSED rx_idle tx_second_owned))"
      "hw_owns (zero_desc\<lparr>qword0 := own_bit\<rparr>)" "priv_wf (pci_priv (sample_net XP_A0_UNCOMPRESSED rx_idle tx_second_owned))"
    by (simp_all add: tx_second_owned_def)
  then obtain q' st where
      "xpnet_hard_start_xmit skb_len (Some (sample_skb 5000)) (sample_net XP_A0_UNCOMPRESSED rx_idle tx_second_owned) 0 =
         Some (NETDEV_TX_BUSY, False, (tx_q_put (sample_net XP_A0_UNCOMPRESSED rx_idle tx_second_owned) 0 q')\<lparr>stats := st\<rparr>)"
      "holds_shard XP_A0_UNCOMPRESSED (shard_payload (skb_data (sample_skb 5000)) 1) (xpq_desc_meta q' ! 1)"
    using xmit_busy_overwrites_owned_buffer [OF _ q ok _ fits(1-3) S d(2) _ d(1), of skb_len]
    unfolding fits(4) by (metis d(3) one_less_numeral_iff semiring_norm(76) sample_net_fields(1) sample_priv_fields(2))
  then show ?thesis
    by (simp add: tx_q_put_def)
qed

end
