(* ===== verification/Trap_Table.thy ===== *)
theory Trap_Table
  imports XpPrelude
begin

text \<open>
  The trap table of \<open>xp_netdev_intf.c\<close>: reason codes of received packets are mapped to trap
  ids, and trap ids to the configuration that says where such packets go. The abstract view is
  a partial map from reason codes to configurations; \<open>route\<close> relates the two arrays to it, and
  the locale \<open>trap_route\<close> states the contract of the operations on that view.
\<close>

definition XP_INVALID_TRAP_ID :: u32 where "XP_INVALID_TRAP_ID = - 1"
definition XP_MAX_REASON_CODE :: nat where "XP_MAX_REASON_CODE = 803"
definition XP_MAX_TRAP_ID :: nat where "XP_MAX_TRAP_ID = 0x5000"

definition XP_NL_HOSTIF_TRAP_FD :: u32 where "XP_NL_HOSTIF_TRAP_FD = 0"
definition XP_NL_HOSTIF_TRAP_CB :: u32 where "XP_NL_HOSTIF_TRAP_CB = 1"
definition XP_NL_HOSTIF_TRAP_NETDEV :: u32 where "XP_NL_HOSTIF_TRAP_NETDEV = 2"

text \<open>A socket is known by its address.\<close>

type_synonym sock = nat

record xp_trap_config =
  tc_fd :: u32
  tc_rc :: u32
  tc_trap_id :: u32
  tc_rx_count :: u32
  tc_sock_ptr :: "sock option"
  tc_ch :: u32

record xp_trap_table =
  tt_lock :: bool
  tt_trap :: "xp_trap_config option list"
  tt_rc_map :: "u32 list"

text \<open>
  The table is allocated with \<open>kmalloc\<close>; \<open>ok\<close> says whether an allocation succeeds. The fresh
  table has every entry assigned by the two loops.
\<close>

definition xp_trap_init :: "bool \<Rightarrow> rc \<times> xp_trap_table option" where
  "xp_trap_init ok =
     (if \<not> ok then (- ENOMEM, None)
      else (0, Some \<lparr>tt_lock = False, tt_trap = replicate (XP_MAX_TRAP_ID + 1) None,
                     tt_rc_map = replicate (XP_MAX_REASON_CODE + 1) XP_INVALID_TRAP_ID\<rparr>))"

fun trap_deinit_loop :: "xp_trap_table \<Rightarrow> nat \<Rightarrow> nat \<Rightarrow> xp_trap_table option" where
  "trap_deinit_loop t i 0 = Some t"
| "trap_deinit_loop t i (Suc k) =
     do { e \<leftarrow> arr_get (tt_trap t) i;
          case e of
            None \<Rightarrow> trap_deinit_loop t (Suc i) k
          | Some c \<Rightarrow>
              do { m \<leftarrow> arr_set (tt_rc_map t) (unat (tc_rc c)) XP_INVALID_TRAP_ID;
                   a \<leftarrow> arr_set (tt_trap t) i None;
                   trap_deinit_loop (t\<lparr>tt_rc_map := m, tt_trap := a\<rparr>) (Suc i) k } }"

text \<open>\<open>xp_trap_deinit\<close> frees the table in the end; the model returns the state just before.\<close>

definition xp_trap_deinit :: "xp_trap_table \<Rightarrow> xp_trap_table option" where
  "xp_trap_deinit t =
     (if tt_lock t then None else trap_deinit_loop t 0 (length (tt_trap t)))"

definition xp_trap_config_get :: "xp_trap_table \<Rightarrow> u32 \<Rightarrow> xp_trap_config option option" where
  "xp_trap_config_get t i =
     (if tt_lock t then None
      else if unat i \<ge> length (tt_trap t) then Some None else arr_get (tt_trap t) (unat i))"

definition xp_trap_id_get :: "xp_trap_table \<Rightarrow> u32 \<Rightarrow> u32 option" where
  "xp_trap_id_get t rc =
     (if tt_lock t then None
      else if unat rc \<ge> length (tt_rc_map t) then Some XP_INVALID_TRAP_ID else arr_get (tt_rc_map t) (unat rc))"

definition xp_trap_id_entry_add :: "bool \<Rightarrow> xp_trap_table \<Rightarrow> xp_trap_config \<Rightarrow> (rc \<times> xp_trap_table) option" where
  "xp_trap_id_entry_add ok t cfg =
     (if unat (tc_trap_id cfg) > XP_MAX_TRAP_ID then Some (- ESPIPE, t)
      else if \<not> ok then Some (- ENOMEM, t)
      else if tt_lock t then None
      else do { m \<leftarrow> arr_set (tt_rc_map t) (unat (tc_rc cfg)) (tc_trap_id cfg);
                a \<leftarrow> arr_set (tt_trap t) (unat (tc_trap_id cfg)) (Some cfg);
                Some (0, t\<lparr>tt_rc_map := m, tt_trap := a\<rparr>) })"

definition xp_trap_id_entry_remove :: "xp_trap_table \<Rightarrow> u32 \<Rightarrow> (rc \<times> xp_trap_table) option" where
  "xp_trap_id_entry_remove t trap_id =
     (if unat trap_id > XP_MAX_TRAP_ID then Some (- ESPIPE, t)
      else do { e \<leftarrow> arr_get (tt_trap t) (unat trap_id);
                case e of
                  None \<Rightarrow> Some (0, t)
                | Some _ \<Rightarrow>
                    if tt_lock t then None
                    else do { a \<leftarrow> arr_set (tt_trap t) (unat trap_id) None; Some (0, t\<lparr>tt_trap := a\<rparr>) } })"

subsection \<open>Well-formedness and the abstract view\<close>

text \<open>The arrays have their C sizes and every stored reason code is an index of \<open>rc_map\<close>.\<close>

definition trap_wf :: "xp_trap_table \<Rightarrow> bool" where
  "trap_wf t \<longleftrightarrow>
     \<not> tt_lock t \<and> length (tt_trap t) = XP_MAX_TRAP_ID + 1 \<and> length (tt_rc_map t) = XP_MAX_REASON_CODE + 1 \<and>
     (\<forall>c. Some c \<in> set (tt_trap t) \<longrightarrow> unat (tc_rc c) \<le> XP_MAX_REASON_CODE)"

text \<open>Where a packet with a reason code is sent: the two lookups of \<open>xp_rx_skb_process\<close>.\<close>

definition route :: "xp_trap_table \<Rightarrow> u32 \<Rightarrow> xp_trap_config option" where
  "route t rc =
     (if unat rc < length (tt_rc_map t) \<and> unat (tt_rc_map t ! unat rc) < length (tt_trap t)
      then tt_trap t ! unat (tt_rc_map t ! unat rc) else None)"

lemma unat_invalid_trap_id: "unat XP_INVALID_TRAP_ID = 4294967295"
  by (simp add: XP_INVALID_TRAP_ID_def unsigned_minus_1_eq_mask mask_eq_exp_minus_1)

lemma trap_init_wf: "xp_trap_init True = (0, Some t) \<Longrightarrow> trap_wf t \<and> route t rc = None"
  by (auto simp: xp_trap_init_def trap_wf_def route_def unat_invalid_trap_id XP_MAX_TRAP_ID_def)

lemma trap_lookup_route:
  assumes "trap_wf t"
  shows "\<exists>i. xp_trap_id_get t rc = Some i \<and> xp_trap_config_get t i = Some (route t rc)"
  using assms
  by (auto simp: trap_wf_def xp_trap_id_get_def xp_trap_config_get_def route_def unat_invalid_trap_id
      XP_MAX_TRAP_ID_def)

lemma trap_add_ok:
  assumes "trap_wf t" "unat (tc_trap_id cfg) \<le> XP_MAX_TRAP_ID" "unat (tc_rc cfg) \<le> XP_MAX_REASON_CODE"
  shows "\<exists>t'. xp_trap_id_entry_add True t cfg = Some (0, t') \<and> trap_wf t' \<and>
    tt_rc_map t' = (tt_rc_map t)[unat (tc_rc cfg) := tc_trap_id cfg] \<and>
    tt_trap t' = (tt_trap t)[unat (tc_trap_id cfg) := Some cfg]"
proof -
  have "unat (tc_rc c) \<le> XP_MAX_REASON_CODE" if "Some c \<in> set ((tt_trap t)[unat (tc_trap_id cfg) := Some cfg])" for c
    using set_update_subset_insert that assms(1,3) by (fastforce simp: trap_wf_def)
  then show ?thesis
    using assms by (auto simp: xp_trap_id_entry_add_def trap_wf_def)
qed

lemma trap_remove_ok:
  assumes "trap_wf t" "unat i \<le> XP_MAX_TRAP_ID"
  shows "\<exists>t'. xp_trap_id_entry_remove t i = Some (0, t') \<and> trap_wf t' \<and>
    tt_rc_map t' = tt_rc_map t \<and> tt_trap t' = (tt_trap t)[unat i := None]"
proof (cases "tt_trap t ! unat i")
  case None
  then have "(tt_trap t)[unat i := None] = tt_trap t"
    by (metis list_update_id)
  then show ?thesis
    using assms None by (simp add: xp_trap_id_entry_remove_def trap_wf_def)
next
  case (Some c)
  have "unat (tc_rc c) \<le> XP_MAX_REASON_CODE" if "Some c \<in> set ((tt_trap t)[unat i := None])" for c
    using set_update_subset_insert that assms(1) by (fastforce simp: trap_wf_def)
  then show ?thesis
    using assms Some by (auto simp: xp_trap_id_entry_remove_def trap_wf_def)
qed

text \<open>
  The effect on the abstract view. Several reason codes may share a trap id, so an operation on
  an id changes the route of every code mapped to it.
\<close>

lemma route_add:
  assumes "trap_wf t" "unat (tc_trap_id cfg) \<le> XP_MAX_TRAP_ID" "unat (tc_rc cfg) \<le> XP_MAX_REASON_CODE"
    "xp_trap_id_entry_add True t cfg = Some (0, t')"
  shows "route t' rc =
    (if rc = tc_rc cfg \<or> xp_trap_id_get t rc = Some (tc_trap_id cfg) then Some cfg else route t rc)"
proof -
  have t': "tt_rc_map t' = (tt_rc_map t)[unat (tc_rc cfg) := tc_trap_id cfg]"
      "tt_trap t' = (tt_trap t)[unat (tc_trap_id cfg) := Some cfg]"
    using trap_add_ok [OF assms(1-3)] assms(4) by auto
  have l: "length (tt_trap t) = XP_MAX_TRAP_ID + 1" "length (tt_rc_map t) = XP_MAX_REASON_CODE + 1" "\<not> tt_lock t"
    using assms(1) by (simp_all add: trap_wf_def)
  have inv: "tc_trap_id cfg \<noteq> XP_INVALID_TRAP_ID"
    using assms(2) unat_invalid_trap_id by (auto simp: XP_MAX_TRAP_ID_def)
  show ?thesis
    using assms(2,3) l inv
    by (auto simp: route_def t' nth_list_update xp_trap_id_get_def word_unat_eq_iff)
qed

lemma route_remove:
  assumes "trap_wf t" "unat i \<le> XP_MAX_TRAP_ID" "xp_trap_id_entry_remove t i = Some (0, t')"
  shows "route t' rc = (if xp_trap_id_get t rc = Some i then None else route t rc)"
proof -
  have t': "tt_rc_map t' = tt_rc_map t" "tt_trap t' = (tt_trap t)[unat i := None]"
    using trap_remove_ok [OF assms(1,2)] assms(3) by auto
  have l: "length (tt_trap t) = XP_MAX_TRAP_ID + 1" "length (tt_rc_map t) = XP_MAX_REASON_CODE + 1" "\<not> tt_lock t"
    using assms(1) by (simp_all add: trap_wf_def)
  have inv: "i \<noteq> XP_INVALID_TRAP_ID"
    using assms(2) unat_invalid_trap_id by (auto simp: XP_MAX_TRAP_ID_def)
  show ?thesis
    using assms(2) l inv by (auto simp: route_def t' nth_list_update xp_trap_id_get_def word_unat_eq_iff)
qed

subsection \<open>The contract of the table\<close>

text \<open>
  A table of routes keyed by \<open>'k\<close>, where keys are grouped by identifiers \<open>'i\<close>: what a lookup
  returns after an insertion and after a removal. The derived lemmas are what the receive path
  and the netlink handlers rely on, and what follows from removing an identifier without
  clearing the keys that point to it.
\<close>

locale trap_route =
  fixes wf :: "'t \<Rightarrow> bool" and view :: "'t \<Rightarrow> 'k \<Rightarrow> 'c option" and ident :: "'t \<Rightarrow> 'k \<Rightarrow> 'i option"
    and key :: "'c \<Rightarrow> 'k" and cid :: "'c \<Rightarrow> 'i" and good :: "'c \<Rightarrow> bool" and good_id :: "'i \<Rightarrow> bool"
    and add :: "'t \<Rightarrow> 'c \<Rightarrow> 't option" and remove :: "'t \<Rightarrow> 'i \<Rightarrow> 't option"
  assumes add_total: "wf t \<Longrightarrow> good c \<Longrightarrow> \<exists>t'. add t c = Some t' \<and> wf t'"
    and add_view: "wf t \<Longrightarrow> good c \<Longrightarrow> add t c = Some t' \<Longrightarrow>
      view t' k = (if k = key c \<or> ident t k = Some (cid c) then Some c else view t k)"
    and add_ident: "wf t \<Longrightarrow> good c \<Longrightarrow> add t c = Some t' \<Longrightarrow>
      ident t' k = (if k = key c then Some (cid c) else ident t k)"
    and remove_total: "wf t \<Longrightarrow> good_id i \<Longrightarrow> \<exists>t'. remove t i = Some t' \<and> wf t'"
    and remove_view: "wf t \<Longrightarrow> good_id i \<Longrightarrow> remove t i = Some t' \<Longrightarrow>
      view t' k = (if ident t k = Some i then None else view t k)"
    and remove_ident: "wf t \<Longrightarrow> good_id i \<Longrightarrow> remove t i = Some t' \<Longrightarrow> ident t' k = ident t k"
begin

lemma add_lookup:
  assumes "wf t" "good c" "add t c = Some t'"
  shows "view t' (key c) = Some c"
  using add_view [OF assms, of "key c"] by simp

lemma add_other:
  assumes "wf t" "good c" "add t c = Some t'" "k \<noteq> key c" "ident t k \<noteq> Some (cid c)"
  shows "view t' k = view t k"
  using add_view [OF assms(1-3), of k] assms(4,5) by simp

lemma add_remove_lookup:
  assumes "wf t" "good c" "good_id (cid c)" "add t c = Some t1" "remove t1 (cid c) = Some t2"
  shows "view t2 (key c) = None"
proof -
  have "wf t1"
    using add_total [OF assms(1,2)] assms(4) by auto
  then show ?thesis
    using remove_view [OF _ assms(3,5), of "key c"] add_ident [OF assms(1,2,4), of "key c"] by simp
qed

lemma removed_key_follows_id:
  assumes "wf t" "good c" "good_id (cid c)" "good d" "cid d = cid c"
    "add t c = Some t1" "remove t1 (cid c) = Some t2" "add t2 d = Some t3"
  shows "view t3 (key c) = Some d"
proof -
  have wf1: "wf t1"
    using add_total [OF assms(1,2)] assms(6) by auto
  have wf2: "wf t2"
    using remove_total [OF wf1 assms(3)] assms(7) by auto
  have "ident t2 (key c) = Some (cid d)"
    using remove_ident [OF wf1 assms(3,7), of "key c"] add_ident [OF assms(1,2,6), of "key c"] assms(5) by simp
  then show ?thesis
    using add_view [OF wf2 assms(4,8), of "key c"] by simp
qed

end

definition cfg_ok :: "xp_trap_config \<Rightarrow> bool" where
  "cfg_ok c \<longleftrightarrow> unat (tc_trap_id c) \<le> XP_MAX_TRAP_ID \<and> unat (tc_rc c) \<le> XP_MAX_REASON_CODE"

definition trap_put :: "xp_trap_table \<Rightarrow> xp_trap_config \<Rightarrow> xp_trap_table option" where
  "trap_put t c = map_option snd (xp_trap_id_entry_add True t c)"

definition trap_drop :: "xp_trap_table \<Rightarrow> u32 \<Rightarrow> xp_trap_table option" where
  "trap_drop t i = map_option snd (xp_trap_id_entry_remove t i)"

lemma trap_put_Some: "trap_wf t \<Longrightarrow> cfg_ok c \<Longrightarrow> trap_put t c = Some t' \<longleftrightarrow> xp_trap_id_entry_add True t c = Some (0, t')"
  using trap_add_ok [of t c] by (auto simp: trap_put_def cfg_ok_def)

lemma trap_drop_Some:
  "trap_wf t \<Longrightarrow> unat i \<le> XP_MAX_TRAP_ID \<Longrightarrow> trap_drop t i = Some t' \<longleftrightarrow> xp_trap_id_entry_remove t i = Some (0, t')"
  using trap_remove_ok [of t i] by (auto simp: trap_drop_def)

interpretation traps: trap_route trap_wf route xp_trap_id_get tc_rc tc_trap_id cfg_ok
  "\<lambda>i. unat i \<le> XP_MAX_TRAP_ID" trap_put trap_drop
proof (unfold_locales, goal_cases)
  case (1 t c)
  then show ?case
    using trap_add_ok [of t c] by (auto simp: trap_put_def cfg_ok_def)
next
  case (2 t c t' k)
  then show ?case
    using route_add [of t c t' k] trap_put_Some [of t c t'] by (auto simp: cfg_ok_def)
next
  case (3 t c t' k)
  then show ?case
    using trap_add_ok [of t c]
    by (auto simp: trap_put_def cfg_ok_def trap_wf_def xp_trap_id_get_def nth_list_update word_unat_eq_iff)
next
  case (4 t i)
  then show ?case
    using trap_remove_ok [of t i] by (auto simp: trap_drop_def)
next
  case (5 t i t' k)
  then show ?case
    using route_remove [of t i t' k] by (simp add: trap_drop_Some)
next
  case (6 t i t' k)
  then show ?case
    using trap_remove_ok [of t i] by (auto simp: trap_drop_def trap_wf_def xp_trap_id_get_def)
qed

subsection \<open>Release of the table\<close>

lemma trap_deinit_loop_ok:
  assumes "length (tt_rc_map t) = XP_MAX_REASON_CODE + 1" "i + k = length (tt_trap t)"
    "\<And>c. Some c \<in> set (tt_trap t) \<Longrightarrow> unat (tc_rc c) \<le> XP_MAX_REASON_CODE"
    "\<And>j. j < i \<Longrightarrow> tt_trap t ! j = None"
  shows "\<exists>t'. trap_deinit_loop t i k = Some t' \<and> length (tt_trap t') = length (tt_trap t) \<and>
    (\<forall>j<length (tt_trap t). tt_trap t' ! j = None)"
  using assms
proof (induction k arbitrary: t i)
  case 0
  then show ?case
    by simp
next
  case (Suc k)
  have i: "i < length (tt_trap t)"
    using Suc.prems(2) by simp
  show ?case
  proof (cases "tt_trap t ! i")
    case None
    then have "\<And>j. j < Suc i \<Longrightarrow> tt_trap t ! j = None"
      using Suc.prems(4) by (auto simp: less_Suc_eq)
    then show ?thesis
      using Suc.IH [of t "Suc i"] Suc.prems(1-3) i None by simp
  next
    case (Some c)
    have c: "unat (tc_rc c) \<le> XP_MAX_REASON_CODE"
      using Suc.prems(3) Some i nth_mem by metis
    let ?t = "t\<lparr>tt_rc_map := (tt_rc_map t)[unat (tc_rc c) := XP_INVALID_TRAP_ID], tt_trap := (tt_trap t)[i := None]\<rparr>"
    have "unat (tc_rc d) \<le> XP_MAX_REASON_CODE" if "Some d \<in> set (tt_trap ?t)" for d
      using set_update_subset_insert that Suc.prems(3) by fastforce
    moreover have "tt_trap ?t ! j = None" if "j < Suc i" for j
      using that Suc.prems(4) i by (auto simp: less_Suc_eq nth_list_update)
    ultimately have "\<exists>t'. trap_deinit_loop ?t (Suc i) k = Some t' \<and> length (tt_trap t') = length (tt_trap ?t) \<and>
        (\<forall>j<length (tt_trap ?t). tt_trap t' ! j = None)"
      using Suc.prems(1,2) by (intro Suc.IH) auto
    then show ?thesis
      using Suc.prems(1) Some i c by simp
  qed
qed

end
