(* ===== verification/Netdev_Intf.thy ===== *)
theory Netdev_Intf
  imports Trap_Table
begin

text \<open>
  Network interfaces and their control messages (\<open>xp_netdev_intf.c\<close>): the list of interfaces,
  the hash table of linked ones, the sockets, and the handlers that the netlink messages call.

  Interfaces live in an explicit heap, known by their address, so that a dangling pointer in
  the list or in the hash table would show. What the kernel decides is part of the state:
  whether allocations and registrations succeed (for packet buffers, call by call) and which socket a descriptor names. The
  bucket function of the kernel's hash table is a parameter. The interrupt flag is modelled
  because the handlers save and restore it.
\<close>

definition XP_NO_VIF :: u32 where "XP_NO_VIF = - 1"

datatype xp_netdev_type = XP_FP_NETDEV | XP_ROUTER_NETDEV | XP_LAG_NETDEV

text \<open>
  \<open>struct xp_netdev_priv\<close> with the fields of its \<open>net_device\<close>. \<open>vif\<close> and \<open>rif\<close> are one union
  field; the list and hash nodes are the list and the buckets of the state below.
\<close>

record xp_netdev_priv =
  xpnet_intf_id :: u32
  vif :: u32
  tx_header :: "u8 list"
  is_tx_header_set :: bool
  netdev_type :: xp_netdev_type
  netdev_priv_lock :: bool
  nd_up :: bool
  nd_stopped :: bool
  nd_addr :: "u8 list"
  nd_tx_packets :: u64
  nd_rx_packets :: u64
  nd_rx_bytes :: u64

text \<open>What the driver hands on: datagrams to sockets and frames to interfaces.\<close>

datatype event = To_Sock sock "u8 list" | To_Netdev nat "u8 list"

record xp_intf =
  xp_netdev_list :: "nat list"
  nd_heap :: "nat \<Rightarrow> xp_netdev_priv option"
  htable :: "nat \<Rightarrow> nat list"
  list_lock :: bool
  netlink_mutex :: bool
  irqs_on :: bool
  trap_table :: "xp_trap_table option"
  cb_sock_ptr :: "sock option"
  packet_mirroring_enable :: bool
  nd_next :: nat
  alloc_ok :: "nat \<Rightarrow> bool"
  register_ok :: "nat \<Rightarrow> bool"
  kmalloc_ok :: bool
  skb_ok :: "nat \<Rightarrow> bool"
  skb_calls :: nat
  sockfd_lookup :: "u32 \<Rightarrow> (sock option \<times> rc)"
  events :: "event list"

definition XP_ETH_ADDR_HIGH :: "u8 list" where "XP_ETH_ADDR_HIGH = [0x08, 0x23, 0x56]"

definition TX_HDR_LEN :: nat where "TX_HDR_LEN = 24"

subsection \<open>Messages\<close>

record xp_nl_msg_intf_t =
  im_intf_id :: u32
  im_name :: "u8 list"

record xp_nl_msg_link_t =
  lm_intf_id :: u32
  lm_vif :: u32

record xp_nl_msg_tx_hdr_t =
  hm_intf_id :: u32
  hm_operation :: u8
  hm_tx_header :: "u8 list"

record xp_nl_msg_trap_t =
  tm_rc :: u32
  tm_fd :: u32
  tm_ch :: u32
  tm_trap_id :: u32
  tm_operation :: u8

record xp_nl_msg_cb_fd_t =
  cm_fd :: u32
  cm_operation :: u8

record xp_nl_msg_mirror_t =
  mm_operation :: u8

definition XP_NL_OPERATION_ADD :: u8 where "XP_NL_OPERATION_ADD = 0"
definition XP_NL_OPERATION_REMOVE :: u8 where "XP_NL_OPERATION_REMOVE = 1"
definition XP_NL_OPERATION_ENABLE :: u8 where "XP_NL_OPERATION_ENABLE = 2"
definition XP_NL_OPERATION_DISABLE :: u8 where "XP_NL_OPERATION_DISABLE = 3"

subsection \<open>Locks\<close>

text \<open>
  \<open>write_lock_irqsave\<close> and \<open>read_lock_irqsave\<close> of the list lock save the interrupt state in a
  local and disable interrupts; the unlock operations restore it.
\<close>

definition list_lock_irqsave :: "xp_intf \<Rightarrow> (bool \<times> xp_intf) option" where
  "list_lock_irqsave s = (if list_lock s then None else Some (irqs_on s, s\<lparr>list_lock := True, irqs_on := False\<rparr>))"

definition list_unlock_irqrestore :: "bool \<Rightarrow> xp_intf \<Rightarrow> xp_intf" where
  "list_unlock_irqrestore flags s = s\<lparr>list_lock := False, irqs_on := flags\<rparr>"

text \<open>The first entry of the list with an interface id; a dangling entry has no meaning.\<close>

fun find_intf :: "(nat \<Rightarrow> xp_netdev_priv option) \<Rightarrow> nat list \<Rightarrow> u32 \<Rightarrow> nat option option" where
  "find_intf h [] i = Some None"
| "find_intf h (p # ps) i =
     do { e \<leftarrow> h p; if xpnet_intf_id e = i then Some (Some p) else find_intf h ps i }"

text \<open>\<open>hash_del\<close> takes a node out of the bucket it is in, if any; \<open>hash_add\<close> puts it in front.\<close>

definition hash_del :: "(nat \<Rightarrow> nat list) \<Rightarrow> nat \<Rightarrow> (nat \<Rightarrow> nat list)" where
  "hash_del ht p = (\<lambda>b. removeAll p (ht b))"

definition hash_add :: "(u32 \<Rightarrow> nat) \<Rightarrow> (nat \<Rightarrow> nat list) \<Rightarrow> nat \<Rightarrow> u32 \<Rightarrow> (nat \<Rightarrow> nat list)" where
  "hash_add hash ht p k = ht(hash k := p # ht (hash k))"

subsection \<open>Handlers\<close>

text \<open>The private data and the device as \<open>alloc_netdev\<close>, \<open>xp_netdev_setup\<close> and the assignments leave them.\<close>

definition xp_netdev_setup :: xp_netdev_priv where
  "xp_netdev_setup =
     \<lparr>xpnet_intf_id = 0, vif = 0, tx_header = replicate TX_HDR_LEN 0, is_tx_header_set = False,
      netdev_type = XP_FP_NETDEV, netdev_priv_lock = False, nd_up = False, nd_stopped = False,
      nd_addr = XP_ETH_ADDR_HIGH @ [0, 0, 0], nd_tx_packets = 0, nd_rx_packets = 0, nd_rx_bytes = 0\<rparr>"

definition xp_nl_msg_if_create :: "xp_intf \<Rightarrow> xp_nl_msg_intf_t \<Rightarrow> (rc \<times> xp_intf) option" where
  "xp_nl_msg_if_create s msg =
     do { (flags, s) \<leftarrow> list_lock_irqsave s;
          f \<leftarrow> find_intf (nd_heap s) (xp_netdev_list s) (im_intf_id msg);
          if f \<noteq> None then Some (0, list_unlock_irqrestore flags s)
          else
            let p = nd_next s; s = s\<lparr>nd_next := Suc p\<rparr> in
            if \<not> alloc_ok s p then None
            else
              let priv = xp_netdev_setup\<lparr>xpnet_intf_id := im_intf_id msg, vif := XP_NO_VIF\<rparr> in
              if \<not> register_ok s p then Some (- EPERM, list_unlock_irqrestore flags s)
              else Some (0, list_unlock_irqrestore flags
                     (s\<lparr>nd_heap := (nd_heap s)(p \<mapsto> priv), xp_netdev_list := p # xp_netdev_list s\<rparr>)) }"

text \<open>Taking one interface out: hash table, list, heap.\<close>

definition netdev_remove :: "xp_intf \<Rightarrow> nat \<Rightarrow> xp_intf" where
  "netdev_remove s p =
     s\<lparr>htable := hash_del (htable s) p, xp_netdev_list := remove1 p (xp_netdev_list s),
       nd_heap := (nd_heap s)(p := None)\<rparr>"

definition xp_nl_msg_if_delete :: "xp_intf \<Rightarrow> xp_nl_msg_intf_t \<Rightarrow> (rc \<times> xp_intf) option" where
  "xp_nl_msg_if_delete s msg =
     do { (flags, s) \<leftarrow> list_lock_irqsave s;
          f \<leftarrow> find_intf (nd_heap s) (xp_netdev_list s) (im_intf_id msg);
          case f of
            None \<Rightarrow> Some (0, list_unlock_irqrestore flags s)
          | Some p \<Rightarrow> Some (0, list_unlock_irqrestore flags (netdev_remove s p)) }"

fun netdev_remove_all_loop :: "xp_intf \<Rightarrow> nat list \<Rightarrow> xp_intf option" where
  "netdev_remove_all_loop s [] = Some s"
| "netdev_remove_all_loop s (p # ps) =
     do { _ \<leftarrow> nd_heap s p; netdev_remove_all_loop (netdev_remove s p) ps }"

definition xp_netdev_all_remove :: "xp_intf \<Rightarrow> xp_intf option" where
  "xp_netdev_all_remove s =
     do { (flags, s) \<leftarrow> list_lock_irqsave s;
          s \<leftarrow> netdev_remove_all_loop s (xp_netdev_list s);
          Some (list_unlock_irqrestore flags s) }"

text \<open>The type of interface that a link number selects.\<close>

definition link_type :: "u32 \<Rightarrow> xp_netdev_type option" where
  "link_type v =
     (if v < 128 then Some XP_FP_NETDEV
      else if 65536 \<le> v \<and> v < 65536 + 16384 then Some XP_ROUTER_NETDEV
      else if 4096 \<le> v \<and> v < 5019 then Some XP_LAG_NETDEV
      else None)"

definition xp_nl_msg_if_link :: "(u32 \<Rightarrow> nat) \<Rightarrow> xp_intf \<Rightarrow> xp_nl_msg_link_t \<Rightarrow> (rc \<times> xp_intf) option" where
  "xp_nl_msg_if_link hash s msg =
     do { (flags, s) \<leftarrow> list_lock_irqsave s;
          f \<leftarrow> find_intf (nd_heap s) (xp_netdev_list s) (lm_intf_id msg);
          case f of
            None \<Rightarrow> Some (0, list_unlock_irqrestore flags s)
          | Some p \<Rightarrow>
            do { e \<leftarrow> nd_heap s p;
                 if vif e \<noteq> XP_NO_VIF then Some (0, list_unlock_irqrestore flags s)
                 else case link_type (lm_vif msg) of
                   None \<Rightarrow> Some (0, list_unlock_irqrestore flags s)
                 | Some ty \<Rightarrow>
                     Some (0, list_unlock_irqrestore flags
                       (s\<lparr>nd_heap := (nd_heap s)(p \<mapsto> e\<lparr>netdev_type := ty, vif := lm_vif msg\<rparr>),
                          htable := hash_add hash (htable s) p (lm_vif msg)\<rparr>)) } }"

definition xp_nl_msg_if_unlink :: "xp_intf \<Rightarrow> xp_nl_msg_link_t \<Rightarrow> (rc \<times> xp_intf) option" where
  "xp_nl_msg_if_unlink s msg =
     do { (flags, s) \<leftarrow> list_lock_irqsave s;
          f \<leftarrow> find_intf (nd_heap s) (xp_netdev_list s) (lm_intf_id msg);
          case f of
            None \<Rightarrow> Some (0, list_unlock_irqrestore flags s)
          | Some p \<Rightarrow>
            do { e \<leftarrow> nd_heap s p;
                 Some (0, list_unlock_irqrestore flags
                   (s\<lparr>htable := hash_del (htable s) p, nd_heap := (nd_heap s)(p \<mapsto> e\<lparr>vif := XP_NO_VIF\<rparr>)\<rparr>)) } }"

text \<open>
  The inner lock of the TX header handler saves the interrupt state into the same local
  variable as the outer one.
\<close>

definition xp_nl_msg_tx_header :: "xp_intf \<Rightarrow> xp_nl_msg_tx_hdr_t \<Rightarrow> (rc \<times> xp_intf) option" where
  "xp_nl_msg_tx_header s msg =
     do { (flags, s) \<leftarrow> list_lock_irqsave s;
          f \<leftarrow> find_intf (nd_heap s) (xp_netdev_list s) (hm_intf_id msg);
          case f of
            None \<Rightarrow> Some (0, list_unlock_irqrestore flags s)
          | Some p \<Rightarrow>
            do { e \<leftarrow> nd_heap s p;
                 if netdev_priv_lock e then None
                 else
                   let flags = irqs_on s; s = s\<lparr>irqs_on := False\<rparr>;
                       e' = (if hm_operation msg = XP_NL_OPERATION_ADD
                             then e\<lparr>tx_header := hm_tx_header msg, is_tx_header_set := True\<rparr>
                             else if hm_operation msg = XP_NL_OPERATION_REMOVE
                             then e\<lparr>tx_header := replicate TX_HDR_LEN 0, is_tx_header_set := False\<rparr>
                             else e);
                       s = s\<lparr>nd_heap := (nd_heap s)(p \<mapsto> e'), irqs_on := flags\<rparr>
                   in Some (0, list_unlock_irqrestore flags s) } }"

text \<open>The handlers of trap messages work on the table that \<open>xp_trap_init\<close> has made; without one they have no meaning.\<close>

definition xp_nl_msg_trap :: "xp_intf \<Rightarrow> xp_nl_msg_trap_t \<Rightarrow> (rc \<times> xp_intf) option" where
  "xp_nl_msg_trap s msg =
     (if tm_operation msg = XP_NL_OPERATION_ADD then
        if XP_MAX_REASON_CODE < unat (tm_rc msg) then Some (- ESPIPE, s)
        else
          let cfg = \<lparr>tc_fd = tm_fd msg, tc_rc = tm_rc msg, tc_trap_id = tm_trap_id msg, tc_rx_count = 0,
                     tc_sock_ptr = (if tm_ch msg = XP_NL_HOSTIF_TRAP_FD then fst (sockfd_lookup s (tm_fd msg)) else None),
                     tc_ch = tm_ch msg\<rparr>
          in do { t \<leftarrow> trap_table s;
                  (_, t) \<leftarrow> xp_trap_id_entry_add (kmalloc_ok s) t cfg;
                  Some (0, s\<lparr>trap_table := Some t\<rparr>) }
      else if tm_operation msg = XP_NL_OPERATION_REMOVE then
        do { t \<leftarrow> trap_table s;
             (_, t) \<leftarrow> xp_trap_id_entry_remove t (tm_trap_id msg);
             Some (0, s\<lparr>trap_table := Some t\<rparr>) }
      else Some (0, s))"

definition xp_nl_msg_cb_fd :: "xp_intf \<Rightarrow> xp_nl_msg_cb_fd_t \<Rightarrow> (rc \<times> xp_intf) option" where
  "xp_nl_msg_cb_fd s msg =
     (case sockfd_lookup s (cm_fd msg) of
        (None, rc) \<Rightarrow> Some (rc, s\<lparr>cb_sock_ptr := None\<rparr>)
      | (Some k, _) \<Rightarrow> Some (0, s\<lparr>cb_sock_ptr := Some k\<rparr>))"

definition xp_nl_msg_mirror :: "xp_intf \<Rightarrow> xp_nl_msg_mirror_t \<Rightarrow> (rc \<times> xp_intf) option" where
  "xp_nl_msg_mirror s msg =
     Some (0, if mm_operation msg = XP_NL_OPERATION_ENABLE \<or> mm_operation msg = XP_NL_OPERATION_DISABLE
              then s\<lparr>packet_mirroring_enable := (mm_operation msg = XP_NL_OPERATION_ENABLE)\<rparr> else s)"

text \<open>The entry of a bucket with a link number (\<open>hash_for_each_possible\<close> and the test in its body).\<close>

fun hlist_find :: "(nat \<Rightarrow> xp_netdev_priv option) \<Rightarrow> nat list \<Rightarrow> u32 \<Rightarrow> nat option option" where
  "hlist_find h [] v = Some None"
| "hlist_find h (p # ps) v = do { e \<leftarrow> h p; if vif e = v then Some (Some p) else hlist_find h ps v }"

subsection \<open>The invariant of the interface tables\<close>

text \<open>
  Every pointer in the list is live and every live interface is in the list, interface ids are
  unique, and the hash table holds exactly the linked interfaces, each once and in the bucket
  of its link number. No lock is held.
\<close>

definition heap_ok :: "xp_intf \<Rightarrow> bool" where
  "heap_ok s \<longleftrightarrow>
     distinct (xp_netdev_list s) \<and> set (xp_netdev_list s) = dom (nd_heap s) \<and>
     (\<forall>p \<in> dom (nd_heap s). p < nd_next s) \<and>
     (\<forall>p q e f. nd_heap s p = Some e \<and> nd_heap s q = Some f \<and> xpnet_intf_id e = xpnet_intf_id f \<longrightarrow> p = q) \<and>
     (\<forall>p e. nd_heap s p = Some e \<longrightarrow> \<not> netdev_priv_lock e \<and> length (tx_header e) = TX_HDR_LEN)"

definition hash_ok :: "(u32 \<Rightarrow> nat) \<Rightarrow> xp_intf \<Rightarrow> bool" where
  "hash_ok hash s \<longleftrightarrow>
     (\<forall>b. distinct (htable s b)) \<and>
     (\<forall>b p. p \<in> set (htable s b) \<longleftrightarrow> (\<exists>e. nd_heap s p = Some e \<and> vif e \<noteq> XP_NO_VIF \<and> hash (vif e) = b))"

definition nd_wf :: "(u32 \<Rightarrow> nat) \<Rightarrow> xp_intf \<Rightarrow> bool" where
  "nd_wf hash s \<longleftrightarrow> \<not> list_lock s \<and> heap_ok s \<and> hash_ok hash s \<and> (\<exists>t. trap_table s = Some t \<and> trap_wf t)"

lemma find_intf_ok:
  assumes "\<And>p. p \<in> set ps \<Longrightarrow> \<exists>e. h p = Some e"
  shows "\<exists>r. find_intf h ps i = Some r \<and>
    (case r of None \<Rightarrow> \<forall>p \<in> set ps. \<forall>e. h p = Some e \<longrightarrow> xpnet_intf_id e \<noteq> i
     | Some p \<Rightarrow> p \<in> set ps \<and> (\<exists>e. h p = Some e \<and> xpnet_intf_id e = i))"
  using assms
proof (induction ps)
  case (Cons p ps)
  obtain e where "h p = Some e"
    using Cons.prems by auto
  moreover obtain r where "find_intf h ps i = Some r"
      "case r of None \<Rightarrow> \<forall>p \<in> set ps. \<forall>e. h p = Some e \<longrightarrow> xpnet_intf_id e \<noteq> i
       | Some p \<Rightarrow> p \<in> set ps \<and> (\<exists>e. h p = Some e \<and> xpnet_intf_id e = i)"
    using Cons.IH Cons.prems by auto
  ultimately show ?case
    by (cases "xpnet_intf_id e = i") (auto split: option.splits)
qed simp

lemma hlist_find_ok:
  assumes "\<And>p. p \<in> set ps \<Longrightarrow> \<exists>e. h p = Some e"
  shows "\<exists>r. hlist_find h ps v = Some r \<and>
    (case r of None \<Rightarrow> \<forall>p \<in> set ps. \<forall>e. h p = Some e \<longrightarrow> vif e \<noteq> v
     | Some p \<Rightarrow> p \<in> set ps \<and> (\<exists>e. h p = Some e \<and> vif e = v))"
  using assms
proof (induction ps)
  case (Cons p ps)
  obtain e where "h p = Some e"
    using Cons.prems by auto
  moreover obtain r where "hlist_find h ps v = Some r"
      "case r of None \<Rightarrow> \<forall>p \<in> set ps. \<forall>e. h p = Some e \<longrightarrow> vif e \<noteq> v
       | Some p \<Rightarrow> p \<in> set ps \<and> (\<exists>e. h p = Some e \<and> vif e = v)"
    using Cons.IH Cons.prems by auto
  ultimately show ?case
    by (cases "vif e = v") (auto split: option.splits)
qed simp

text \<open>Looking an interface up under the lock: not there, or one live entry of the list.\<close>

lemma locked_find:
  assumes "nd_wf hash s"
  obtains (absent) s1 where "list_lock_irqsave s = Some (irqs_on s, s1)" "s1 = s\<lparr>list_lock := True, irqs_on := False\<rparr>"
      "find_intf (nd_heap s) (xp_netdev_list s) i = Some None" "\<And>p e. nd_heap s p = Some e \<Longrightarrow> xpnet_intf_id e \<noteq> i"
  | (found) s1 p e where "list_lock_irqsave s = Some (irqs_on s, s1)" "s1 = s\<lparr>list_lock := True, irqs_on := False\<rparr>"
      "find_intf (nd_heap s) (xp_netdev_list s) i = Some (Some p)" "nd_heap s p = Some e" "xpnet_intf_id e = i"
proof -
  have l: "list_lock_irqsave s = Some (irqs_on s, s\<lparr>list_lock := True, irqs_on := False\<rparr>)"
    using assms by (simp add: nd_wf_def list_lock_irqsave_def)
  have d: "set (xp_netdev_list s) = dom (nd_heap s)"
    using assms by (simp add: nd_wf_def heap_ok_def)
  obtain r where r: "find_intf (nd_heap s) (xp_netdev_list s) i = Some r"
      "case r of None \<Rightarrow> \<forall>p \<in> set (xp_netdev_list s). \<forall>e. nd_heap s p = Some e \<longrightarrow> xpnet_intf_id e \<noteq> i
       | Some p \<Rightarrow> p \<in> set (xp_netdev_list s) \<and> (\<exists>e. nd_heap s p = Some e \<and> xpnet_intf_id e = i)"
    using find_intf_ok [of "xp_netdev_list s" "nd_heap s" i] d by blast
  show ?thesis
  proof (cases r)
    case None
    then show ?thesis
      using absent [OF l refl] r d by auto
  next
    case (Some p)
    then show ?thesis
      using found [OF l refl] r by auto
  qed
qed

lemma nd_wf_relock:
  assumes "nd_wf hash s"
  shows "list_unlock_irqrestore (irqs_on s) (s\<lparr>list_lock := True, irqs_on := False\<rparr>) = s"
  using assms by (simp add: nd_wf_def list_unlock_irqrestore_def)

lemma heap_ok_cong:
  "xp_netdev_list s' = xp_netdev_list s \<Longrightarrow> nd_heap s' = nd_heap s \<Longrightarrow> nd_next s' = nd_next s \<Longrightarrow> heap_ok s' = heap_ok s"
  by (simp add: heap_ok_def)

lemma hash_ok_cong: "nd_heap s' = nd_heap s \<Longrightarrow> htable s' = htable s \<Longrightarrow> hash_ok hash s' = hash_ok hash s"
  by (simp add: hash_ok_def)

lemma nd_wfI:
  assumes "\<not> list_lock s" "heap_ok s'" "xp_netdev_list s = xp_netdev_list s'" "nd_heap s = nd_heap s'" "nd_next s = nd_next s'"
    "hash_ok hash s" "trap_table s = Some t" "trap_wf t"
  shows "nd_wf hash s"
  using assms heap_ok_cong [of s s'] by (simp add: nd_wf_def)

lemma hash_ok_mem:
  "hash_ok hash s \<Longrightarrow> p \<in> set (htable s b) \<longleftrightarrow> (\<exists>e. nd_heap s p = Some e \<and> vif e \<noteq> XP_NO_VIF \<and> hash (vif e) = b)"
  by (simp add: hash_ok_def)

lemma hash_okI:
  assumes "\<And>b. distinct (htable s b)"
    "\<And>b p. p \<in> set (htable s b) \<longleftrightarrow> (\<exists>e. nd_heap s p = Some e \<and> vif e \<noteq> XP_NO_VIF \<and> hash (vif e) = b)"
  shows "hash_ok hash s"
  using assms by (simp add: hash_ok_def)

lemma heap_okI:
  assumes "distinct (xp_netdev_list s)" "set (xp_netdev_list s) = dom (nd_heap s)" "\<And>p e. nd_heap s p = Some e \<Longrightarrow> p < nd_next s"
    "\<And>p q e f. nd_heap s p = Some e \<Longrightarrow> nd_heap s q = Some f \<Longrightarrow> xpnet_intf_id e = xpnet_intf_id f \<Longrightarrow> p = q"
    "\<And>p e. nd_heap s p = Some e \<Longrightarrow> \<not> netdev_priv_lock e \<and> length (tx_header e) = TX_HDR_LEN"
  shows "heap_ok s"
  unfolding heap_ok_def using assms by blast

lemma heap_okD:
  assumes "heap_ok s"
  shows "distinct (xp_netdev_list s)" "set (xp_netdev_list s) = dom (nd_heap s)" "\<And>p e. nd_heap s p = Some e \<Longrightarrow> p < nd_next s"
    "\<And>p q e f. nd_heap s p = Some e \<Longrightarrow> nd_heap s q = Some f \<Longrightarrow> xpnet_intf_id e = xpnet_intf_id f \<Longrightarrow> p = q"
    "\<And>p e. nd_heap s p = Some e \<Longrightarrow> \<not> netdev_priv_lock e"
    "\<And>p e. nd_heap s p = Some e \<Longrightarrow> length (tx_header e) = TX_HDR_LEN"
  using assms unfolding heap_ok_def by blast+

text \<open>The four ways in which the handlers change the tables keep the invariant.\<close>

lemma nd_wf_insert:
  assumes "nd_wf hash s" "xpnet_intf_id e = i" "vif e = XP_NO_VIF" "\<not> netdev_priv_lock e" "length (tx_header e) = TX_HDR_LEN"
    "\<And>p e. nd_heap s p = Some e \<Longrightarrow> xpnet_intf_id e \<noteq> i"
  shows "nd_wf hash (s\<lparr>nd_next := Suc (nd_next s), nd_heap := (nd_heap s)(nd_next s \<mapsto> e),
      xp_netdev_list := nd_next s # xp_netdev_list s\<rparr>)"
proof -
  have h: "heap_ok s"
    using assms(1) by (simp add: nd_wf_def)
  have fresh: "nd_next s \<notin> dom (nd_heap s)"
    using heap_okD(3) [OF h] by auto
  have "heap_ok (s\<lparr>nd_next := Suc (nd_next s), nd_heap := (nd_heap s)(nd_next s \<mapsto> e),
      xp_netdev_list := nd_next s # xp_netdev_list s\<rparr>)"
  proof (rule heap_okI, goal_cases)
    case (4 p q a f)
    then show ?case
      using assms(2,6) heap_okD(4) [OF h] by (auto split: if_splits)
  qed (use assms(4,5) fresh heap_okD [OF h] in \<open>auto simp: less_Suc_eq split: if_splits\<close>)
  moreover have "hash_ok hash (s\<lparr>nd_next := Suc (nd_next s), nd_heap := (nd_heap s)(nd_next s \<mapsto> e),
      xp_netdev_list := nd_next s # xp_netdev_list s\<rparr>)"
    using assms(1,3) fresh by (auto simp: nd_wf_def hash_ok_def)
  ultimately show ?thesis
    using assms(1) by (simp add: nd_wf_def)
qed

lemma nd_wf_remove:
  assumes "nd_wf hash s" "nd_heap s p = Some e"
  shows "nd_wf hash (netdev_remove s p)"
proof -
  have "heap_ok (netdev_remove s p)"
    using assms unfolding nd_wf_def heap_ok_def netdev_remove_def by (auto split: if_splits)
  moreover have "hash_ok hash (netdev_remove s p)"
    using assms by (auto simp: nd_wf_def hash_ok_def netdev_remove_def hash_del_def distinct_removeAll)
  ultimately show ?thesis
    using assms(1) by (simp add: nd_wf_def netdev_remove_def)
qed

lemma heap_ok_update:
  assumes "heap_ok s" "nd_heap s p = Some e" "xpnet_intf_id e' = xpnet_intf_id e" "\<not> netdev_priv_lock e'"
    "length (tx_header e') = TX_HDR_LEN"
  shows "heap_ok (s\<lparr>nd_heap := (nd_heap s)(p \<mapsto> e')\<rparr>)"
  using assms unfolding heap_ok_def by (auto simp: insert_absorb)

lemma nd_wf_link:
  assumes "nd_wf hash s" "nd_heap s p = Some e" "vif e = XP_NO_VIF" "v \<noteq> XP_NO_VIF"
  shows "nd_wf hash (s\<lparr>nd_heap := (nd_heap s)(p \<mapsto> e\<lparr>netdev_type := ty, vif := v\<rparr>), htable := hash_add hash (htable s) p v\<rparr>)"
proof -
  have "heap_ok s" "\<not> netdev_priv_lock e" "length (tx_header e) = TX_HDR_LEN"
    using assms(1,2) by (auto simp: nd_wf_def heap_ok_def)
  then have h: "heap_ok (s\<lparr>nd_heap := (nd_heap s)(p \<mapsto> e\<lparr>netdev_type := ty, vif := v\<rparr>)\<rparr>)"
    using assms(2) by (intro heap_ok_update) simp_all
  have ht: "hash_ok hash s"
    using assms(1) by (simp add: nd_wf_def)
  have np: "p \<notin> set (htable s b)" for b
    using assms(2,3) by (simp add: hash_ok_mem [OF ht])
  have "hash_ok hash (s\<lparr>nd_heap := (nd_heap s)(p \<mapsto> e\<lparr>netdev_type := ty, vif := v\<rparr>), htable := hash_add hash (htable s) p v\<rparr>)"
  proof (rule hash_okI, goal_cases)
    case (1 b)
    then show ?case
      using ht np by (simp add: hash_add_def hash_ok_def)
  next
    case (2 b q)
    show ?case
      using np assms(4) by (cases "q = p") (auto simp: hash_add_def hash_ok_mem [OF ht])
  qed
  moreover obtain tt where "trap_table s = Some tt" "trap_wf tt" "\<not> list_lock s"
    using assms(1) by (auto simp: nd_wf_def)
  ultimately show ?thesis
    by (intro nd_wfI [OF _ h]) auto
qed

lemma nd_wf_unlink:
  assumes "nd_wf hash s" "nd_heap s p = Some e"
  shows "nd_wf hash (s\<lparr>htable := hash_del (htable s) p, nd_heap := (nd_heap s)(p \<mapsto> e\<lparr>vif := XP_NO_VIF\<rparr>)\<rparr>)"
proof -
  have "heap_ok s" "\<not> netdev_priv_lock e" "length (tx_header e) = TX_HDR_LEN"
    using assms by (auto simp: nd_wf_def heap_ok_def)
  then have h: "heap_ok (s\<lparr>nd_heap := (nd_heap s)(p \<mapsto> e\<lparr>vif := XP_NO_VIF\<rparr>)\<rparr>)"
    using assms(2) by (intro heap_ok_update) simp_all
  have ht: "hash_ok hash s"
    using assms(1) by (simp add: nd_wf_def)
  have "hash_ok hash (s\<lparr>htable := hash_del (htable s) p, nd_heap := (nd_heap s)(p \<mapsto> e\<lparr>vif := XP_NO_VIF\<rparr>)\<rparr>)"
  proof (rule hash_okI, goal_cases)
    case (1 b)
    then show ?case
      using ht by (simp add: hash_del_def hash_ok_def distinct_removeAll)
  next
    case (2 b q)
    show ?case
      by (cases "q = p") (auto simp: hash_del_def hash_ok_mem [OF ht])
  qed
  moreover obtain tt where "trap_table s = Some tt" "trap_wf tt" "\<not> list_lock s"
    using assms(1) by (auto simp: nd_wf_def)
  ultimately show ?thesis
    by (intro nd_wfI [OF _ h]) auto
qed

lemma nd_wf_entry:
  assumes "nd_wf hash s" "nd_heap s p = Some e" "xpnet_intf_id e' = xpnet_intf_id e" "vif e' = vif e"
    "\<not> netdev_priv_lock e'" "length (tx_header e') = TX_HDR_LEN"
  shows "nd_wf hash (s\<lparr>nd_heap := (nd_heap s)(p \<mapsto> e')\<rparr>)"
proof -
  have "heap_ok (s\<lparr>nd_heap := (nd_heap s)(p \<mapsto> e')\<rparr>)"
    using assms by (intro heap_ok_update) (auto simp: nd_wf_def)
  moreover have "hash_ok hash (s\<lparr>nd_heap := (nd_heap s)(p \<mapsto> e')\<rparr>)"
    using assms by (auto simp: nd_wf_def hash_ok_def)
  ultimately show ?thesis
    using assms(1) by (simp add: nd_wf_def)
qed


subsection \<open>What the handlers do on well-formed tables\<close>

text \<open>Interfaces as user space knows them: the entry with an interface id.\<close>

definition intf_of :: "xp_intf \<Rightarrow> u32 \<Rightarrow> xp_netdev_priv option" where
  "intf_of s i =
     do { f \<leftarrow> find_intf (nd_heap s) (xp_netdev_list s) i; p \<leftarrow> f; nd_heap s p }"

lemma intf_of_Some_iff:
  assumes "nd_wf hash s"
  shows "intf_of s i = Some e \<longleftrightarrow> xpnet_intf_id e = i \<and> (\<exists>p. nd_heap s p = Some e)"
proof -
  have h: "heap_ok s"
    using assms by (simp add: nd_wf_def)
  from assms show ?thesis
  proof (cases rule: locked_find [where i = i])
    case (absent s1)
    then show ?thesis
      by (auto simp: intf_of_def)
  next
    case (found s1 p e1)
    then have "q = p" if "nd_heap s q = Some e" "xpnet_intf_id e = i" for q
      using heap_okD(4) [OF h that(1), of p e1] that(2) by simp
    then show ?thesis
      using found by (auto simp: intf_of_def)
  qed
qed

lemma intf_of_None_iff: "nd_wf hash s \<Longrightarrow> intf_of s i = None \<longleftrightarrow> (\<forall>p e. nd_heap s p = Some e \<longrightarrow> xpnet_intf_id e \<noteq> i)"
  using intf_of_Some_iff [of hash s i] by (metis not_Some_eq)

lemma intf_of_cong: "nd_heap s' = nd_heap s \<Longrightarrow> xp_netdev_list s' = xp_netdev_list s \<Longrightarrow> intf_of s' i = intf_of s i"
  by (simp add: intf_of_def)

lemma intf_of_heap_update:
  assumes "nd_wf hash s" "nd_wf hash s'" "nd_heap s p = Some e" "nd_heap s' = (nd_heap s)(p \<mapsto> e')"
    "xpnet_intf_id e' = xpnet_intf_id e"
  shows "intf_of s' i = (if i = xpnet_intf_id e then Some e' else intf_of s i)"
proof -
  have h: "heap_ok s"
    using assms(1) by (simp add: nd_wf_def)
  have "intf_of s' i = Some x \<longleftrightarrow> (if i = xpnet_intf_id e then Some e' else intf_of s i) = Some x" for x
  proof (cases "i = xpnet_intf_id e")
    case True
    then have "q = p" if "nd_heap s q = Some f" "xpnet_intf_id f = i" for q f
      using heap_okD(4) [OF h that(1) assms(3)] that(2) by simp
    then show ?thesis
      using True assms(4,5) unfolding intf_of_Some_iff [OF assms(2)] by auto
  next
    case False
    then show ?thesis
      using assms(3-5) unfolding intf_of_Some_iff [OF assms(2)] by (auto simp: intf_of_Some_iff [OF assms(1)]) (metis option.inject)
  qed
  then show ?thesis
    by (metis option.exhaust)
qed

text \<open>
  The contract of the handlers: the table of interfaces as a map from interface ids, with one
  operation per message.
\<close>

definition fresh_intf :: "u32 \<Rightarrow> xp_netdev_priv" where
  "fresh_intf i = xp_netdev_setup\<lparr>xpnet_intf_id := i, vif := XP_NO_VIF\<rparr>"

definition spec_create :: "bool \<Rightarrow> u32 \<Rightarrow> (u32 \<rightharpoonup> xp_netdev_priv) \<Rightarrow> (u32 \<rightharpoonup> xp_netdev_priv)" where
  "spec_create registered i A = (if A i = None \<and> registered then A(i \<mapsto> fresh_intf i) else A)"

definition spec_link :: "u32 \<Rightarrow> u32 \<Rightarrow> (u32 \<rightharpoonup> xp_netdev_priv) \<Rightarrow> (u32 \<rightharpoonup> xp_netdev_priv)" where
  "spec_link i v A =
     (case (A i, link_type v) of
        (Some e, Some ty) \<Rightarrow> if vif e = XP_NO_VIF then A(i \<mapsto> e\<lparr>netdev_type := ty, vif := v\<rparr>) else A
      | _ \<Rightarrow> A)"

definition spec_update :: "u32 \<Rightarrow> (xp_netdev_priv \<Rightarrow> xp_netdev_priv) \<Rightarrow> (u32 \<rightharpoonup> xp_netdev_priv) \<Rightarrow> (u32 \<rightharpoonup> xp_netdev_priv)" where
  "spec_update i f A = (case A i of Some e \<Rightarrow> A(i \<mapsto> f e) | None \<Rightarrow> A)"

definition set_header :: "xp_nl_msg_tx_hdr_t \<Rightarrow> xp_netdev_priv \<Rightarrow> xp_netdev_priv" where
  "set_header msg e =
     (if hm_operation msg = XP_NL_OPERATION_ADD then e\<lparr>tx_header := hm_tx_header msg, is_tx_header_set := True\<rparr>
      else if hm_operation msg = XP_NL_OPERATION_REMOVE
      then e\<lparr>tx_header := replicate TX_HDR_LEN 0, is_tx_header_set := False\<rparr> else e)"

lemma link_type_ne_no_vif: "link_type v = Some ty \<Longrightarrow> v \<noteq> XP_NO_VIF"
  by (auto simp: link_type_def XP_NO_VIF_def split: if_splits)

lemma list_unlock_simps [simp]:
  "nd_heap (list_unlock_irqrestore f s) = nd_heap s" "xp_netdev_list (list_unlock_irqrestore f s) = xp_netdev_list s"
  "htable (list_unlock_irqrestore f s) = htable s" "trap_table (list_unlock_irqrestore f s) = trap_table s"
  "irqs_on (list_unlock_irqrestore f s) = f" "list_lock (list_unlock_irqrestore f s) = False"
  "nd_next (list_unlock_irqrestore f s) = nd_next s" "alloc_ok (list_unlock_irqrestore f s) = alloc_ok s"
  by (simp_all add: list_unlock_irqrestore_def)

text \<open>A state reached under the lock is well formed after the unlock if its tables are.\<close>

lemma nd_wf_unlocked:
  assumes "nd_wf hash s'" "nd_heap t = nd_heap s'" "xp_netdev_list t = xp_netdev_list s'" "htable t = htable s'"
    "trap_table t = trap_table s'" "nd_next t = nd_next s'"
  shows "nd_wf hash (list_unlock_irqrestore f t)"
  using assms heap_ok_cong [of "list_unlock_irqrestore f t" s'] hash_ok_cong [of "list_unlock_irqrestore f t" s' hash]
  by (simp add: nd_wf_def)

lemma nd_wf_skip_addr: "nd_wf hash s \<Longrightarrow> nd_wf hash (s\<lparr>nd_next := Suc (nd_next s)\<rparr>)"
  by (auto simp: nd_wf_def heap_ok_def hash_ok_def less_Suc_eq)

lemma intf_of_remove:
  assumes "nd_wf hash s" "nd_heap s p = Some e" "nd_wf hash s'" "nd_heap s' = (nd_heap s)(p := None)"
  shows "intf_of s' = (intf_of s)(xpnet_intf_id e := None)"
proof
  fix i
  have h: "heap_ok s"
    using assms(1) by (simp add: nd_wf_def)
  have "intf_of s' i = Some x \<longleftrightarrow> ((intf_of s)(xpnet_intf_id e := None)) i = Some x" for x
  proof (cases "i = xpnet_intf_id e")
    case True
    then have "q = p" if "nd_heap s q = Some f" "xpnet_intf_id f = i" for q f
      using heap_okD(4) [OF h that(1) assms(2)] that(2) by simp
    then show ?thesis
      using True assms(4) by (auto simp: intf_of_Some_iff [OF assms(3)])
  next
    case False
    then show ?thesis
      using assms(2,4) by (auto simp: intf_of_Some_iff [OF assms(1)] intf_of_Some_iff [OF assms(3)]) (metis option.inject)
  qed
  then show "intf_of s' i = ((intf_of s)(xpnet_intf_id e := None)) i"
    by (metis option.exhaust)
qed

lemma intf_of_insert:
  assumes "nd_wf hash s" "nd_wf hash s'" "nd_heap s' = (nd_heap s)(nd_next s \<mapsto> e)" "intf_of s (xpnet_intf_id e) = None"
  shows "intf_of s' = (intf_of s)(xpnet_intf_id e \<mapsto> e)"
proof
  fix i
  have "heap_ok s"
    using assms(1) by (simp add: nd_wf_def)
  then have "nd_heap s (nd_next s) = None"
    using heap_okD(3) by (metis less_irrefl option.exhaust)
  then have "intf_of s' i = Some x \<longleftrightarrow> ((intf_of s)(xpnet_intf_id e \<mapsto> e)) i = Some x" for x
    using assms(3,4) intf_of_None_iff [OF assms(1)]
    by (auto simp: intf_of_Some_iff [OF assms(1)] intf_of_Some_iff [OF assms(2)]) (metis option.distinct(1))
  then show "intf_of s' i = ((intf_of s)(xpnet_intf_id e \<mapsto> e)) i"
    by (metis option.exhaust)
qed

text \<open>Each handler returns, keeps the invariant and acts on the map as its contract says.\<close>

lemma if_create_ok:
  assumes "nd_wf hash s" "intf_of s (im_intf_id msg) = None \<Longrightarrow> alloc_ok s (nd_next s)"
  shows "\<exists>rc s'. xp_nl_msg_if_create s msg = Some (rc, s') \<and> nd_wf hash s' \<and> irqs_on s' = irqs_on s \<and>
    intf_of s' = spec_create (register_ok s (nd_next s)) (im_intf_id msg) (intf_of s) \<and>
    rc = (if intf_of s (im_intf_id msg) = None \<and> \<not> register_ok s (nd_next s) then - EPERM else 0)"
  using assms(1)
proof (cases rule: locked_find [where i = "im_intf_id msg"])
  case (found s1 p e)
  then show ?thesis
    using assms(1) nd_wf_relock [OF assms(1)]
    by (auto simp: xp_nl_msg_if_create_def spec_create_def intf_of_def)
next
  case (absent s1)
  have none: "intf_of s (im_intf_id msg) = None"
    using absent by (simp add: intf_of_def)
  let ?e = "xp_netdev_setup\<lparr>xpnet_intf_id := im_intf_id msg, vif := XP_NO_VIF\<rparr>"
  show ?thesis
  proof (cases "register_ok s (nd_next s)")
    case False
    have "nd_wf hash (list_unlock_irqrestore (irqs_on s) (s1\<lparr>nd_next := Suc (nd_next s)\<rparr>))"
      using absent(2) by (intro nd_wf_unlocked [OF nd_wf_skip_addr [OF assms(1)]]) simp_all
    moreover have "intf_of (list_unlock_irqrestore (irqs_on s) (s1\<lparr>nd_next := Suc (nd_next s)\<rparr>)) = intf_of s"
      using absent(2) by (intro ext intf_of_cong) simp_all
    ultimately show ?thesis
      using absent False none assms(2) by (auto simp: xp_nl_msg_if_create_def spec_create_def Let_def)
  next
    case True
    let ?s = "list_unlock_irqrestore (irqs_on s) (s1\<lparr>nd_next := Suc (nd_next s), nd_heap := (nd_heap s)(nd_next s \<mapsto> ?e),
        xp_netdev_list := nd_next s # xp_netdev_list s\<rparr>)"
    have wf: "nd_wf hash ?s"
      using absent(2,4) by (intro nd_wf_unlocked [OF nd_wf_insert [OF assms(1), of ?e "im_intf_id msg"]])
        (auto simp: xp_netdev_setup_def)
    moreover have "intf_of ?s = (intf_of s)(im_intf_id msg \<mapsto> ?e)"
      using intf_of_insert [OF assms(1) wf, of ?e] absent(2) none by simp
    ultimately show ?thesis
      using absent True none assms(2) by (auto simp: xp_nl_msg_if_create_def spec_create_def Let_def fresh_intf_def)
  qed
qed

lemma if_create_no_memory:
  assumes "nd_wf hash s" "intf_of s (im_intf_id msg) = None" "\<not> alloc_ok s (nd_next s)"
  shows "xp_nl_msg_if_create s msg = None"
  using assms(1)
proof (cases rule: locked_find [where i = "im_intf_id msg"])
  case (found s1 p e)
  then show ?thesis
    using assms(2) by (simp add: intf_of_def)
qed (use assms(3) in \<open>simp add: xp_nl_msg_if_create_def Let_def\<close>)

lemma if_delete_ok:
  assumes "nd_wf hash s"
  shows "\<exists>s'. xp_nl_msg_if_delete s msg = Some (0, s') \<and> nd_wf hash s' \<and> irqs_on s' = irqs_on s \<and>
    intf_of s' = (intf_of s)(im_intf_id msg := None)"
  using assms
proof (cases rule: locked_find [where i = "im_intf_id msg"])
  case (absent s1)
  then have "(intf_of s)(im_intf_id msg := None) = intf_of s"
    by (auto simp: intf_of_def)
  then show ?thesis
    using absent assms nd_wf_relock [OF assms] by (simp add: xp_nl_msg_if_delete_def)
next
  case (found s1 p e)
  let ?s = "list_unlock_irqrestore (irqs_on s) (netdev_remove s1 p)"
  have wf: "nd_wf hash ?s"
    using found(2) by (intro nd_wf_unlocked [OF nd_wf_remove [OF assms found(4)]]) (simp_all add: netdev_remove_def)
  moreover have "intf_of ?s = (intf_of s)(im_intf_id msg := None)"
    using intf_of_remove [OF assms found(4) wf] found(2,5) by (simp add: netdev_remove_def)
  ultimately show ?thesis
    using found by (simp add: xp_nl_msg_if_delete_def)
qed

lemma if_link_ok:
  assumes "nd_wf hash s"
  shows "\<exists>s'. xp_nl_msg_if_link hash s msg = Some (0, s') \<and> nd_wf hash s' \<and> irqs_on s' = irqs_on s \<and>
    intf_of s' = spec_link (lm_intf_id msg) (lm_vif msg) (intf_of s)"
  using assms
proof (cases rule: locked_find [where i = "lm_intf_id msg"])
  case (absent s1)
  then show ?thesis
    using assms nd_wf_relock [OF assms] by (simp add: xp_nl_msg_if_link_def spec_link_def intf_of_def)
next
  case (found s1 p e)
  have i: "intf_of s (lm_intf_id msg) = Some e"
    using found by (simp add: intf_of_def)
  show ?thesis
  proof (cases "vif e = XP_NO_VIF \<and> link_type (lm_vif msg) \<noteq> None")
    case False
    then show ?thesis
      using found i assms nd_wf_relock [OF assms]
      by (auto simp: xp_nl_msg_if_link_def spec_link_def split: option.splits)
  next
    case True
    then obtain ty where ty: "link_type (lm_vif msg) = Some ty" "vif e = XP_NO_VIF"
      by auto
    let ?e = "e\<lparr>netdev_type := ty, vif := lm_vif msg\<rparr>"
    let ?s = "list_unlock_irqrestore (irqs_on s)
      (s1\<lparr>nd_heap := (nd_heap s)(p \<mapsto> ?e), htable := hash_add hash (htable s) p (lm_vif msg)\<rparr>)"
    have wf: "nd_wf hash ?s"
      using found(2)
      by (intro nd_wf_unlocked [OF nd_wf_link [OF assms found(4) ty(2) link_type_ne_no_vif [OF ty(1)]]]) simp_all
    moreover have "intf_of ?s = (intf_of s)(lm_intf_id msg \<mapsto> ?e)"
      using intf_of_heap_update [OF assms wf found(4), of ?e] found(2,5) by (auto simp: fun_eq_iff)
    ultimately show ?thesis
      using found i ty by (simp add: xp_nl_msg_if_link_def spec_link_def)
  qed
qed

lemma if_unlink_ok:
  assumes "nd_wf hash s"
  shows "\<exists>s'. xp_nl_msg_if_unlink s msg = Some (0, s') \<and> nd_wf hash s' \<and> irqs_on s' = irqs_on s \<and>
    intf_of s' = spec_update (lm_intf_id msg) (\<lambda>e. e\<lparr>vif := XP_NO_VIF\<rparr>) (intf_of s)"
  using assms
proof (cases rule: locked_find [where i = "lm_intf_id msg"])
  case (absent s1)
  then show ?thesis
    using assms nd_wf_relock [OF assms] by (simp add: xp_nl_msg_if_unlink_def spec_update_def intf_of_def)
next
  case (found s1 p e)
  have i: "intf_of s (lm_intf_id msg) = Some e"
    using found by (simp add: intf_of_def)
  let ?s = "list_unlock_irqrestore (irqs_on s)
    (s1\<lparr>htable := hash_del (htable s) p, nd_heap := (nd_heap s)(p \<mapsto> e\<lparr>vif := XP_NO_VIF\<rparr>)\<rparr>)"
  have wf: "nd_wf hash ?s"
    using found(2) by (intro nd_wf_unlocked [OF nd_wf_unlink [OF assms found(4)]]) simp_all
  moreover have "intf_of ?s = (intf_of s)(lm_intf_id msg \<mapsto> e\<lparr>vif := XP_NO_VIF\<rparr>)"
    using intf_of_heap_update [OF assms wf found(4)] found(2,5) by (auto simp: fun_eq_iff)
  ultimately show ?thesis
    using found i by (simp add: xp_nl_msg_if_unlink_def spec_update_def)
qed

lemma tx_header_ok:
  assumes "nd_wf hash s" "length (hm_tx_header msg) = TX_HDR_LEN"
  shows "\<exists>s'. xp_nl_msg_tx_header s msg = Some (0, s') \<and> nd_wf hash s' \<and>
    intf_of s' = spec_update (hm_intf_id msg) (set_header msg) (intf_of s) \<and>
    irqs_on s' = (irqs_on s \<and> intf_of s (hm_intf_id msg) = None)"
  using assms(1)
proof (cases rule: locked_find [where i = "hm_intf_id msg"])
  case (absent s1)
  then show ?thesis
    using assms nd_wf_relock [OF assms(1)] by (simp add: xp_nl_msg_tx_header_def spec_update_def intf_of_def)
next
  case (found s1 p e)
  have i: "intf_of s (hm_intf_id msg) = Some e"
    using found by (simp add: intf_of_def)
  have h: "\<not> netdev_priv_lock e" "length (tx_header e) = TX_HDR_LEN"
    using assms(1) found(4) heap_okD(5,6) by (auto simp: nd_wf_def)
  let ?s = "list_unlock_irqrestore False (s1\<lparr>nd_heap := (nd_heap s)(p \<mapsto> set_header msg e)\<rparr>)"
  have w: "nd_wf hash (s\<lparr>nd_heap := (nd_heap s)(p \<mapsto> set_header msg e)\<rparr>)"
    using h assms(2) by (intro nd_wf_entry [OF assms(1) found(4)]) (simp_all add: set_header_def)
  have wf: "nd_wf hash ?s"
    using found(2) by (intro nd_wf_unlocked [OF w]) simp_all
  moreover have "intf_of ?s = (intf_of s)(hm_intf_id msg \<mapsto> set_header msg e)"
    using intf_of_heap_update [OF assms(1) wf found(4)] found(2,5) by (auto simp: fun_eq_iff set_header_def)
  moreover have "xp_nl_msg_tx_header s msg = Some (0, ?s)"
    using found h by (simp add: xp_nl_msg_tx_header_def set_header_def Let_def list_unlock_irqrestore_def)
  ultimately show ?thesis
    using i by (simp add: spec_update_def)
qed

text \<open>The handlers that do not touch the interfaces.\<close>

lemma nd_wf_tables:
  assumes "nd_wf hash s" "nd_heap s' = nd_heap s" "xp_netdev_list s' = xp_netdev_list s" "htable s' = htable s"
    "nd_next s' = nd_next s" "list_lock s' = list_lock s" "trap_table s' = Some t" "trap_wf t"
  shows "nd_wf hash s'"
  using assms heap_ok_cong [of s' s] hash_ok_cong [of s' s hash] by (simp add: nd_wf_def)

lemma nl_trap_ok:
  assumes "nd_wf hash s"
  shows "\<exists>rc s'. xp_nl_msg_trap s msg = Some (rc, s') \<and> nd_wf hash s' \<and> irqs_on s' = irqs_on s \<and> intf_of s' = intf_of s"
proof -
  obtain t where t: "trap_table s = Some t" "trap_wf t"
    using assms by (auto simp: nd_wf_def)
  have keep: "nd_wf hash (s\<lparr>trap_table := Some t'\<rparr>) \<and> irqs_on (s\<lparr>trap_table := Some t'\<rparr>) = irqs_on s \<and>
      intf_of (s\<lparr>trap_table := Some t'\<rparr>) = intf_of s" if "trap_wf t'" for t'
    using nd_wf_tables [OF assms, of "s\<lparr>trap_table := Some t'\<rparr>" t'] that by (auto simp: intf_of_def fun_eq_iff)
  have added: "\<exists>r t'. xp_trap_id_entry_add (kmalloc_ok s) t c = Some (r, t') \<and> trap_wf t'"
    if "unat (tc_rc c) \<le> XP_MAX_REASON_CODE" for c
  proof (cases "XP_MAX_TRAP_ID < unat (tc_trap_id c) \<or> \<not> kmalloc_ok s")
    case True
    then show ?thesis
      using t(2) by (auto simp: xp_trap_id_entry_add_def)
  next
    case False
    then show ?thesis
      using trap_add_ok [OF t(2), of c] that by auto
  qed
  have removed: "\<exists>r t'. xp_trap_id_entry_remove t i = Some (r, t') \<and> trap_wf t'" for i
    using trap_remove_ok [OF t(2), of i] t(2)
    by (cases "XP_MAX_TRAP_ID < unat i") (auto simp: xp_trap_id_entry_remove_def)
  consider (big) "tm_operation msg = XP_NL_OPERATION_ADD" "XP_MAX_REASON_CODE < unat (tm_rc msg)"
    | (add) "tm_operation msg = XP_NL_OPERATION_ADD" "\<not> XP_MAX_REASON_CODE < unat (tm_rc msg)"
    | (rem) "tm_operation msg = XP_NL_OPERATION_REMOVE" "tm_operation msg \<noteq> XP_NL_OPERATION_ADD"
    | (other) "tm_operation msg \<noteq> XP_NL_OPERATION_ADD" "tm_operation msg \<noteq> XP_NL_OPERATION_REMOVE"
    by blast
  then show ?thesis
  proof cases
    case add
    let ?c = "\<lparr>tc_fd = tm_fd msg, tc_rc = tm_rc msg, tc_trap_id = tm_trap_id msg, tc_rx_count = 0,
       tc_sock_ptr = (if tm_ch msg = XP_NL_HOSTIF_TRAP_FD then fst (sockfd_lookup s (tm_fd msg)) else None),
       tc_ch = tm_ch msg\<rparr>"
    obtain r t' where "xp_trap_id_entry_add (kmalloc_ok s) t ?c = Some (r, t')" "trap_wf t'"
      using added [of ?c] add by auto
    then show ?thesis
      using add t(1) keep [of t'] by (simp add: xp_nl_msg_trap_def)
  next
    case rem
    obtain r t' where "xp_trap_id_entry_remove t (tm_trap_id msg) = Some (r, t')" "trap_wf t'"
      using removed by blast
    then show ?thesis
      using rem t(1) keep [of t'] by (simp add: xp_nl_msg_trap_def)
  qed (use assms in \<open>simp_all add: xp_nl_msg_trap_def\<close>)
qed

lemma nl_cb_fd_ok:
  assumes "nd_wf hash s"
  shows "\<exists>rc s'. xp_nl_msg_cb_fd s msg = Some (rc, s') \<and> nd_wf hash s' \<and> irqs_on s' = irqs_on s \<and> intf_of s' = intf_of s"
proof -
  obtain t where t: "trap_table s = Some t" "trap_wf t"
    using assms by (auto simp: nd_wf_def)
  have "nd_wf hash (s\<lparr>cb_sock_ptr := k\<rparr>) \<and> intf_of (s\<lparr>cb_sock_ptr := k\<rparr>) = intf_of s" for k
    using nd_wf_tables [OF assms, of "s\<lparr>cb_sock_ptr := k\<rparr>" t] t by (auto simp: intf_of_def fun_eq_iff)
  then show ?thesis
    by (auto simp: xp_nl_msg_cb_fd_def split: prod.splits option.splits)
qed

lemma nl_mirror_ok:
  assumes "nd_wf hash s"
  shows "\<exists>rc s'. xp_nl_msg_mirror s msg = Some (rc, s') \<and> nd_wf hash s' \<and> irqs_on s' = irqs_on s \<and> intf_of s' = intf_of s"
proof -
  obtain t where t: "trap_table s = Some t" "trap_wf t"
    using assms by (auto simp: nd_wf_def)
  have "nd_wf hash (s\<lparr>packet_mirroring_enable := k\<rparr>) \<and> intf_of (s\<lparr>packet_mirroring_enable := k\<rparr>) = intf_of s" for k
    using nd_wf_tables [OF assms, of "s\<lparr>packet_mirroring_enable := k\<rparr>" t] t by (auto simp: intf_of_def fun_eq_iff)
  then show ?thesis
    using assms by (simp add: xp_nl_msg_mirror_def)
qed

subsection \<open>Lookup in the hash table and removal of every interface\<close>

text \<open>
  The bucket of a link number finds an interface with that link number if any interface has
  it: the hash table implements the search over all interfaces.
\<close>

lemma hash_lookup:
  assumes "nd_wf hash s" "v \<noteq> XP_NO_VIF"
  shows "\<exists>r. hlist_find (nd_heap s) (htable s (hash v)) v = Some r \<and>
    (case r of Some p \<Rightarrow> \<exists>e. nd_heap s p = Some e \<and> vif e = v
     | None \<Rightarrow> \<forall>p e. nd_heap s p = Some e \<longrightarrow> vif e \<noteq> v)"
proof -
  have h: "hash_ok hash s"
    using assms(1) by (simp add: nd_wf_def)
  have "\<exists>e. nd_heap s p = Some e" if "p \<in> set (htable s (hash v))" for p
    using that by (auto simp: hash_ok_mem [OF h])
  then obtain r where r: "hlist_find (nd_heap s) (htable s (hash v)) v = Some r"
      "case r of None \<Rightarrow> \<forall>p \<in> set (htable s (hash v)). \<forall>e. nd_heap s p = Some e \<longrightarrow> vif e \<noteq> v
       | Some p \<Rightarrow> p \<in> set (htable s (hash v)) \<and> (\<exists>e. nd_heap s p = Some e \<and> vif e = v)"
    using hlist_find_ok [of "htable s (hash v)" "nd_heap s" v] by blast
  moreover have "vif e \<noteq> v" if "r = None" "nd_heap s p = Some e" for p e
  proof
    assume "vif e = v"
    then have "p \<in> set (htable s (hash v))"
      using that(2) assms(2) by (auto simp: hash_ok_mem [OF h])
    then show False
      using r(2) that \<open>vif e = v\<close> by auto
  qed
  ultimately show ?thesis
    by (cases r) auto
qed

lemma netdev_remove_all_loop_ok:
  assumes "distinct ps" "\<And>p. p \<in> set ps \<Longrightarrow> nd_heap s p \<noteq> None"
  shows "\<exists>s'. netdev_remove_all_loop s ps = Some s' \<and> nd_heap s' = (\<lambda>p. if p \<in> set ps then None else nd_heap s p) \<and>
    xp_netdev_list s' = fold remove1 ps (xp_netdev_list s) \<and> htable s' = (\<lambda>b. filter (\<lambda>p. p \<notin> set ps) (htable s b)) \<and>
    irqs_on s' = irqs_on s \<and> list_lock s' = list_lock s"
  using assms
proof (induction ps arbitrary: s)
  case (Cons p ps)
  then have "\<And>q. q \<in> set ps \<Longrightarrow> nd_heap (netdev_remove s p) q \<noteq> None"
    by (auto simp: netdev_remove_def)
  then obtain s' where "netdev_remove_all_loop (netdev_remove s p) ps = Some s'"
      "nd_heap s' = (\<lambda>q. if q \<in> set ps then None else nd_heap (netdev_remove s p) q)"
      "xp_netdev_list s' = fold remove1 ps (xp_netdev_list (netdev_remove s p))"
      "htable s' = (\<lambda>b. filter (\<lambda>q. q \<notin> set ps) (htable (netdev_remove s p) b))"
      "irqs_on s' = irqs_on (netdev_remove s p)" "list_lock s' = list_lock (netdev_remove s p)"
    using Cons.IH [of "netdev_remove s p"] Cons.prems(1) by auto
  moreover obtain e where "nd_heap s p = Some e"
    using Cons.prems(2) [of p] by auto
  ultimately show ?case
    by (auto simp: netdev_remove_def hash_del_def fun_eq_iff removeAll_filter_not_eq intro!: filter_cong)
qed (simp add: fun_eq_iff)

lemma remove_all_loop_trap: "netdev_remove_all_loop s ps = Some s' \<Longrightarrow> trap_table s' = trap_table s"
  by (induction ps arbitrary: s) (auto simp: netdev_remove_def split: bind_splits)

lemma fold_remove1_self: "fold remove1 ps ps = []"
proof -
  have "fold remove1 ps (ps @ qs) = qs" for qs
    by (induction ps) simp_all
  from this [of "[]"] show ?thesis
    by simp
qed

lemma all_remove_ok:
  assumes h: "heap_ok s" "hash_ok hash s" "\<not> list_lock s"
  shows "\<exists>s'. xp_netdev_all_remove s = Some s' \<and> xp_netdev_list s' = [] \<and> nd_heap s' = Map.empty \<and>
    htable s' = (\<lambda>_. []) \<and> irqs_on s' = irqs_on s \<and> \<not> list_lock s'"
proof -
  have d: "set (xp_netdev_list s) = dom (nd_heap s)"
    by (rule heap_okD(2) [OF h(1)])
  let ?s = "s\<lparr>list_lock := True, irqs_on := False\<rparr>"
  obtain s' where s': "netdev_remove_all_loop ?s (xp_netdev_list s) = Some s'"
      "nd_heap s' = (\<lambda>p. if p \<in> set (xp_netdev_list s) then None else nd_heap ?s p)"
      "xp_netdev_list s' = fold remove1 (xp_netdev_list s) (xp_netdev_list ?s)"
      "htable s' = (\<lambda>b. filter (\<lambda>p. p \<notin> set (xp_netdev_list s)) (htable ?s b))"
    using netdev_remove_all_loop_ok [OF heap_okD(1) [OF h(1)], of ?s] d by auto
  have "nd_heap s' = Map.empty"
    using d s'(2) by (auto simp: fun_eq_iff)
  moreover have "htable s' = (\<lambda>_. [])"
    using d s'(4) hash_ok_mem [OF h(2)] by (auto simp: fun_eq_iff filter_empty_conv)
  ultimately show ?thesis
    using s' h(3) fold_remove1_self by (simp add: xp_netdev_all_remove_def list_lock_irqsave_def)
qed

end
