(* ===== verification/Ndo_Ops.thy ===== *)
theory Ndo_Ops
  imports Tx_Path Netdev_Intf
begin

text \<open>
  The operations of a network interface (\<open>xp_ndo\<close> of \<open>xp_netdev_intf.c\<close>) and the transmit side of
  the client socket (\<open>xp_packet_send\<close>): a packet gets the interface's TX header in front and is
  passed to \<open>xpnet_start_xmit\<close>. The lemmas show which bytes are transmitted, who frees which
  buffer on every path, and what a busy device leaves behind.
\<close>

text \<open>
  A socket buffer with its headroom: \<open>skb_head\<close> is what lies before \<open>skb->data\<close>.
  \<open>skb_push\<close> without room for the header stops the kernel.
\<close>

record skb_room =
  skb_head :: "u8 list"
  room_skb :: sk_buff

definition skb_headroom :: "skb_room \<Rightarrow> nat" where
  "skb_headroom b = length (skb_head b)"

definition skb_push :: "skb_room \<Rightarrow> nat \<Rightarrow> skb_room option" where
  "skb_push b n =
     (if skb_headroom b < n then None
      else let k = skb_headroom b - n in
        Some (b\<lparr>skb_head := take k (skb_head b),
                room_skb := (room_skb b)\<lparr>skb_data := drop k (skb_head b) @ skb_data (room_skb b),
                                         skb_len := skb_len (room_skb b) + of_nat n\<rparr>\<rparr>))"

subsection \<open>Operations\<close>

definition xp_ndo_open :: "xp_netdev_priv \<Rightarrow> rc \<times> xp_netdev_priv" where
  "xp_ndo_open e = (0, e\<lparr>nd_stopped := False\<rparr>)"

definition xp_ndo_stop :: "xp_netdev_priv \<Rightarrow> rc \<times> xp_netdev_priv" where
  "xp_ndo_stop e = (0, e\<lparr>nd_stopped := True\<rparr>)"

text \<open>\<open>dev->addr_len\<close> is 6 for Ethernet; \<open>sa_data\<close> is the address of the caller's \<open>sockaddr\<close>.\<close>

definition xp_ndo_set_mac_address :: "xp_netdev_priv \<Rightarrow> u8 list \<Rightarrow> (rc \<times> xp_netdev_priv) option" where
  "xp_ndo_set_mac_address e sa_data = do { a \<leftarrow> buf_read sa_data 0 6; Some (0, e\<lparr>nd_addr := a\<rparr>) }"

text \<open>
  The outcome of a transmission: how often the caller's buffer and the expanded copy (if one was
  made) were freed, the caller's buffer as it is left, the interface and the device.
\<close>

record xmit_result =
  xr_rc :: netdev_tx_t
  orig_frees :: nat
  copy_frees :: "nat option"
  orig_after :: skb_room
  xr_dev :: xp_netdev_priv
  xr_net :: xpnet_private

definition put_tx_header :: "xp_netdev_priv \<Rightarrow> skb_room \<Rightarrow> skb_room option" where
  "put_tx_header e b =
     do { b \<leftarrow> skb_push b TX_HDR_LEN;
          if netdev_priv_lock e then None
          else do { d \<leftarrow> buf_write (skb_data (room_skb b)) 0 (tx_header e);
                    Some (b\<lparr>room_skb := (room_skb b)\<lparr>skb_data := d\<rparr>\<rparr>) } }"

text \<open>
  \<open>expand\<close> is \<open>skb_copy_expand\<close> with the arguments of the call; its result is not tested, so a
  failure is a NULL dereference.
\<close>

definition xp_ndo_start_xmit ::
  "(skb_room \<Rightarrow> skb_room option) \<Rightarrow> (nat \<Rightarrow> xpnet_descriptor list \<Rightarrow> xpnet_descriptor list) \<Rightarrow> (sk_buff \<Rightarrow> u32) \<Rightarrow>
   skb_room \<Rightarrow> xp_netdev_priv \<Rightarrow> xpnet_private \<Rightarrow> xmit_result option"
where
  "xp_ndo_start_xmit expand chip stale skb dev net =
     (if \<not> nd_up dev then
        Some \<lparr>xr_rc = NETDEV_TX_OK, orig_frees = 1, copy_frees = None, orig_after = skb, xr_dev = dev, xr_net = net\<rparr>
      else if skb_headroom skb < TX_HDR_LEN then
        do { new_skb \<leftarrow> expand skb;
             new_skb \<leftarrow> put_tx_header dev new_skb;
             (rc, freed, net) \<leftarrow> xpnet_start_xmit chip stale (Some (room_skb new_skb)) net;
             Some (if rc = NETDEV_TX_OK then
                     \<lparr>xr_rc = rc, orig_frees = 1, copy_frees = Some (of_bool freed), orig_after = skb,
                      xr_dev = dev\<lparr>nd_tx_packets := nd_tx_packets dev + 1\<rparr>, xr_net = net\<rparr>
                   else
                     \<lparr>xr_rc = rc, orig_frees = 0, copy_frees = Some (of_bool freed + 1), orig_after = skb,
                      xr_dev = dev\<lparr>nd_stopped := True\<rparr>, xr_net = net\<rparr>) }
      else
        do { skb \<leftarrow> put_tx_header dev skb;
             (rc, freed, net) \<leftarrow> xpnet_start_xmit chip stale (Some (room_skb skb)) net;
             Some (if rc = NETDEV_TX_OK then
                     \<lparr>xr_rc = rc, orig_frees = of_bool freed, copy_frees = None, orig_after = skb,
                      xr_dev = dev\<lparr>nd_tx_packets := nd_tx_packets dev + 1\<rparr>, xr_net = net\<rparr>
                   else
                     \<lparr>xr_rc = rc, orig_frees = of_bool freed, copy_frees = None, orig_after = skb,
                      xr_dev = dev\<lparr>nd_stopped := True\<rparr>, xr_net = net\<rparr>) })"

text \<open>
  \<open>xp_packet_send\<close> takes one datagram from the receive queue of the client socket, strips its
  UDP header and transmits the rest. The boolean says that the datagram was taken and not freed.
\<close>

definition skb_pull_room :: "skb_room \<Rightarrow> nat \<Rightarrow> skb_room" where
  "skb_pull_room b n =
     (if unat (skb_len (room_skb b)) < n then b
      else b\<lparr>skb_head := skb_head b @ take n (skb_data (room_skb b)),
             room_skb := (room_skb b)\<lparr>skb_data := drop n (skb_data (room_skb b)),
                                      skb_len := skb_len (room_skb b) - of_nat n\<rparr>\<rparr>)"

definition xp_packet_send ::
  "(nat \<Rightarrow> xpnet_descriptor list \<Rightarrow> xpnet_descriptor list) \<Rightarrow> (sk_buff \<Rightarrow> u32) \<Rightarrow> skb_room list \<Rightarrow> xpnet_private \<Rightarrow>
   (bool \<times> skb_room list \<times> xpnet_private) option"
where
  "xp_packet_send chip stale sk_receive_queue net =
     (case sk_receive_queue of
        [] \<Rightarrow> Some (False, [], net)
      | skb # rest \<Rightarrow>
          do { (_, freed, net) \<leftarrow> xpnet_start_xmit chip stale (Some (room_skb (skb_pull_room skb 8))) net;
               Some (\<not> freed, rest, net) })"

subsection \<open>The header in front of the packet\<close>

definition packet_bytes :: "sk_buff \<Rightarrow> u8 list" where
  "packet_bytes s = take (unat (skb_len s)) (skb_data s)"

text \<open>
  A buffer without fragments (the interfaces do not offer scatter-gather) whose counter agrees
  with its data and leaves room for the header.
\<close>

definition room_wf :: "skb_room \<Rightarrow> bool" where
  "room_wf b \<longleftrightarrow>
     skb_data_len (room_skb b) = 0 \<and> unat (skb_len (room_skb b)) \<le> length (skb_data (room_skb b)) \<and>
     unat (skb_len (room_skb b)) < 2 ^ 31"

text \<open>What \<open>skb_copy_expand\<close> promises: the same packet with room for the header.\<close>

definition expand_ok :: "(skb_room \<Rightarrow> skb_room option) \<Rightarrow> bool" where
  "expand_ok expand \<longleftrightarrow>
     (\<forall>b c. room_wf b \<and> expand b = Some c \<longrightarrow>
        TX_HDR_LEN \<le> skb_headroom c \<and> room_wf c \<and> skb_len (room_skb c) = skb_len (room_skb b) \<and>
        packet_bytes (room_skb c) = packet_bytes (room_skb b))"

definition with_header :: "u8 list \<Rightarrow> skb_room \<Rightarrow> sk_buff" where
  "with_header h b =
     (room_skb b)\<lparr>skb_data := h @ skb_data (room_skb b), skb_len := skb_len (room_skb b) + of_nat (length h)\<rparr>"

lemma put_tx_header_ok:
  assumes "TX_HDR_LEN \<le> skb_headroom b" "\<not> netdev_priv_lock e" "length (tx_header e) = TX_HDR_LEN"
  shows "\<exists>b'. put_tx_header e b = Some b' \<and> room_skb b' = with_header (tx_header e) b \<and>
    skb_head b' = take (skb_headroom b - TX_HDR_LEN) (skb_head b)"
  using assms
  by (simp add: put_tx_header_def skb_push_def Let_def skb_headroom_def with_header_def buf_write_def)

lemma with_header_wf:
  assumes "room_wf b" "length h = TX_HDR_LEN"
  shows "skb_wf (with_header h b)" "packet_bytes (with_header h b) = h @ packet_bytes (room_skb b)"
proof -
  have "unat (skb_len (room_skb b) + 24) = unat (skb_len (room_skb b)) + 24"
    using assms(1) by (simp add: room_wf_def unat_word_ariths)
  then show "skb_wf (with_header h b)" "packet_bytes (with_header h b) = h @ packet_bytes (room_skb b)"
    using assms by (simp_all add: with_header_def skb_wf_def packet_bytes_def room_wf_def TX_HDR_LEN_def)
qed


subsection \<open>Bytes and ownership\<close>

text \<open>The conditions under which the device can be used, from the transmit path.\<close>

definition tx_net_ok :: "xpnet_private \<Rightarrow> bool" where
  "tx_net_ok net \<longleftrightarrow>
     unat (txqno net) < length (tx_queue net) \<and> tx_q_ok (tx_queue net ! unat (txqno net)) \<and> priv_wf (pci_priv net) \<and>
     \<not> priv_lock net \<and> \<not> tx_dma_read_lock (pci_priv net)"

definition dev_ok :: "xp_netdev_priv \<Rightarrow> bool" where
  "dev_ok e \<longleftrightarrow> \<not> netdev_priv_lock e \<and> length (tx_header e) = TX_HDR_LEN"

lemma start_xmit_sent:
  assumes "tx_net_ok net" "chip_ok chip" "skb_wf s"
  shows "\<exists>rc net'. xpnet_start_xmit chip stale (Some s) net = Some (rc, rc = NETDEV_TX_OK, net')"
  using start_xmit_ok [of chip net "Some s" stale] assms by (auto simp: tx_net_ok_def)

lemma ndo_start_xmit_ok:
  assumes "nd_up dev" "dev_ok dev" "room_wf skb" "expand_ok expand"
    "skb_headroom skb < TX_HDR_LEN \<Longrightarrow> expand skb \<noteq> None" "tx_net_ok net" "chip_ok chip"
  shows "\<exists>s r. xp_ndo_start_xmit expand chip stale skb dev net = Some r \<and>
    packet_bytes s = tx_header dev @ packet_bytes (room_skb skb) \<and> skb_len s = skb_len (room_skb skb) + 24 \<and>
    xpnet_start_xmit chip stale (Some s) net = Some (xr_rc r, xr_rc r = NETDEV_TX_OK, xr_net r) \<and>
    orig_frees r = (if xr_rc r = NETDEV_TX_OK then 1 else 0) \<and>
    copy_frees r = (if skb_headroom skb < TX_HDR_LEN then Some 1 else None) \<and>
    xr_dev r = (if xr_rc r = NETDEV_TX_OK then dev\<lparr>nd_tx_packets := nd_tx_packets dev + 1\<rparr> else dev\<lparr>nd_stopped := True\<rparr>) \<and>
    (TX_HDR_LEN \<le> skb_headroom skb \<longrightarrow>
       room_skb (orig_after r) = s \<and> skb_headroom (orig_after r) = skb_headroom skb - TX_HDR_LEN) \<and>
    skb_data_len s = 0 \<and> skb_wf s"
proof -
  have h: "length (tx_header dev) = TX_HDR_LEN" "\<not> netdev_priv_lock dev"
    using assms(2) by (simp_all add: dev_ok_def)
  have len: "skb_len (with_header (tx_header dev) c) = skb_len (room_skb c) + 24" for c
    using h(1) by (simp add: with_header_def TX_HDR_LEN_def)
  show ?thesis
  proof (cases "skb_headroom skb < TX_HDR_LEN")
    case True
    then obtain c where c: "expand skb = Some c"
      using assms(5) by auto
    then have ec: "TX_HDR_LEN \<le> skb_headroom c" "room_wf c" "skb_len (room_skb c) = skb_len (room_skb skb)"
        "packet_bytes (room_skb c) = packet_bytes (room_skb skb)"
      using assms(3,4) by (auto simp: expand_ok_def)
    obtain c' where c': "put_tx_header dev c = Some c'" "room_skb c' = with_header (tx_header dev) c"
      using put_tx_header_ok [OF ec(1) h(2,1)] by blast
    obtain rc net' where x: "xpnet_start_xmit chip stale (Some (with_header (tx_header dev) c)) net = Some (rc, rc = NETDEV_TX_OK, net')"
      using start_xmit_sent [OF assms(6,7) with_header_wf(1) [OF ec(2) h(1)]] by blast
    then show ?thesis
      using assms(1) True c c' with_header_wf(2) [OF ec(2) h(1)] ec(3,4) len
        with_header_wf(1) [OF ec(2) h(1)] ec(2)
      by (intro exI [of _ "with_header (tx_header dev) c"]) (simp add: xp_ndo_start_xmit_def with_header_def room_wf_def)
  next
    case False
    then obtain c' where c': "put_tx_header dev skb = Some c'" "room_skb c' = with_header (tx_header dev) skb"
        "skb_headroom c' = skb_headroom skb - TX_HDR_LEN"
      using put_tx_header_ok [of skb dev] h by (auto simp: skb_headroom_def)
    obtain rc net' where x: "xpnet_start_xmit chip stale (Some (with_header (tx_header dev) skb)) net = Some (rc, rc = NETDEV_TX_OK, net')"
      using start_xmit_sent [OF assms(6,7) with_header_wf(1) [OF assms(3) h(1)]] by blast
    then show ?thesis
      using assms(1) False c' with_header_wf(2) [OF assms(3) h(1)] len
        with_header_wf(1) [OF assms(3) h(1)] assms(3)
      by (intro exI [of _ "with_header (tx_header dev) skb"]) (simp add: xp_ndo_start_xmit_def with_header_def room_wf_def)
  qed
qed


lemma busy_retry:
  assumes "nd_up dev" "dev_ok dev" "room_wf skb" "unat (skb_len (room_skb skb)) < 2 ^ 31 - 24" "2 * TX_HDR_LEN \<le> skb_headroom skb"
    "tx_net_ok net" "tx_net_ok net'" "chip_ok chip" "expand_ok expand"
    "xp_ndo_start_xmit expand chip stale skb dev net = Some r" "xr_rc r = NETDEV_TX_BUSY"
  shows "\<exists>s r'. xp_ndo_start_xmit expand chip stale (orig_after r) dev net' = Some r' \<and>
    packet_bytes s = tx_header dev @ tx_header dev @ packet_bytes (room_skb skb) \<and>
    xpnet_start_xmit chip stale (Some s) net' = Some (xr_rc r', xr_rc r' = NETDEV_TX_OK, xr_net r')"
proof -
  have room: "TX_HDR_LEN \<le> skb_headroom skb"
    using assms(5) by simp
  then obtain s where s: "packet_bytes s = tx_header dev @ packet_bytes (room_skb skb)" "skb_len s = skb_len (room_skb skb) + 24"
      "room_skb (orig_after r) = s" "skb_headroom (orig_after r) = skb_headroom skb - TX_HDR_LEN" "skb_data_len s = 0" "skb_wf s"
    using ndo_start_xmit_ok [OF assms(1-3,9) _ assms(6,8), of stale] assms(10) by auto
  have "unat (skb_len s) = unat (skb_len (room_skb skb)) + 24"
    using assms(4) by (simp add: s(2) unat_word_ariths)
  then have wf: "room_wf (orig_after r)"
    using s(3,5,6) assms(4) by (simp add: room_wf_def skb_wf_def)
  have "\<not> skb_headroom (orig_after r) < TX_HDR_LEN"
    using s(4) assms(5) by simp
  then show ?thesis
    using ndo_start_xmit_ok [OF assms(1,2) wf assms(9) _ assms(7,8), of stale] s(1,3) by auto
qed

lemma packet_send_busy_leaks:
  assumes "tx_net_ok net" "chip_ok chip" "room_wf skb" "8 \<le> unat (skb_len (room_skb skb))"
  shows "\<exists>rc net' s. xp_packet_send chip stale (skb # rest) net = Some (rc = NETDEV_TX_BUSY, rest, net') \<and>
    packet_bytes s = drop 8 (packet_bytes (room_skb skb)) \<and>
    xpnet_start_xmit chip stale (Some s) net = Some (rc, rc = NETDEV_TX_OK, net')"
proof -
  let ?s = "room_skb (skb_pull_room skb 8)"
  have len: "unat (skb_len (room_skb skb) - 8) = unat (skb_len (room_skb skb)) - 8"
    using assms(4) by (simp add: unat_sub word_le_nat_alt)
  have "packet_bytes ?s = drop 8 (packet_bytes (room_skb skb))"
    using assms(4) len by (simp add: skb_pull_room_def packet_bytes_def drop_take)
  moreover have "skb_wf ?s"
    using assms(3,4) len by (auto simp: skb_pull_room_def skb_wf_def room_wf_def intro: diff_le_mono)
  then obtain rc net' where "xpnet_start_xmit chip stale (Some ?s) net = Some (rc, rc = NETDEV_TX_OK, net')"
    using start_xmit_sent [OF assms(1,2)] by blast
  moreover have "rc \<noteq> NETDEV_TX_OK \<longleftrightarrow> rc = NETDEV_TX_BUSY" for rc
    by (cases rc) simp_all
  ultimately show ?thesis
    by (intro exI [of _ rc] exI [of _ net'] exI [of _ ?s]) (simp add: xp_packet_send_def)
qed

end
