(* ===== verification/Netlink_Msg.thy ===== *)
theory Netlink_Msg
  imports Netdev_Intf
begin

text \<open>
  The netlink front end (\<open>xp_nl_msg_process\<close> and \<open>xp_netlink_rcv\<close> of \<open>xp_netdev_intf.c\<close>, message
  layouts of \<open>xp_export.h\<close>): a byte buffer with an outer header and a sequence of typed messages
  is decoded and each message is handed to its handler.

  The buffer is the data of the netlink packet after its header; a read beyond it has no
  meaning. The offset is a \<open>nat\<close>: every read lies in the buffer, whose length is a \<open>u32\<close> of the
  socket buffer, so the C offset does not wrap. The remaining length is a \<open>u32\<close> and does wrap.
\<close>

subsection \<open>Layout of the messages\<close>

datatype nl_msg =
    XP_NL_MSG_INTF_ADD xp_nl_msg_intf_t
  | XP_NL_MSG_INTF_DEL xp_nl_msg_intf_t
  | XP_NL_MSG_LINK_ADD xp_nl_msg_link_t
  | XP_NL_MSG_LINK_DEL xp_nl_msg_link_t
  | XP_NL_MSG_TX_HDR_SET xp_nl_msg_tx_hdr_t
  | XP_NL_MSG_TRAP_SET xp_nl_msg_trap_t
  | XP_NL_MSG_CB_FD_SET xp_nl_msg_cb_fd_t
  | XP_NL_MSG_MIRROR_SET xp_nl_msg_mirror_t

definition IFNAMSIZ :: nat where "IFNAMSIZ = 16"

text \<open>
  The sizes of the structures: four-byte alignment pads the TX header message from 29 to 32
  bytes, the trap message from 17 to 20 and the callback message from 5 to 8.
\<close>

definition msg_sizeof :: "u32 \<Rightarrow> nat option" where
  "msg_sizeof ty =
     (if ty = 0 \<or> ty = 1 then Some 20
      else if ty = 2 \<or> ty = 3 then Some 8
      else if ty = 4 then Some 32
      else if ty = 5 then Some 20
      else if ty = 6 then Some 8
      else if ty = 7 then Some 1
      else None)"

definition intf_of_bytes :: "u8 list \<Rightarrow> xp_nl_msg_intf_t" where
  "intf_of_bytes b = \<lparr>im_intf_id = le32_at b 0, im_name = take IFNAMSIZ (drop 4 b)\<rparr>"

definition link_of_bytes :: "u8 list \<Rightarrow> xp_nl_msg_link_t" where
  "link_of_bytes b = \<lparr>lm_intf_id = le32_at b 0, lm_vif = le32_at b 4\<rparr>"

definition tx_hdr_of_bytes :: "u8 list \<Rightarrow> xp_nl_msg_tx_hdr_t" where
  "tx_hdr_of_bytes b = \<lparr>hm_intf_id = le32_at b 0, hm_operation = b ! 4, hm_tx_header = take TX_HDR_LEN (drop 5 b)\<rparr>"

definition trap_of_bytes :: "u8 list \<Rightarrow> xp_nl_msg_trap_t" where
  "trap_of_bytes b =
     \<lparr>tm_rc = le32_at b 0, tm_fd = le32_at b 4, tm_ch = le32_at b 8, tm_trap_id = le32_at b 12, tm_operation = b ! 16\<rparr>"

definition cb_fd_of_bytes :: "u8 list \<Rightarrow> xp_nl_msg_cb_fd_t" where
  "cb_fd_of_bytes b = \<lparr>cm_fd = le32_at b 0, cm_operation = b ! 4\<rparr>"

definition mirror_of_bytes :: "u8 list \<Rightarrow> xp_nl_msg_mirror_t" where
  "mirror_of_bytes b = \<lparr>mm_operation = b ! 0\<rparr>"

definition msg_of_bytes :: "u32 \<Rightarrow> u8 list \<Rightarrow> nl_msg" where
  "msg_of_bytes ty b =
     (if ty = 0 then XP_NL_MSG_INTF_ADD (intf_of_bytes b)
      else if ty = 1 then XP_NL_MSG_INTF_DEL (intf_of_bytes b)
      else if ty = 2 then XP_NL_MSG_LINK_ADD (link_of_bytes b)
      else if ty = 3 then XP_NL_MSG_LINK_DEL (link_of_bytes b)
      else if ty = 4 then XP_NL_MSG_TX_HDR_SET (tx_hdr_of_bytes b)
      else if ty = 5 then XP_NL_MSG_TRAP_SET (trap_of_bytes b)
      else if ty = 6 then XP_NL_MSG_CB_FD_SET (cb_fd_of_bytes b)
      else XP_NL_MSG_MIRROR_SET (mirror_of_bytes b))"

subsection \<open>Processing\<close>

text \<open>The body of each case of the switch: the handler runs and its result code is dropped.\<close>

fun nl_handle :: "(u32 \<Rightarrow> nat) \<Rightarrow> xp_intf \<Rightarrow> nl_msg \<Rightarrow> xp_intf option" where
  "nl_handle hash s (XP_NL_MSG_INTF_ADD m) = map_option snd (xp_nl_msg_if_create s m)"
| "nl_handle hash s (XP_NL_MSG_INTF_DEL m) = map_option snd (xp_nl_msg_if_delete s m)"
| "nl_handle hash s (XP_NL_MSG_LINK_ADD m) = map_option snd (xp_nl_msg_if_link hash s m)"
| "nl_handle hash s (XP_NL_MSG_LINK_DEL m) = map_option snd (xp_nl_msg_if_unlink s m)"
| "nl_handle hash s (XP_NL_MSG_TX_HDR_SET m) = map_option snd (xp_nl_msg_tx_header s m)"
| "nl_handle hash s (XP_NL_MSG_TRAP_SET m) = map_option snd (xp_nl_msg_trap s m)"
| "nl_handle hash s (XP_NL_MSG_CB_FD_SET m) = map_option snd (xp_nl_msg_cb_fd s m)"
| "nl_handle hash s (XP_NL_MSG_MIRROR_SET m) = map_option snd (xp_nl_msg_mirror s m)"

function nl_msg_loop :: "(u32 \<Rightarrow> nat) \<Rightarrow> u8 list \<Rightarrow> nat \<Rightarrow> u32 \<Rightarrow> xp_intf \<Rightarrow> (rc \<times> xp_intf) option" where
  "nl_msg_loop hash buf offset payload_len s =
     (if payload_len = 0 then Some (0, s)
      else
        case buf_read buf offset 4 of
          None \<Rightarrow> None
        | Some tb \<Rightarrow>
            (case msg_sizeof (le32_at tb 0) of
               None \<Rightarrow> Some (- EINVAL, s)
             | Some n \<Rightarrow>
                 (case buf_read buf (offset + 4) n of
                    None \<Rightarrow> None
                  | Some mb \<Rightarrow>
                      (case nl_handle hash s (msg_of_bytes (le32_at tb 0) mb) of
                         None \<Rightarrow> None
                       | Some s \<Rightarrow>
                           nl_msg_loop hash buf (offset + 4 + n) (payload_len - of_nat (offset + 4 + n)) s))))"
  by pat_completeness auto
termination
  by (relation "measure (\<lambda>(_, buf, offset, _, _). length buf - offset)") (auto simp: buf_read_def split: if_splits)

declare nl_msg_loop.simps [simp del]

definition xp_nl_msg_process :: "(u32 \<Rightarrow> nat) \<Rightarrow> xp_intf \<Rightarrow> u8 list \<Rightarrow> (rc \<times> xp_intf) option" where
  "xp_nl_msg_process hash s buf =
     do { main_tlv_header \<leftarrow> buf_read buf 0 8;
          nl_msg_loop hash buf 8 (le32_at main_tlv_header 4 + 8) s }"

definition NLMSG_HDRLEN :: nat where "NLMSG_HDRLEN = 16"

definition xp_netlink_rcv :: "(u32 \<Rightarrow> nat) \<Rightarrow> xp_intf \<Rightarrow> u8 list \<Rightarrow> xp_intf option" where
  "xp_netlink_rcv hash s skb =
     (if netlink_mutex s then None
      else do { (_, s) \<leftarrow> xp_nl_msg_process hash (s\<lparr>netlink_mutex := True\<rparr>) (drop NLMSG_HDRLEN skb);
                Some (s\<lparr>netlink_mutex := False\<rparr>) })"

subsection \<open>The encoding user space sends\<close>

fun msg_type :: "nl_msg \<Rightarrow> u32" where
  "msg_type (XP_NL_MSG_INTF_ADD _) = 0"
| "msg_type (XP_NL_MSG_INTF_DEL _) = 1"
| "msg_type (XP_NL_MSG_LINK_ADD _) = 2"
| "msg_type (XP_NL_MSG_LINK_DEL _) = 3"
| "msg_type (XP_NL_MSG_TX_HDR_SET _) = 4"
| "msg_type (XP_NL_MSG_TRAP_SET _) = 5"
| "msg_type (XP_NL_MSG_CB_FD_SET _) = 6"
| "msg_type (XP_NL_MSG_MIRROR_SET _) = 7"

fun msg_bytes :: "nl_msg \<Rightarrow> u8 list" where
  "msg_bytes (XP_NL_MSG_INTF_ADD m) = le32_bytes (im_intf_id m) @ im_name m"
| "msg_bytes (XP_NL_MSG_INTF_DEL m) = le32_bytes (im_intf_id m) @ im_name m"
| "msg_bytes (XP_NL_MSG_LINK_ADD m) = le32_bytes (lm_intf_id m) @ le32_bytes (lm_vif m)"
| "msg_bytes (XP_NL_MSG_LINK_DEL m) = le32_bytes (lm_intf_id m) @ le32_bytes (lm_vif m)"
| "msg_bytes (XP_NL_MSG_TX_HDR_SET m) = le32_bytes (hm_intf_id m) @ hm_operation m # hm_tx_header m @ [0, 0, 0]"
| "msg_bytes (XP_NL_MSG_TRAP_SET m) =
     le32_bytes (tm_rc m) @ le32_bytes (tm_fd m) @ le32_bytes (tm_ch m) @ le32_bytes (tm_trap_id m) @
     [tm_operation m, 0, 0, 0]"
| "msg_bytes (XP_NL_MSG_CB_FD_SET m) = le32_bytes (cm_fd m) @ [cm_operation m, 0, 0, 0]"
| "msg_bytes (XP_NL_MSG_MIRROR_SET m) = [mm_operation m]"

fun msg_ok :: "nl_msg \<Rightarrow> bool" where
  "msg_ok (XP_NL_MSG_INTF_ADD m) = (length (im_name m) = IFNAMSIZ)"
| "msg_ok (XP_NL_MSG_INTF_DEL m) = (length (im_name m) = IFNAMSIZ)"
| "msg_ok (XP_NL_MSG_TX_HDR_SET m) = (length (hm_tx_header m) = TX_HDR_LEN)"
| "msg_ok _ = True"

text \<open>One message with its outer header, and several.\<close>

definition nl_record :: "nl_msg \<Rightarrow> u8 list" where
  "nl_record m = le32_bytes (msg_type m) @ msg_bytes m"

definition nl_packet :: "nl_msg list \<Rightarrow> u8 list" where
  "nl_packet ms =
     (let body = concat (map nl_record ms) in le32_bytes 0 @ le32_bytes (of_nat (length body)) @ body)"

lemma msg_sizeof_bytes: "msg_ok m \<Longrightarrow> msg_sizeof (msg_type m) = Some (length (msg_bytes m))"
  by (cases m) (simp_all add: msg_sizeof_def IFNAMSIZ_def TX_HDR_LEN_def)

lemma msg_of_msg_bytes: "msg_ok m \<Longrightarrow> msg_of_bytes (msg_type m) (msg_bytes m) = m"
  by (cases m) (simp_all add: msg_of_bytes_def intf_of_bytes_def link_of_bytes_def tx_hdr_of_bytes_def
      trap_of_bytes_def cb_fd_of_bytes_def mirror_of_bytes_def)


subsection \<open>What processing does\<close>

text \<open>One round of the loop over a message that lies in the buffer.\<close>

lemma nl_msg_loop_round:
  assumes "msg_ok m" "payload_len \<noteq> 0"
  shows "nl_msg_loop hash (pre @ nl_record m @ post) (length pre) payload_len s =
    Option.bind (nl_handle hash s m)
      (nl_msg_loop hash (pre @ nl_record m @ post) (length pre + length (nl_record m))
        (payload_len - of_nat (length pre + length (nl_record m))))"
proof -
  have n: "msg_sizeof (msg_type m) = Some (length (msg_bytes m))"
    by (rule msg_sizeof_bytes [OF assms(1)])
  show ?thesis
    using assms(2) n msg_of_msg_bytes [OF assms(1)]
    by (subst nl_msg_loop.simps) (simp add: nl_record_def add.assoc split: option.splits)
qed

lemma nl_msg_loop_done [simp]: "nl_msg_loop hash buf off 0 s = Some (0, s)"
  by (simp add: nl_msg_loop.simps)

lemma nl_msg_loop_past_end:
  "payload_len \<noteq> 0 \<Longrightarrow> length buf < off + 4 \<Longrightarrow> nl_msg_loop hash buf off payload_len s = None"
  by (simp add: nl_msg_loop.simps buf_read_def)

lemma nl_process_packet:
  "xp_nl_msg_process hash s (nl_packet ms) =
     nl_msg_loop hash ((le32_bytes 0 @ le32_bytes (of_nat (length (concat (map nl_record ms))))) @ concat (map nl_record ms)) 8
       (of_nat (length (concat (map nl_record ms)) + 8)) s"
  by (simp add: xp_nl_msg_process_def nl_packet_def Let_def)

lemma msg_bytes_bound: "msg_ok m \<Longrightarrow> length (nl_record m) \<le> 36"
  by (cases m) (simp_all add: nl_record_def IFNAMSIZ_def TX_HDR_LEN_def)

lemma nl_process_single:
  assumes "msg_ok m"
  shows "xp_nl_msg_process hash s (nl_packet [m]) = map_option (\<lambda>s. (0, s)) (nl_handle hash s m)"
proof -
  let ?n = "length (nl_record m)"
  have "?n + 8 < 2 ^ 32"
    using msg_bytes_bound [OF assms] by simp
  then have "(of_nat (?n + 8) :: u32) \<noteq> 0"
    by (simp add: word_unat_eq_iff unat_of_nat del: of_nat_add)
  then show ?thesis
    using nl_msg_loop_round [OF assms, of "of_nat (?n + 8)" hash "le32_bytes 0 @ le32_bytes (of_nat ?n)" "[]" s]
    by (cases "nl_handle hash s m") (simp_all add: nl_process_packet add.commute)
qed

text \<open>
  Each round subtracts the whole offset reached so far instead of the length of the message,
  so a second message makes the remaining length wrap and the loop reads on after the last byte.
\<close>

lemma nl_process_two:
  assumes "msg_ok m1" "msg_ok m2" "nl_handle hash s m1 = Some s1" "nl_handle hash s1 m2 = Some s2"
  shows "xp_nl_msg_process hash s (nl_packet [m1, m2]) = None"
proof -
  let ?n1 = "length (nl_record m1)" and ?n2 = "length (nl_record m2)"
  let ?hdr = "le32_bytes 0 @ le32_bytes (of_nat (?n1 + ?n2))"
  let ?buf = "?hdr @ nl_record m1 @ nl_record m2"
  have b: "?n1 \<le> 36" "?n2 \<le> 36" "0 < ?n2"
    using msg_bytes_bound assms(1,2) by (auto simp: nl_record_def)
  have z1: "(of_nat (?n1 + ?n2 + 8) :: u32) \<noteq> 0" and z2: "(of_nat ?n2 :: u32) \<noteq> 0"
      and z3: "(of_nat (8 + ?n1) :: u32) \<noteq> 0"
    using b by (simp_all add: word_unat_eq_iff unat_of_nat del: of_nat_add)
  have "xp_nl_msg_process hash s (nl_packet [m1, m2]) = nl_msg_loop hash ?buf 8 (of_nat (?n1 + ?n2 + 8)) s"
    by (simp add: nl_process_packet)
  also have "\<dots> = nl_msg_loop hash ?buf (8 + ?n1) (of_nat (?n1 + ?n2 + 8) - of_nat (8 + ?n1)) s1"
    using nl_msg_loop_round [OF assms(1) z1, of hash ?hdr "nl_record m2" s] assms(3) by simp
  also have "(of_nat (?n1 + ?n2 + 8) - of_nat (8 + ?n1) :: u32) = of_nat ?n2"
    by simp
  also have "nl_msg_loop hash ?buf (8 + ?n1) (of_nat ?n2) s1 =
      nl_msg_loop hash ?buf (8 + ?n1 + ?n2) (of_nat ?n2 - of_nat (8 + ?n1 + ?n2)) s2"
    using nl_msg_loop_round [OF assms(2) z2, of hash "?hdr @ nl_record m1" "[]" s1] assms(4) by simp
  also have "(of_nat ?n2 - of_nat (8 + ?n1 + ?n2) :: u32) = - of_nat (8 + ?n1)"
    by simp
  also have "nl_msg_loop hash ?buf (8 + ?n1 + ?n2) (- of_nat (8 + ?n1)) s2 = None"
    using z3 by (intro nl_msg_loop_past_end) (simp_all del: of_nat_add)
  finally show ?thesis .
qed

lemma nl_process_unknown:
  assumes "msg_sizeof ty = None" "le32_at hdr 4 + 8 \<noteq> 0" "length hdr = 8"
  shows "xp_nl_msg_process hash s (hdr @ le32_bytes ty @ rest) = Some (- EINVAL, s)"
  using assms by (simp add: xp_nl_msg_process_def nl_msg_loop.simps)

subsection \<open>The invariant over all message sequences\<close>

lemma msg_of_bytes_ok: "msg_sizeof ty = Some n \<Longrightarrow> length b = n \<Longrightarrow> msg_ok (msg_of_bytes ty b)"
  by (auto simp: msg_sizeof_def msg_of_bytes_def intf_of_bytes_def tx_hdr_of_bytes_def IFNAMSIZ_def TX_HDR_LEN_def
      split: if_splits)

text \<open>
  Every message is handled and keeps the tables well formed, unless the allocation of a new
  interface fails, which the code does not check.
\<close>

lemma nl_handle_ok:
  assumes "nd_wf hash s" "msg_ok m"
  shows "(\<exists>s'. nl_handle hash s m = Some s' \<and> nd_wf hash s') \<or>
    (\<exists>x. m = XP_NL_MSG_INTF_ADD x \<and> intf_of s (im_intf_id x) = None \<and> \<not> alloc_ok s (nd_next s) \<and> nl_handle hash s m = None)"
proof (cases m)
  case (XP_NL_MSG_INTF_ADD x)
  then show ?thesis
    using if_create_ok [OF assms(1), of x] if_create_no_memory [OF assms(1), of x]
    by (cases "intf_of s (im_intf_id x) = None \<and> \<not> alloc_ok s (nd_next s)") auto
next
  case (XP_NL_MSG_INTF_DEL x)
  then show ?thesis using if_delete_ok [OF assms(1), of x] by auto
next
  case (XP_NL_MSG_LINK_ADD x)
  then show ?thesis using if_link_ok [OF assms(1), of x] by auto
next
  case (XP_NL_MSG_LINK_DEL x)
  then show ?thesis using if_unlink_ok [OF assms(1), of x] by auto
next
  case (XP_NL_MSG_TX_HDR_SET x)
  then show ?thesis using tx_header_ok [OF assms(1), of x] assms(2) by auto
next
  case (XP_NL_MSG_TRAP_SET x)
  then show ?thesis using nl_trap_ok [OF assms(1), of x] by auto
next
  case (XP_NL_MSG_CB_FD_SET x)
  then show ?thesis using nl_cb_fd_ok [OF assms(1), of x] by auto
next
  case (XP_NL_MSG_MIRROR_SET x)
  then show ?thesis using nl_mirror_ok [OF assms(1), of x] by auto
qed

lemma nl_handle_wf: "nd_wf hash s \<Longrightarrow> msg_ok m \<Longrightarrow> nl_handle hash s m = Some s' \<Longrightarrow> nd_wf hash s'"
  using nl_handle_ok [of hash s m] by auto

lemma nl_msg_loop_wf:
  "nl_msg_loop hash buf off len s = Some (rc, s') \<Longrightarrow> nd_wf hash s \<Longrightarrow> nd_wf hash s'"
proof (induction hash buf off len s rule: nl_msg_loop.induct)
  case (1 hash buf off len s)
  show ?case
  proof (cases "len = 0")
    case False
    then obtain tb where tb: "buf_read buf off 4 = Some tb"
      using "1.prems"(1) by (subst (asm) nl_msg_loop.simps) (auto split: option.splits)
    show ?thesis
    proof (cases "msg_sizeof (le32_at tb 0)")
      case None
      then show ?thesis
        using "1.prems" False tb by (subst (asm) nl_msg_loop.simps) simp
    next
      case (Some n)
      with "1.prems"(1) False tb obtain mb s1 where mb: "buf_read buf (off + 4) n = Some mb"
          "nl_handle hash s (msg_of_bytes (le32_at tb 0) mb) = Some s1"
          "nl_msg_loop hash buf (off + 4 + n) (len - of_nat (off + 4 + n)) s1 = Some (rc, s')"
        by (subst (asm) nl_msg_loop.simps) (auto split: option.splits)
      have "length mb = n"
        using mb(1) by (auto simp: buf_read_def split: if_splits)
      then have "nd_wf hash s1"
        using nl_handle_wf [OF "1.prems"(2) _ mb(2)] msg_of_bytes_ok [OF Some] by simp
      then show ?thesis
        using "1.IH" [OF False tb Some mb(1,2,3)] by simp
    qed
  qed (use "1.prems" in simp)
qed

lemma nd_wf_mutex [simp]: "nd_wf hash (s\<lparr>netlink_mutex := b\<rparr>) = nd_wf hash s"
  by (simp add: nd_wf_def heap_ok_def hash_ok_def)

lemma netlink_rcv_wf: "xp_netlink_rcv hash s d = Some s' \<Longrightarrow> nd_wf hash s \<Longrightarrow> nd_wf hash s' \<and> \<not> netlink_mutex s'"
  by (auto simp: xp_netlink_rcv_def xp_nl_msg_process_def split: if_splits bind_splits dest!: nl_msg_loop_wf)

text \<open>
  The states the control plane can reach: from the fresh state, by the packets user space sends,
  whatever their bytes.
\<close>

definition intf_init :: "xp_intf \<Rightarrow> bool" where
  "intf_init s \<longleftrightarrow>
     xp_netdev_list s = [] \<and> nd_heap s = Map.empty \<and> htable s = (\<lambda>_. []) \<and> \<not> list_lock s \<and> \<not> netlink_mutex s \<and>
     trap_table s = snd (xp_trap_init True)"

inductive nl_reach :: "(u32 \<Rightarrow> nat) \<Rightarrow> xp_intf \<Rightarrow> bool" for hash where
  init: "intf_init s \<Longrightarrow> nl_reach hash s"
| rcv: "nl_reach hash s \<Longrightarrow> xp_netlink_rcv hash s d = Some s' \<Longrightarrow> nl_reach hash s'"
| env: "nl_reach hash s \<Longrightarrow> nl_reach hash (s\<lparr>alloc_ok := a, register_ok := r, kmalloc_ok := k, sockfd_lookup := f\<rparr>)"

inductive_cases nl_reachE: "nl_reach hash s"

lemma intf_init_wf: "intf_init s \<Longrightarrow> nd_wf hash s \<and> \<not> netlink_mutex s"
  using trap_init_wf [of "the (trap_table s)"]
  by (auto simp: intf_init_def nd_wf_def heap_ok_def hash_ok_def xp_trap_init_def)

lemma nl_reach_wf: "nl_reach hash s \<Longrightarrow> nd_wf hash s \<and> \<not> netlink_mutex s"
proof (induction rule: nl_reach.induct)
  case (env s a r k f)
  then show ?case
    by (simp add: nd_wf_def heap_ok_def hash_ok_def)
qed (auto dest: intf_init_wf netlink_rcv_wf)

end
