(* ===== verification/Rx_Path.thy ===== *)
theory Rx_Path
  imports Netlink_Msg Queue_Init Skb
begin

text \<open>
  Reception (\<open>xpnet_rx_queue_process\<close>, \<open>xpnet_rx_handle\<close> and \<open>xpnet_rxtx_handler\<close> of
  \<open>xp_netdev_core.c\<close>; \<open>xp_rx_skb_process\<close> and what it calls in \<open>xp_netdev_intf.c\<close>): a packet is
  taken from an RX ring, its header is decoded, the trap table says where it goes, and it is
  sent to a socket or to the interfaces linked to its port and router interface.

  A packet shorter than the RX header makes the code read memory the driver has not written;
  the model gives that no meaning. The chip's own writes to the descriptors happen between the
  calls.
\<close>

subsection \<open>The RX header\<close>

definition RX_HDR_LEN :: nat where "RX_HDR_LEN = 24"
definition XP_OFFSET_BD_INTF :: u32 where "XP_OFFSET_BD_INTF = 65536"

record xp_skb_info =
  si_rc :: u32
  si_rif_id :: u32
  si_intf_id :: u32
  si_port_num :: u32

text \<open>
  The fields of \<open>xphRxHdr\<close> on a little-endian machine: the bit fields of a byte start at its
  low end, and \<open>metadata\<close> starts at byte 16.
\<close>

definition xp_rx_skb_info_get :: "sk_buff \<Rightarrow> xp_skb_info option" where
  "xp_rx_skb_info_get skb =
     do { h \<leftarrow> buf_read (skb_data skb) 0 RX_HDR_LEN;
          let intf_id = ucast (h ! 10) :: u32;
              intf_id = push_bit 8 intf_id OR ucast (h ! 11);
              intf_id = push_bit 4 intf_id OR ucast (drop_bit 4 (h ! 12));
              bd_id = ucast (h ! 18) :: u32;
              bd_id = push_bit 8 bd_id OR ucast (h ! 19)
          in Some \<lparr>si_rc = push_bit 2 (ucast (h ! 13)) OR ucast (drop_bit 6 (h ! 14)),
                   si_rif_id = (if bd_id < XP_OFFSET_BD_INTF then bd_id + XP_OFFSET_BD_INTF else bd_id),
                   si_intf_id = intf_id,
                   si_port_num = ucast (h ! 9)\<rparr> }"

text \<open>\<open>skb_pull\<close> leaves a packet that is too short as it is.\<close>

definition skb_pull :: "sk_buff \<Rightarrow> nat \<Rightarrow> sk_buff" where
  "skb_pull skb n =
     (if unat (skb_len skb) < n then skb
      else skb\<lparr>skb_data := drop n (skb_data skb), skb_len := skb_len skb - of_nat n\<rparr>)"

subsection \<open>Delivery\<close>

text \<open>
  A copy of the packet goes to the network stack in the name of interface \<open>p\<close>; without memory
  for the copy nothing happens.
\<close>

definition xp_rx_netdev_skb_netif_rx :: "xp_intf \<Rightarrow> sk_buff \<Rightarrow> nat \<Rightarrow> xp_intf option" where
  "xp_rx_netdev_skb_netif_rx s skb p =
     (let k = skb_calls s; s = s\<lparr>skb_calls := Suc k\<rparr> in
      if \<not> skb_ok s k then Some s
      else do { e \<leftarrow> nd_heap s p;
                d \<leftarrow> buf_read (skb_data skb) 0 (unat (skb_len skb));
                Some (s\<lparr>nd_heap := (nd_heap s)(p \<mapsto> e\<lparr>nd_rx_bytes := nd_rx_bytes e + ucast (skb_len skb),
                                                      nd_rx_packets := nd_rx_packets e + 1\<rparr>),
                        events := events s @ [To_Netdev p d]\<rparr>) })"

definition xp_rx_skb_fd_process :: "xp_intf \<Rightarrow> sock option \<Rightarrow> sk_buff \<Rightarrow> xp_intf option" where
  "xp_rx_skb_fd_process s sk skb =
     (case sk of
        None \<Rightarrow> Some s
      | Some k \<Rightarrow> do { d \<leftarrow> buf_read (skb_data skb) 0 (unat (skb_len skb));
                       Some (s\<lparr>events := events s @ [To_Sock k d]\<rparr>) })"

text \<open>The two identical lookups of \<open>xp_rx_skb_netdev_process\<close>: under the list lock, by link number.\<close>

definition hash_deliver :: "(u32 \<Rightarrow> nat) \<Rightarrow> xp_intf \<Rightarrow> sk_buff \<Rightarrow> u32 \<Rightarrow> xp_intf option" where
  "hash_deliver hash s skb v =
     do { (flags, s) \<leftarrow> list_lock_irqsave s;
          f \<leftarrow> hlist_find (nd_heap s) (htable s (hash v)) v;
          s \<leftarrow> (case f of None \<Rightarrow> Some s | Some p \<Rightarrow> xp_rx_netdev_skb_netif_rx s skb p);
          Some (list_unlock_irqrestore flags s) }"

definition rx_vif :: "xp_skb_info \<Rightarrow> u32" where
  "rx_vif info =
     (if si_intf_id info < 128 \<or> 4096 \<le> si_intf_id info \<and> si_intf_id info < 5019 then si_port_num info else XP_NO_VIF)"

definition xp_rx_skb_netdev_process ::
  "(u32 \<Rightarrow> nat) \<Rightarrow> xp_intf \<Rightarrow> xp_skb_info \<Rightarrow> sk_buff \<Rightarrow> xp_intf option"
where
  "xp_rx_skb_netdev_process hash s info skb =
     do { s \<leftarrow> (if packet_mirroring_enable s then xp_rx_skb_fd_process s (cb_sock_ptr s) skb else Some s);
          let skb = skb_pull skb RX_HDR_LEN;
          s \<leftarrow> (if rx_vif info \<noteq> XP_NO_VIF then hash_deliver hash s skb (rx_vif info) else Some s);
          hash_deliver hash s skb (si_rif_id info) }"

text \<open>
  \<open>xp_rx_skb_process\<close>; the packet is freed on every way out. The entry of the trap table is
  reached through a pointer, so its counter is the one in the table.
\<close>

definition trap_count :: "xp_intf \<Rightarrow> u32 \<Rightarrow> xp_intf option" where
  "trap_count s i =
     do { t \<leftarrow> trap_table s;
          e \<leftarrow> arr_get (tt_trap t) (unat i);
          c \<leftarrow> e;
          a \<leftarrow> arr_set (tt_trap t) (unat i) (Some (c\<lparr>tc_rx_count := tc_rx_count c + 1\<rparr>));
          Some (s\<lparr>trap_table := Some (t\<lparr>tt_trap := a\<rparr>)\<rparr>) }"

definition xp_rx_skb_process ::
  "(u32 \<Rightarrow> nat) \<Rightarrow> xpnet_private \<Rightarrow> xp_intf \<Rightarrow> sk_buff \<Rightarrow> (xpnet_private \<times> xp_intf) option"
where
  "xp_rx_skb_process hash net s skb =
     do { info \<leftarrow> xp_rx_skb_info_get skb;
          let net = net\<lparr>stats := (stats net)\<lparr>rx_packets := rx_packets (stats net) + 1,
                                            rx_bytes := rx_bytes (stats net) + ucast (skb_len skb)\<rparr>\<rparr>;
          t \<leftarrow> trap_table s;
          trap_id \<leftarrow> xp_trap_id_get t (si_rc info);
          trap_cfg \<leftarrow> xp_trap_config_get t trap_id;
          s \<leftarrow> (if trap_id = XP_INVALID_TRAP_ID \<or> trap_cfg = None
               then xp_rx_skb_fd_process s (cb_sock_ptr s) skb
               else do { c \<leftarrow> trap_cfg;
                 if tc_ch c = XP_NL_HOSTIF_TRAP_CB then
                   do { s \<leftarrow> xp_rx_skb_fd_process s (cb_sock_ptr s) skb; trap_count s trap_id }
                 else if tc_ch c = XP_NL_HOSTIF_TRAP_FD then
                   do { s \<leftarrow> xp_rx_skb_fd_process s (tc_sock_ptr c) skb; trap_count s trap_id }
                 else if tc_ch c = XP_NL_HOSTIF_TRAP_NETDEV then
                   do { s \<leftarrow> xp_rx_skb_netdev_process hash s info skb; trap_count s trap_id }
                 else Some s });
          Some (net, s) }"

subsection \<open>Taking packets from the rings\<close>

text \<open>\<open>__xpnet_rx_desc_reset\<close> and \<open>xpnet_rx_desc_enable\<close> of the descriptor at the tail.\<close>

definition rx_rearm :: "xpnet_queue_struct \<Rightarrow> xpnet_queue_struct option" where
  "rx_rearm q = do { q \<leftarrow> xpnet_rx_desc_reset q (q_tail q); xpnet_rx_desc_enable q (unat (q_tail q)) }"

definition rx_pkt_size :: "xp_address_mode \<Rightarrow> xpnet_descriptor \<Rightarrow> u16" where
  "rx_pkt_size m v =
     (let pkt_size = ucast (drop_bit 16 (qword1 v) AND 0xffff) in if m = XP_A0_UNCOMPRESSED then pkt_size - 16 else pkt_size)"

definition rx_restart :: "xp_private \<Rightarrow> xpnet_queue_struct \<Rightarrow> xp_private option" where
  "rx_restart p q =
     (if q_tail q = 0
      then do { p \<leftarrow> xpnet_set_q_cdp p q 0 XPNET_AFLAG_ACQLOCK; xpnet_queue_en_dis p q 1 0 XPNET_AFLAG_ACQLOCK }
      else Some p)"

text \<open>
  The part of one iteration that follows the checks: swap and copy the packet, give the
  descriptor back to the chip, advance, and restart the queue after the last descriptor.
\<close>

definition rx_take ::
  "xpnet_private \<Rightarrow> nat \<Rightarrow> xpnet_queue_struct \<Rightarrow> u16 \<Rightarrow> (sk_buff \<times> xpnet_private) option"
where
  "rx_take net i q pkt_size =
     do { d \<leftarrow> meta_get q (unat (q_tail q));
          va \<leftarrow> shard_va (buf_sta d);
          va \<leftarrow> xpnet_endian_swap32 va (ucast pkt_size) (mode (pci_priv net));
          data \<leftarrow> buf_read va 0 (unat pkt_size);
          q \<leftarrow> meta_set q (unat (q_tail q)) (d\<lparr>buf_sta := (buf_sta d)\<lparr>shard_va := Some va\<rparr>\<rparr>);
          v \<leftarrow> desc_get q (unat (q_tail q));
          q \<leftarrow> desc_set q (unat (q_tail q)) (v\<lparr>qword1 := scast (shard_len (buf_sta d)), qword0 := own_bit\<rparr>);
          let q = q\<lparr>q_tail := xpnet_add_and_wrap (q_tail q) 1 (xpq_num_desc q)\<rparr>;
          p \<leftarrow> rx_restart (pci_priv net) q;
          Some (\<lparr>skb_data = data, skb_len = ucast pkt_size, skb_data_len = 0\<rparr>, rx_q_put (net\<lparr>pci_priv := p\<rparr>) i q) }"

fun rx_process_loop ::
  "(u32 \<Rightarrow> nat) \<Rightarrow> xpnet_private \<Rightarrow> xp_intf \<Rightarrow> nat \<Rightarrow> nat \<Rightarrow> (xpnet_private \<times> xp_intf) option"
where
  "rx_process_loop hash net s i 0 = Some (net, s)"
| "rx_process_loop hash net s i (Suc k) =
     do { q \<leftarrow> arr_get (rx_queue net) i;
          if xpq_lock q then None
          else do { v \<leftarrow> desc_get q (unat (q_tail q));
            if drop_bit BITOFF_ERRORINDICATION (qword0 v) = 1 then
              do { q \<leftarrow> rx_rearm q;
                   Some ((rx_q_put net i q)\<lparr>stats := (stats net)\<lparr>rx_dropped := rx_dropped (stats net) + 1,
                     rx_length_errors := rx_length_errors (stats net) + 1\<rparr>\<rparr>, s) }
            else if hw_owns v then Some (net, s)
            else
              let net = net\<lparr>jiffies_defer := 0\<rparr>; pkt_size = rx_pkt_size (mode (pci_priv net)) v in
              if unat pkt_size > XPNET_MAX_PACKET_SIZE then
                do { q \<leftarrow> rx_rearm q;
                     Some ((rx_q_put net i q)\<lparr>stats := (stats net)\<lparr>rx_dropped := rx_dropped (stats net) + 1\<rparr>\<rparr>, s) }
              else
                let n = skb_calls s; s = s\<lparr>skb_calls := Suc n\<rparr> in
                if \<not> skb_ok s n then Some (net, s)
                else do { (skb, net) \<leftarrow> rx_take net i q pkt_size;
                          (net, s) \<leftarrow> xp_rx_skb_process hash net s skb;
                          rx_process_loop hash net s i k } } }"

definition xpnet_rx_queue_process ::
  "(u32 \<Rightarrow> nat) \<Rightarrow> xpnet_private \<Rightarrow> xp_intf \<Rightarrow> nat \<Rightarrow> nat \<Rightarrow> (xpnet_private \<times> xp_intf) option"
where
  "xpnet_rx_queue_process hash net s queue maxiter = rx_process_loop hash net s queue maxiter"

fun rx_handle_loop :: "(u32 \<Rightarrow> nat) \<Rightarrow> xpnet_private \<Rightarrow> xp_intf \<Rightarrow> nat \<Rightarrow> nat \<Rightarrow> (xpnet_private \<times> xp_intf) option" where
  "rx_handle_loop hash net s i 0 = Some (net, s)"
| "rx_handle_loop hash net s i (Suc k) =
     do { (net, s) \<leftarrow> xpnet_rx_queue_process hash net s i XPNET_RX_NUM_DESCS;
          rx_handle_loop hash net s (Suc i) k }"

text \<open>\<open>HZ\<close> is a configuration constant of the kernel.\<close>

definition xpnet_rx_handle :: "u32 \<Rightarrow> (u32 \<Rightarrow> nat) \<Rightarrow> xpnet_private \<Rightarrow> xp_intf \<Rightarrow> (xpnet_private \<times> xp_intf) option" where
  "xpnet_rx_handle HZ hash net s =
     (if priv_lock net then None
      else if \<not> dma_trigger net then Some (net\<lparr>jiffies_defer := 3 * HZ\<rparr>, s)
      else rx_handle_loop hash net s 0 XPNET_RX_NUM_QUEUES)"

text \<open>The work item queues itself again; the first component is the delay it asks for.\<close>

definition xpnet_rxtx_handler ::
  "u32 \<Rightarrow> (u32 \<Rightarrow> nat) \<Rightarrow> xpnet_private \<Rightarrow> xp_intf \<Rightarrow> (u32 \<times> xpnet_private \<times> xp_intf) option"
where
  "xpnet_rxtx_handler HZ hash net s =
     do { (net, s) \<leftarrow> xpnet_rx_handle HZ hash (net\<lparr>jiffies_defer := 1\<rparr>) s;
          Some (jiffies_defer net, net, s) }"


subsection \<open>Where a packet goes\<close>

text \<open>
  The specification: the interface linked to a number, the route of a reason code, and the
  datagrams and frames that a packet gives rise to, in order.
\<close>

definition linked :: "(u32 \<Rightarrow> nat) \<Rightarrow> xp_intf \<Rightarrow> u32 \<Rightarrow> nat option" where
  "linked hash s v = (case hlist_find (nd_heap s) (htable s (hash v)) v of Some r \<Rightarrow> r | None \<Rightarrow> None)"

definition sock_ev :: "sock option \<Rightarrow> u8 list \<Rightarrow> event list" where
  "sock_ev sk d = (case sk of None \<Rightarrow> [] | Some k \<Rightarrow> [To_Sock k d])"

definition netdev_ev :: "nat option \<Rightarrow> u8 list \<Rightarrow> event list" where
  "netdev_ev r d = (case r of None \<Rightarrow> [] | Some p \<Rightarrow> [To_Netdev p d])"

definition rx_events :: "(u32 \<Rightarrow> nat) \<Rightarrow> xp_intf \<Rightarrow> xp_skb_info \<Rightarrow> u8 list \<Rightarrow> event list" where
  "rx_events hash s info d =
     (case Option.bind (trap_table s) (\<lambda>t. route t (si_rc info)) of
        None \<Rightarrow> sock_ev (cb_sock_ptr s) d
      | Some c \<Rightarrow>
          if tc_ch c = XP_NL_HOSTIF_TRAP_CB then sock_ev (cb_sock_ptr s) d
          else if tc_ch c = XP_NL_HOSTIF_TRAP_FD then sock_ev (tc_sock_ptr c) d
          else if tc_ch c = XP_NL_HOSTIF_TRAP_NETDEV then
            (if packet_mirroring_enable s then sock_ev (cb_sock_ptr s) d else []) @
            (if rx_vif info \<noteq> XP_NO_VIF then netdev_ev (linked hash s (rx_vif info)) (drop RX_HDR_LEN d) else []) @
            netdev_ev (linked hash s (si_rif_id info)) (drop RX_HDR_LEN d)
          else [])"

lemma linked_iff:
  assumes "nd_wf hash s" "v \<noteq> XP_NO_VIF"
  shows "linked hash s v = None \<longleftrightarrow> (\<forall>p e. nd_heap s p = Some e \<longrightarrow> vif e \<noteq> v)"
    "linked hash s v = Some p \<Longrightarrow> \<exists>e. nd_heap s p = Some e \<and> vif e = v"
proof -
  obtain r where r: "hlist_find (nd_heap s) (htable s (hash v)) v = Some r" "linked hash s v = r"
      "case r of Some p \<Rightarrow> \<exists>e. nd_heap s p = Some e \<and> vif e = v | None \<Rightarrow> \<forall>p e. nd_heap s p = Some e \<longrightarrow> vif e \<noteq> v"
    using hash_lookup [OF assms] by (auto simp: linked_def)
  show "linked hash s v = None \<longleftrightarrow> (\<forall>p e. nd_heap s p = Some e \<longrightarrow> vif e \<noteq> v)"
    using r(2,3) by (cases r) auto
  show "linked hash s v = Some p \<Longrightarrow> \<exists>e. nd_heap s p = Some e \<and> vif e = v"
    using r(2,3) by auto
qed

lemma hlist_find_linked: "nd_wf hash s \<Longrightarrow> v \<noteq> XP_NO_VIF \<Longrightarrow> hlist_find (nd_heap s) (htable s (hash v)) v = Some (linked hash s v)"
  using hash_lookup [of hash s v] by (auto simp: linked_def)

lemma hlist_find_cong:
  "(\<And>p. map_option vif (h' p) = map_option vif (h p)) \<Longrightarrow> hlist_find h' ps v = hlist_find h ps v"
proof (induction ps)
  case (Cons p ps)
  from Cons.prems [of p] Cons.IH [OF Cons.prems] show ?case
    by (cases "h p"; cases "h' p") simp_all
qed simp

text \<open>What delivery may change: counters, the record of what was sent, and nothing else.\<close>

definition rx_same :: "xp_intf \<Rightarrow> xp_intf \<Rightarrow> bool" where
  "rx_same s s' \<longleftrightarrow>
     s'\<lparr>nd_heap := nd_heap s, events := events s, skb_calls := skb_calls s, trap_table := trap_table s\<rparr> = s \<and>
     (\<forall>p. map_option vif (nd_heap s' p) = map_option vif (nd_heap s p))"

lemma rx_same_refl [simp]: "rx_same s s"
  by (simp add: rx_same_def)

lemma rx_same_fields:
  assumes "rx_same s s'"
  shows "htable s' = htable s" "packet_mirroring_enable s' = packet_mirroring_enable s" "cb_sock_ptr s' = cb_sock_ptr s"
    "skb_ok s' = skb_ok s" "irqs_on s' = irqs_on s" "xp_netdev_list s' = xp_netdev_list s" "list_lock s' = list_lock s"
    "netlink_mutex s' = netlink_mutex s" "nd_next s' = nd_next s"
  by (cases s; cases s'; use assms in \<open>simp add: rx_same_def\<close>)+

lemma rx_same_trans: "rx_same s s1 \<Longrightarrow> rx_same s1 s2 \<Longrightarrow> rx_same s s2"
  by (cases s; cases s1; cases s2) (simp add: rx_same_def)

lemma linked_same: "rx_same s s' \<Longrightarrow> linked hash s' v = linked hash s v"
  using hlist_find_cong [of "nd_heap s'" "nd_heap s"] rx_same_fields(1) [of s s']
  by (simp add: linked_def rx_same_def)

text \<open>A packet as the driver makes it: its length is that of its data.\<close>

definition skb_full :: "sk_buff \<Rightarrow> bool" where
  "skb_full skb \<longleftrightarrow> length (skb_data skb) = unat (skb_len skb)"

lemma skb_pull_full: "skb_full skb \<Longrightarrow> n \<le> length (skb_data skb) \<Longrightarrow> n < 2 ^ 32 \<Longrightarrow>
    skb_full (skb_pull skb n) \<and> skb_data (skb_pull skb n) = drop n (skb_data skb)"
  by (auto simp: skb_full_def skb_pull_def unat_sub word_le_nat_alt unat_of_nat)

lemma buf_read_full [simp]: "skb_full skb \<Longrightarrow> buf_read (skb_data skb) 0 (unat (skb_len skb)) = Some (skb_data skb)"
  by (simp add: skb_full_def buf_read_def)

lemma fd_process_ok:
  assumes "skb_full skb"
  shows "xp_rx_skb_fd_process s sk skb = Some (s\<lparr>events := events s @ sock_ev sk (skb_data skb)\<rparr>)"
  using assms by (simp add: xp_rx_skb_fd_process_def sock_ev_def split: option.splits)

lemma nd_wf_events [simp]: "nd_wf hash (s\<lparr>events := x\<rparr>) = nd_wf hash s" "nd_wf hash (s\<lparr>skb_calls := n\<rparr>) = nd_wf hash s"
  by (simp_all add: nd_wf_def heap_ok_def hash_ok_def)

lemma rx_same_events [simp]: "rx_same s (s\<lparr>events := x\<rparr>)" "rx_same s (s\<lparr>skb_calls := n\<rparr>)"
  by (cases s; simp add: rx_same_def)+

definition count_rx :: "sk_buff \<Rightarrow> xp_netdev_priv \<Rightarrow> xp_netdev_priv" where
  "count_rx skb e = e\<lparr>nd_rx_bytes := nd_rx_bytes e + ucast (skb_len skb), nd_rx_packets := nd_rx_packets e + 1\<rparr>"

lemma netif_rx_eq:
  assumes "nd_heap s p = Some e" "skb_full skb"
  shows "xp_rx_netdev_skb_netif_rx s skb p =
    Some (if skb_ok s (skb_calls s)
          then s\<lparr>skb_calls := Suc (skb_calls s), nd_heap := (nd_heap s)(p \<mapsto> count_rx skb e),
                 events := events s @ [To_Netdev p (skb_data skb)]\<rparr>
          else s\<lparr>skb_calls := Suc (skb_calls s)\<rparr>)"
  using assms by (simp add: xp_rx_netdev_skb_netif_rx_def Let_def count_rx_def)

lemma delivered_ok:
  assumes "nd_wf hash s" "nd_heap s p = Some e"
  shows "nd_wf hash (s\<lparr>skb_calls := n, nd_heap := (nd_heap s)(p \<mapsto> count_rx skb e), events := x\<rparr>)"
    "rx_same s (s\<lparr>skb_calls := n, nd_heap := (nd_heap s)(p \<mapsto> count_rx skb e), events := x\<rparr>)"
proof -
  have h: "heap_ok s"
    using assms(1) by (simp add: nd_wf_def)
  have w: "nd_wf hash (s\<lparr>nd_heap := (nd_heap s)(p \<mapsto> count_rx skb e)\<rparr>)"
    using heap_okD(5,6) [OF h assms(2)] by (intro nd_wf_entry [OF assms]) (simp_all add: count_rx_def)
  obtain t where "trap_table s = Some t" "trap_wf t"
    using assms(1) by (auto simp: nd_wf_def)
  then show "nd_wf hash (s\<lparr>skb_calls := n, nd_heap := (nd_heap s)(p \<mapsto> count_rx skb e), events := x\<rparr>)"
    by (intro nd_wf_tables [OF w]) simp_all
  show "rx_same s (s\<lparr>skb_calls := n, nd_heap := (nd_heap s)(p \<mapsto> count_rx skb e), events := x\<rparr>)"
    using assms(2) by (cases s) (simp add: rx_same_def count_rx_def)
qed

lemma nd_wf_locked: "nd_wf hash s \<Longrightarrow> list_lock_irqsave s = Some (irqs_on s, s\<lparr>list_lock := True, irqs_on := False\<rparr>)"
  by (simp add: nd_wf_def list_lock_irqsave_def)

lemma hash_deliver_ok:
  assumes "nd_wf hash s" "v \<noteq> XP_NO_VIF" "skb_full skb"
  shows "\<exists>s'. hash_deliver hash s skb v = Some s' \<and> nd_wf hash s' \<and> rx_same s s' \<and> trap_table s' = trap_table s \<and>
    events s' = events s @ (if skb_ok s (skb_calls s) then netdev_ev (linked hash s v) (skb_data skb) else [])"
proof (cases "linked hash s v")
  case None
  then have "hash_deliver hash s skb v = Some s"
    using nd_wf_locked [OF assms(1)] hlist_find_linked [OF assms(1,2)] nd_wf_relock [OF assms(1)]
    by (simp add: hash_deliver_def)
  then show ?thesis
    using None assms(1) by (simp add: netdev_ev_def)
next
  case (Some p)
  obtain e where e: "nd_heap s p = Some e"
    using linked_iff(2) [OF assms(1,2) Some] by auto
  let ?s = "if skb_ok s (skb_calls s)
    then s\<lparr>skb_calls := Suc (skb_calls s), nd_heap := (nd_heap s)(p \<mapsto> count_rx skb e),
           events := events s @ [To_Netdev p (skb_data skb)]\<rparr>
    else s\<lparr>skb_calls := Suc (skb_calls s)\<rparr>"
  have "\<not> list_lock s"
    using assms(1) by (simp add: nd_wf_def)
  then have "hash_deliver hash s skb v = Some ?s"
    using nd_wf_locked [OF assms(1)] hlist_find_linked [OF assms(1,2)] Some e
      netif_rx_eq [of "s\<lparr>list_lock := True, irqs_on := False\<rparr>" p e skb] assms(3)
    by (cases s) (auto simp: hash_deliver_def list_unlock_irqrestore_def)
  then show ?thesis
    using Some delivered_ok [OF assms(1) e] assms(1) by (auto simp: netdev_ev_def)
qed

lemma rif_ne_no_vif: "xp_rx_skb_info_get skb = Some info \<Longrightarrow> si_rif_id info \<noteq> XP_NO_VIF"
proof -
  assume "xp_rx_skb_info_get skb = Some info"
  then obtain h where "si_rif_id info =
      (let bd = push_bit 8 (ucast (h ! 18)) OR ucast ((h ! 19 :: u8)) :: u32
       in if bd < XP_OFFSET_BD_INTF then bd + XP_OFFSET_BD_INTF else bd)"
    by (auto simp: xp_rx_skb_info_get_def Let_def split: bind_splits)
  moreover have bd: "unat (push_bit 8 (ucast a) OR ucast b :: u32) < 65536" for a b :: u8
  proof -
    let ?x = "push_bit 8 (ucast a) OR ucast b :: u32"
    have "take_bit 16 ?x = ?x"
      by (rule bit_word_eqI) (auto simp: bit_simps dest: bit_imp_le_length)
    then have "take_bit 16 (unat ?x) = unat ?x"
      by (simp only: unsigned_take_bit_eq [symmetric])
    then show ?thesis
      using take_bit_nat_less_exp [of 16 "unat ?x"] by simp
  qed
  moreover have "w + 65536 \<noteq> - 1" if "unat w < 65536" for w :: u32
  proof
    assume "w + 65536 = - 1"
    then have "unat (w + 65536) = unat (- 1 :: u32)"
      by (rule arg_cong)
    moreover have "unat (w + 65536) = unat w + 65536"
      using that by (simp add: unat_word_ariths)
    ultimately show False
      using that by (simp add: unsigned_minus_1_eq_mask mask_eq_exp_minus_1)
  qed
  ultimately show ?thesis
    by (simp add: XP_OFFSET_BD_INTF_def XP_NO_VIF_def Let_def word_less_nat_alt)
qed

lemma netdev_process_ok:
  assumes "nd_wf hash s" "skb_full skb" "RX_HDR_LEN \<le> length (skb_data skb)" "si_rif_id info \<noteq> XP_NO_VIF"
  shows "\<exists>s'. xp_rx_skb_netdev_process hash s info skb = Some s' \<and> nd_wf hash s' \<and> rx_same s s' \<and>
    trap_table s' = trap_table s \<and>
    ((\<forall>k. skb_ok s k) \<longrightarrow> events s' = events s @
       (if packet_mirroring_enable s then sock_ev (cb_sock_ptr s) (skb_data skb) else []) @
       (if rx_vif info \<noteq> XP_NO_VIF then netdev_ev (linked hash s (rx_vif info)) (drop RX_HDR_LEN (skb_data skb)) else []) @
       netdev_ev (linked hash s (si_rif_id info)) (drop RX_HDR_LEN (skb_data skb)))"
proof -
  let ?m = "if packet_mirroring_enable s then sock_ev (cb_sock_ptr s) (skb_data skb) else []"
  let ?s1 = "if packet_mirroring_enable s then s\<lparr>events := events s @ sock_ev (cb_sock_ptr s) (skb_data skb)\<rparr> else s"
  let ?skb = "skb_pull skb RX_HDR_LEN"
  have m: "(if packet_mirroring_enable s then xp_rx_skb_fd_process s (cb_sock_ptr s) skb else Some s) = Some ?s1"
    using fd_process_ok [OF assms(2)] by simp
  have s1: "nd_wf hash ?s1" "rx_same s ?s1" "trap_table ?s1 = trap_table s" "events ?s1 = events s @ ?m"
    using assms(1) by auto
  have pull: "skb_full ?skb" "skb_data ?skb = drop RX_HDR_LEN (skb_data skb)"
    using skb_pull_full [OF assms(2,3)] by (simp_all add: RX_HDR_LEN_def)
  obtain s2 where s2: "(if rx_vif info \<noteq> XP_NO_VIF then hash_deliver hash ?s1 ?skb (rx_vif info) else Some ?s1) = Some s2"
      "nd_wf hash s2" "rx_same ?s1 s2" "trap_table s2 = trap_table ?s1"
      "(\<forall>k. skb_ok s k) \<longrightarrow> events s2 = events ?s1 @
        (if rx_vif info \<noteq> XP_NO_VIF then netdev_ev (linked hash s (rx_vif info)) (skb_data ?skb) else [])"
  proof (cases "rx_vif info = XP_NO_VIF")
    case True
    then show ?thesis
      using that [of ?s1] s1(1) by simp
  next
    case False
    then show ?thesis
      using that hash_deliver_ok [OF s1(1) False pull(1)] linked_same [OF s1(2), of hash] rx_same_fields(4) [OF s1(2)] by auto
  qed
  have same: "rx_same s s2"
    by (rule rx_same_trans [OF s1(2) s2(3)])
  obtain s3 where s3: "hash_deliver hash s2 ?skb (si_rif_id info) = Some s3" "nd_wf hash s3" "rx_same s2 s3"
      "trap_table s3 = trap_table s2"
      "events s3 = events s2 @ (if skb_ok s2 (skb_calls s2) then netdev_ev (linked hash s2 (si_rif_id info)) (skb_data ?skb) else [])"
    using hash_deliver_ok [OF s2(2) assms(4) pull(1)] by blast
  have "xp_rx_skb_netdev_process hash s info skb = Some s3"
    using m s2(1) s3(1) by (simp add: xp_rx_skb_netdev_process_def Let_def)
  moreover have "rx_same s s3"
    by (rule rx_same_trans [OF same s3(3)])
  moreover have "trap_table s3 = trap_table s"
    using s1(3) s2(4) s3(4) by simp
  ultimately show ?thesis
    using s3(2,5) s2(5) s1(4) pull(2) linked_same [OF same, of hash] rx_same_fields(4) [OF same] by simp
qed

text \<open>Counting a packet keeps every route.\<close>

lemma trap_count_ok:
  assumes "nd_wf hash s" "trap_table s = Some t" "xp_trap_config_get t i = Some (Some c)"
  shows "\<exists>s'. trap_count s i = Some s' \<and> nd_wf hash s' \<and> rx_same s s' \<and> events s' = events s \<and>
    trap_table s' = Some (t\<lparr>tt_trap := (tt_trap t)[unat i := Some (c\<lparr>tc_rx_count := tc_rx_count c + 1\<rparr>)]\<rparr>)"
proof -
  have t: "trap_wf t"
    using assms(1,2) by (simp add: nd_wf_def)
  have i: "unat i < length (tt_trap t)" "tt_trap t ! unat i = Some c"
    using assms(3) by (auto simp: xp_trap_config_get_def arr_get_def split: if_splits)
  let ?t = "t\<lparr>tt_trap := (tt_trap t)[unat i := Some (c\<lparr>tc_rx_count := tc_rx_count c + 1\<rparr>)]\<rparr>"
  have "unat (tc_rc d) \<le> XP_MAX_REASON_CODE" if "Some d \<in> set (tt_trap t) \<or> Some d = Some (c\<lparr>tc_rx_count := tc_rx_count c + 1\<rparr>)" for d
    using that t i nth_mem [OF i(1)] by (auto simp: trap_wf_def)
  then have "trap_wf ?t"
    using t set_update_subset_insert [of "tt_trap t" "unat i"] by (fastforce simp: trap_wf_def)
  then have "nd_wf hash (s\<lparr>trap_table := Some ?t\<rparr>)"
    by (intro nd_wf_tables [OF assms(1)]) simp_all
  moreover have "rx_same s (s\<lparr>trap_table := Some ?t\<rparr>)"
    by (cases s) (simp add: rx_same_def)
  ultimately show ?thesis
    using assms(2) i by (simp add: trap_count_def)
qed

lemma rx_skb_process_ok:
  assumes "nd_wf hash s" "skb_full skb" "xp_rx_skb_info_get skb = Some info"
  shows "\<exists>s'. xp_rx_skb_process hash net s skb =
      Some (net\<lparr>stats := (stats net)\<lparr>rx_packets := rx_packets (stats net) + 1,
                                    rx_bytes := rx_bytes (stats net) + ucast (skb_len skb)\<rparr>\<rparr>, s') \<and>
    nd_wf hash s' \<and> rx_same s s' \<and>
    ((\<forall>k. skb_ok s k) \<longrightarrow> events s' = events s @ rx_events hash s info (skb_data skb))"
proof -
  obtain t where t: "trap_table s = Some t" "trap_wf t"
    using assms(1) by (auto simp: nd_wf_def)
  obtain i where i: "xp_trap_id_get t (si_rc info) = Some i" "xp_trap_config_get t i = Some (route t (si_rc info))"
    using trap_lookup_route [OF t(2)] by blast
  have len: "RX_HDR_LEN \<le> length (skb_data skb)"
    using assms(3) by (auto simp: xp_rx_skb_info_get_def buf_read_def split: bind_splits if_splits)
  note defs = xp_rx_skb_process_def rx_events_def assms(3) t(1) i(1)
  show ?thesis
  proof (cases "route t (si_rc info)")
    case None
    then show ?thesis
      using i(2) fd_process_ok [OF assms(2)] assms(1) by (simp add: defs Let_def)
  next
    case (Some c)
    have ne: "i \<noteq> XP_INVALID_TRAP_ID"
      using i(2) Some t(2) unat_invalid_trap_id
      by (auto simp: xp_trap_config_get_def trap_wf_def XP_MAX_TRAP_ID_def split: if_splits)
    have cfg: "xp_trap_config_get t i = Some (Some c)"
      using i(2) Some by simp
    have counted: "\<exists>s''. trap_count s' i = Some s'' \<and> nd_wf hash s'' \<and> rx_same s s'' \<and> events s'' = events s'"
      if "nd_wf hash s'" "rx_same s s'" "trap_table s' = Some t" for s'
      using trap_count_ok [OF that(1,3) cfg] rx_same_trans [OF that(2)] by blast
    have sock: "\<exists>s''. trap_count (s\<lparr>events := x\<rparr>) i = Some s'' \<and> nd_wf hash s'' \<and> rx_same s s'' \<and> events s'' = x" for x
      using counted [of "s\<lparr>events := x\<rparr>"] assms(1) t(1) by simp
    obtain s1 where s1: "xp_rx_skb_netdev_process hash s info skb = Some s1" "nd_wf hash s1" "rx_same s s1" "trap_table s1 = Some t"
        "(\<forall>k. skb_ok s k) \<longrightarrow> events s1 = events s @
           (if packet_mirroring_enable s then sock_ev (cb_sock_ptr s) (skb_data skb) else []) @
           (if rx_vif info \<noteq> XP_NO_VIF then netdev_ev (linked hash s (rx_vif info)) (drop RX_HDR_LEN (skb_data skb)) else []) @
           netdev_ev (linked hash s (si_rif_id info)) (drop RX_HDR_LEN (skb_data skb))"
      using netdev_process_ok [OF assms(1,2) len rif_ne_no_vif [OF assms(3)]] t(1) by auto
    obtain s2 where s2: "trap_count s1 i = Some s2" "nd_wf hash s2" "rx_same s s2" "events s2 = events s1"
      using counted [OF s1(2-4)] by blast
    consider (cb) "tc_ch c = XP_NL_HOSTIF_TRAP_CB" | (fd) "tc_ch c = XP_NL_HOSTIF_TRAP_FD" "tc_ch c \<noteq> XP_NL_HOSTIF_TRAP_CB"
      | (nd) "tc_ch c = XP_NL_HOSTIF_TRAP_NETDEV" "tc_ch c \<noteq> XP_NL_HOSTIF_TRAP_FD" "tc_ch c \<noteq> XP_NL_HOSTIF_TRAP_CB"
      | (other) "tc_ch c \<noteq> XP_NL_HOSTIF_TRAP_NETDEV" "tc_ch c \<noteq> XP_NL_HOSTIF_TRAP_FD" "tc_ch c \<noteq> XP_NL_HOSTIF_TRAP_CB"
      by blast
    then show ?thesis
    proof cases
      case cb
      with sock [of "events s @ sock_ev (cb_sock_ptr s) (skb_data skb)"] show ?thesis
        using ne cfg Some fd_process_ok [OF assms(2)] by (auto simp: defs Let_def)
    next
      case fd
      with sock [of "events s @ sock_ev (tc_sock_ptr c) (skb_data skb)"] show ?thesis
        using ne cfg Some fd_process_ok [OF assms(2)] by (auto simp: defs Let_def)
    next
      case nd
      with s1 s2 show ?thesis
        using ne cfg Some by (simp add: defs Let_def)
    next
      case other
      then show ?thesis
        using ne cfg Some assms(1) by (simp add: defs Let_def)
    qed
  qed
qed


subsection \<open>The rings\<close>

text \<open>Rings as initialisation leaves them, and a device that can be reached.\<close>

definition rx_ring_ok :: "xpnet_queue_struct \<Rightarrow> bool" where
  "rx_ring_ok q \<longleftrightarrow> ring_wf XPNET_MAX_PACKET_SIZE q \<and> \<not> xpq_lock q \<and> xpq_id q < 64"

definition rx_net_ok :: "xpnet_private \<Rightarrow> bool" where
  "rx_net_ok net \<longleftrightarrow>
     length (rx_queue net) = XPNET_RX_NUM_QUEUES \<and> (\<forall>q \<in> set (rx_queue net). rx_ring_ok q) \<and>
     priv_wf (pci_priv net) \<and> \<not> tx_dma_read_lock (pci_priv net) \<and> \<not> priv_lock net"

text \<open>No ring holds a finished packet that is shorter than the header the code reads.\<close>

definition desc_sized :: "xp_address_mode \<Rightarrow> xpnet_descriptor \<Rightarrow> bool" where
  "desc_sized m v \<longleftrightarrow> hw_owns v \<or> qword0 v = 1 \<or> RX_HDR_LEN \<le> unat (rx_pkt_size m v)"

definition rx_sized :: "xp_address_mode \<Rightarrow> xpnet_queue_struct \<Rightarrow> bool" where
  "rx_sized m q \<longleftrightarrow> (\<forall>j<10. \<forall>v. desc_get q j = Some v \<longrightarrow> desc_sized m v)"

lemma rx_net_ok_queue: "rx_net_ok net \<Longrightarrow> i < 64 \<Longrightarrow> arr_get (rx_queue net) i = Some (rx_queue net ! i) \<and> rx_ring_ok (rx_queue net ! i)"
  by (simp add: rx_net_ok_def XPNET_RX_NUM_QUEUES_def)

lemma rx_net_ok_put: "rx_net_ok net \<Longrightarrow> rx_ring_ok q \<Longrightarrow> rx_net_ok (rx_q_put net i q)"
  using set_update_subset_insert [of "rx_queue net" i q] by (auto simp: rx_net_ok_def rx_q_put_def)

lemma rx_net_ok_stats [simp]: "rx_net_ok (net\<lparr>stats := x\<rparr>) = rx_net_ok net" "rx_net_ok (net\<lparr>jiffies_defer := d\<rparr>) = rx_net_ok net"
  by (simp_all add: rx_net_ok_def)

lemma rx_ring_ok_frame:
  "rx_ring_ok q \<Longrightarrow> ring_wf XPNET_MAX_PACKET_SIZE q' \<Longrightarrow> q'\<lparr>q_va := None\<rparr> = q\<lparr>q_va := None\<rparr> \<Longrightarrow> rx_ring_ok q'"
  using frame_fields [of q' q] by (simp add: rx_ring_ok_def)

lemma rx_rearm_ok:
  assumes "rx_ring_ok q"
  shows "\<exists>q'. rx_rearm q = Some q' \<and> rx_ring_ok q' \<and> (rx_sized m q \<longrightarrow> rx_sized m q') \<and> q_tail q' = q_tail q \<and>
    (\<exists>v. desc_get q' (unat (q_tail q)) = Some v \<and> hw_owns v)"
proof -
  have wf: "ring_wf XPNET_MAX_PACKET_SIZE q"
    using assms by (simp add: rx_ring_ok_def)
  then have tail: "q_tail q < 10"
    by (simp add: ring_wf_def)
  obtain q1 q' and d :: xpnet_desc_struct where q': "xpnet_rx_desc_reset q (q_tail q) = Some q1" "xpnet_rx_desc_enable q1 (unat (q_tail q)) = Some q'"
      "ring_wf XPNET_MAX_PACKET_SIZE q'" "q'\<lparr>q_va := None\<rparr> = q\<lparr>q_va := None\<rparr>"
      "desc_get q' (unat (q_tail q)) = Some \<lparr>qword0 = own_bit, qword1 = of_nat XPNET_MAX_PACKET_SIZE,
        qword2 = shard_dma (buf_sta d), qword3 = q_dma q + of_nat (32 * ((unat (q_tail q) + 1) mod 10))\<rparr>"
      "\<forall>j<10. j \<noteq> unat (q_tail q) \<longrightarrow> desc_get q' j = desc_get q j"
    using xpnet_rx_desc_reset_enable_ok [OF wf tail] by blast
  have "q_tail q1 = q_tail q"
    using q'(1) desc_set_frame(3) by (auto simp: xpnet_rx_desc_reset_def split: bind_splits)
  then have "rx_rearm q = Some q'"
    using q'(1,2) by (simp add: rx_rearm_def)
  moreover have own: "hw_owns \<lparr>qword0 = own_bit, qword1 = a, qword2 = b, qword3 = c\<rparr>" for a b c
    by (simp add: hw_owns_bit bit_own_bit)
  moreover have "rx_sized m q'" if "rx_sized m q"
    using that q'(5,6) own by (auto simp: rx_sized_def desc_sized_def) (metis option.inject)
  ultimately show ?thesis
    using rx_ring_ok_frame [OF assms q'(3,4)] q'(5) frame_fields(3) [OF q'(4)] by auto
qed


text \<open>
  One finished packet: the bytes handed on are what the chip wrote, in its byte order; the
  descriptor goes back to the chip with its full length, the others stay, and the tail moves on.
\<close>

lemma ring_wf_buffer:
  assumes "ring_wf b q" "i < 10" "length va = b"
  shows "ring_wf b (q\<lparr>xpq_desc_meta := (xpq_desc_meta q)[i := (xpq_desc_meta q ! i)\<lparr>buf_sta := (buf_sta (xpq_desc_meta q ! i))\<lparr>shard_va := Some va\<rparr>\<rparr>]\<rparr>)"
  using assms by (auto simp: ring_wf_def meta_ok_def nth_list_update)

lemma desc_get_buffer:
  assumes "i < length (xpq_desc_meta q)"
  shows "desc_get (q\<lparr>xpq_desc_meta := (xpq_desc_meta q)[i := (xpq_desc_meta q ! i)\<lparr>buf_sta := b\<rparr>]\<rparr>) j = desc_get q j"
  using assms by (auto simp: desc_get_def meta_get_def arr_get_def nth_list_update)

lemma rx_restart_ok:
  assumes "priv_wf p" "\<not> tx_dma_read_lock p" "xpq_id q < 64"
  shows "\<exists>m'. rx_restart p q = Some (p\<lparr>vma := m'\<rparr>)"
proof (cases "q_tail q = 0")
  case True
  then show ?thesis
    using xpnet_set_q_cdp_ok [of p XPNET_AFLAG_ACQLOCK q 0] xpnet_queue_en_dis_ok [of "p\<lparr>vma := m\<rparr>" XPNET_AFLAG_ACQLOCK q 1 0 for m]
      assms by (simp add: rx_restart_def) (rule exI, rule refl)
next
  case False
  then show ?thesis
    by (intro exI [of _ "vma p"]) (simp add: rx_restart_def)
qed

lemma rx_take_ok:
  assumes "rx_ring_ok q" "0 < n" "unat n \<le> XPNET_MAX_PACKET_SIZE" "priv_wf (pci_priv net)" "\<not> tx_dma_read_lock (pci_priv net)"
    and va: "shard_va (buf_sta (xpq_desc_meta q ! unat (q_tail q))) = Some va"
  shows "\<exists>q' m'. rx_take net i q n =
      Some (\<lparr>skb_data = take (unat n) (chip_view (mode (pci_priv net)) (unat n) va), skb_len = ucast n, skb_data_len = 0\<rparr>,
            rx_q_put (net\<lparr>pci_priv := (pci_priv net)\<lparr>vma := m'\<rparr>\<rparr>) i q') \<and>
    rx_ring_ok q' \<and> q_tail q' = xpnet_add_and_wrap (q_tail q) 1 10 \<and>
    (\<exists>v. desc_get q' (unat (q_tail q)) = Some v \<and> hw_owns v \<and>
       qword1 v = scast (shard_len (buf_sta (xpq_desc_meta q ! unat (q_tail q))))) \<and>
    (\<forall>j<10. j \<noteq> unat (q_tail q) \<longrightarrow> desc_get q' j = desc_get q j)"
proof -
  let ?t = "unat (q_tail q)" and ?p = "pci_priv net"
  let ?d = "xpq_desc_meta q ! ?t"
  have wf: "ring_wf XPNET_MAX_PACKET_SIZE q" and q: "\<not> xpq_lock q" "xpq_id q < 64"
    using assms(1) by (simp_all add: rx_ring_ok_def)
  then have t: "q_tail q < 10" "?t < 10"
    by (simp_all add: ring_wf_def unat_lt_10)
  have len: "length va = XPNET_MAX_PACKET_SIZE"
    using ring_wf_meta_ok [OF wf t(2)] va by (auto simp: meta_ok_def)
  let ?va = "chip_view (mode ?p) (unat n) va"
  have un: "unat (ucast n :: u32) = unat n"
    using unsigned_less [of n, where 'a = nat] by (simp add: unsigned_ucast_eq take_bit_nat_eq_self)
  have "4 * len_words (unat n) \<le> 16384" "len_words (unat n) \<le> 65535"
    using assms(3) by (simp_all add: len_words_def XPNET_MAX_PACKET_SIZE_def)
  moreover have "0 < (ucast n :: u32)"
    using assms(2) un by (simp add: word_less_nat_alt)
  ultimately have swap: "xpnet_endian_swap32 va (ucast n) (mode ?p) = Some ?va"
    using xpnet_endian_swap32_ok [of "ucast n" va "mode ?p"] len un by (simp add: XPNET_MAX_PACKET_SIZE_def)
  let ?q1 = "q\<lparr>xpq_desc_meta := (xpq_desc_meta q)[?t := ?d\<lparr>buf_sta := (buf_sta ?d)\<lparr>shard_va := Some ?va\<rparr>\<rparr>]\<rparr>"
  have m: "length (xpq_desc_meta q) = 10"
    using wf by (simp add: ring_wf_def)
  have wf1: "ring_wf XPNET_MAX_PACKET_SIZE ?q1"
    using ring_wf_buffer [OF wf t(2), of ?va] len by simp
  let ?f = "\<lambda>v. v\<lparr>qword1 := scast (shard_len (buf_sta ?d)), qword0 := own_bit\<rparr>"
  obtain v q2 where q2: "desc_get ?q1 ?t = Some v" "desc_set ?q1 ?t (?f v) = Some q2" "ring_wf XPNET_MAX_PACKET_SIZE q2"
      "q2\<lparr>q_va := None\<rparr> = ?q1\<lparr>q_va := None\<rparr>"
    and r2: "\<And>j. j < 10 \<Longrightarrow> desc_get q2 j = (if j = ?t then Some (?f v) else desc_get ?q1 j)"
    using ring.upd_one [OF wf1 t(2), of ?f] by blast
  have fr: "q_tail q2 = q_tail q" "xpq_lock q2 = xpq_lock q" "xpq_id q2 = xpq_id q" "xpq_num_desc q2 = 10"
    using frame_fields [OF q2(4)] q2(3) by simp_all
  let ?q3 = "q2\<lparr>q_tail := xpnet_add_and_wrap (q_tail q) 1 10\<rparr>"
  have "xpnet_add_and_wrap (q_tail q) 1 10 < 10"
    using unat_add_and_wrap [OF t(1), of 1] by (simp add: unat_lt_10)
  then have ok3: "rx_ring_ok ?q3"
    using q2(3) fr q by (simp add: rx_ring_ok_def ring_wf_def)
  have g3: "desc_get ?q3 j = desc_get q2 j" for j
    by (simp add: desc_get_def meta_get_def)
  obtain m' where p: "rx_restart ?p ?q3 = Some (?p\<lparr>vma := m'\<rparr>)"
    using rx_restart_ok [of ?p ?q3] assms(4,5) fr(3) q(2) by auto
  have "rx_take net i q n =
      Some (\<lparr>skb_data = take (unat n) ?va, skb_len = ucast n, skb_data_len = 0\<rparr>,
            rx_q_put (net\<lparr>pci_priv := ?p\<lparr>vma := m'\<rparr>\<rparr>) i ?q3)"
    using wf t(2) va swap assms(3) len m q2(1,2) fr p
    by (simp add: rx_take_def meta_set_def Let_def)
  moreover have "desc_get ?q3 j = (if j = ?t then Some (?f v) else desc_get q j)" if "j < 10" for j
    using r2 [OF that] desc_get_buffer [of ?t q _ j] m t(2) by (simp add: g3)
  moreover have "hw_owns (?f v)"
    by simp
  ultimately show ?thesis
    using ok3 t(2) by (intro exI [of _ ?q3] exI [of _ m']) simp
qed

text \<open>What reception keeps of the device: the registers and rings are reachable as before.\<close>

definition rx_state_ok :: "(u32 \<Rightarrow> nat) \<Rightarrow> xpnet_private \<Rightarrow> xp_intf \<Rightarrow> bool" where
  "rx_state_ok hash net s \<longleftrightarrow>
     rx_net_ok net \<and> (\<forall>q \<in> set (rx_queue net). rx_sized (mode (pci_priv net)) q) \<and> nd_wf hash s"

lemma rx_state_ok_put:
  "rx_state_ok hash net s \<Longrightarrow> rx_ring_ok q \<Longrightarrow> rx_sized (mode (pci_priv net)) q \<Longrightarrow> rx_state_ok hash (rx_q_put net i q) s"
  using set_update_subset_insert [of "rx_queue net" i q] rx_net_ok_put [of net q i]
  by (auto simp: rx_state_ok_def rx_q_put_def)

lemma rx_state_ok_upd [simp]:
  "rx_state_ok hash (net\<lparr>stats := x\<rparr>) s = rx_state_ok hash net s" "rx_state_ok hash (net\<lparr>jiffies_defer := d\<rparr>) s = rx_state_ok hash net s"
  "rx_state_ok hash net (s\<lparr>skb_calls := n\<rparr>) = rx_state_ok hash net s"
  by (simp_all add: rx_state_ok_def)

lemma rx_state_ok_vma: "rx_state_ok hash (net\<lparr>pci_priv := (pci_priv net)\<lparr>vma := m\<rparr>\<rparr>) s = rx_state_ok hash net s"
  by (simp add: rx_state_ok_def rx_net_ok_def)

lemma ucast_16_32: "unat (ucast (n :: u16) :: u32) = unat n"
  using unsigned_less [of n, where 'a = nat] by (simp add: unsigned_ucast_eq take_bit_nat_eq_self)

text \<open>
  One iteration that finds a finished packet: it hands on the bytes the chip wrote, routed as
  specified, and gives the descriptor back.
\<close>

lemma rx_events_calls [simp]: "rx_events hash (s\<lparr>skb_calls := n\<rparr>) info d = rx_events hash s info d"
  by (simp add: rx_events_def linked_def split: option.split)

definition rx_skb :: "xp_address_mode \<Rightarrow> u16 \<Rightarrow> u8 list \<Rightarrow> sk_buff" where
  "rx_skb m n va = \<lparr>skb_data = take (unat n) (chip_view m (unat n) va), skb_len = ucast n, skb_data_len = 0\<rparr>"

lemma rx_packet_step:
  assumes ok: "rx_state_ok hash net s" "i < 64" and v: "desc_get (rx_queue net ! i) (unat (q_tail (rx_queue net ! i))) = Some v"
    and packet: "qword0 v \<noteq> 1" "\<not> hw_owns v" "unat (rx_pkt_size (mode (pci_priv net)) v) \<le> XPNET_MAX_PACKET_SIZE"
      "skb_ok s (skb_calls s)"
    and va: "shard_va (buf_sta (xpq_desc_meta (rx_queue net ! i) ! unat (q_tail (rx_queue net ! i)))) = Some va"
      "skb = rx_skb (mode (pci_priv net)) (rx_pkt_size (mode (pci_priv net)) v) va"
  shows "\<exists>info net' s'. xp_rx_skb_info_get skb = Some info \<and>
    (\<forall>k. rx_process_loop hash net s i (Suc k) = rx_process_loop hash net' s' i k) \<and> rx_state_ok hash net' s' \<and>
    ((\<forall>k. skb_ok s k) \<longrightarrow> events s' = events s @ rx_events hash s info (skb_data skb)) \<and>
    q_tail (rx_queue net' ! i) = xpnet_add_and_wrap (q_tail (rx_queue net ! i)) 1 10 \<and>
    (\<exists>w. desc_get (rx_queue net' ! i) (unat (q_tail (rx_queue net ! i))) = Some w \<and> hw_owns w)"
proof -
  let ?q = "rx_queue net ! i" and ?m = "mode (pci_priv net)"
  let ?n = "rx_pkt_size ?m v"
  have net: "rx_net_ok net" "nd_wf hash s" "rx_sized ?m ?q"
    using ok by (simp_all add: rx_state_ok_def rx_net_ok_def XPNET_RX_NUM_QUEUES_def)
  have q: "arr_get (rx_queue net) i = Some ?q" "rx_ring_ok ?q"
    using rx_net_ok_queue [OF net(1) ok(2)] by simp_all
  then have wf: "ring_wf XPNET_MAX_PACKET_SIZE ?q" and lk: "\<not> xpq_lock ?q"
    by (simp_all add: rx_ring_ok_def)
  then have t: "unat (q_tail ?q) < 10"
    by (simp add: ring_wf_def unat_lt_10)
  have n: "RX_HDR_LEN \<le> unat ?n"
    using net(3) t v packet(1,2) by (auto simp: rx_sized_def desc_sized_def)
  have len: "length va = XPNET_MAX_PACKET_SIZE"
    using ring_wf_meta_ok [OF wf t] va(1) by (auto simp: meta_ok_def)
  let ?net = "net\<lparr>jiffies_defer := 0\<rparr>" and ?s = "s\<lparr>skb_calls := Suc (skb_calls s)\<rparr>"
  have "0 < ?n"
    using n by (auto simp: RX_HDR_LEN_def word_gt_0)
  then obtain q1 m' where q1: "rx_take ?net i ?q ?n = Some (skb, rx_q_put (?net\<lparr>pci_priv := (pci_priv net)\<lparr>vma := m'\<rparr>\<rparr>) i q1)"
      "rx_ring_ok q1" "\<exists>w. desc_get q1 (unat (q_tail ?q)) = Some w \<and> hw_owns w" "q_tail q1 = xpnet_add_and_wrap (q_tail ?q) 1 10"
      "\<forall>j<10. j \<noteq> unat (q_tail ?q) \<longrightarrow> desc_get q1 j = desc_get ?q j"
    using rx_take_ok [OF q(2) _ packet(3) _ _ va(1), of ?net i] net(1) by (auto simp: rx_net_ok_def va(2) rx_skb_def)
  let ?net1 = "rx_q_put (?net\<lparr>pci_priv := (pci_priv net)\<lparr>vma := m'\<rparr>\<rparr>) i q1"
  have "rx_sized ?m q1"
    using net(3) q1(3,5) by (auto simp: rx_sized_def desc_sized_def) (metis option.inject)
  then have ok1: "rx_state_ok hash ?net1 s"
    using rx_state_ok_put [OF _ q1(2), of hash "?net\<lparr>pci_priv := (pci_priv net)\<lparr>vma := m'\<rparr>\<rparr>" s i]
      rx_state_ok_vma [of hash m' ?net s] ok(1) by simp
  have full: "skb_full skb"
    using packet(3) len by (simp add: skb_full_def ucast_16_32 va(2) rx_skb_def)
  obtain info where info: "xp_rx_skb_info_get skb = Some info"
    using n packet(3) len by (simp add: xp_rx_skb_info_get_def Let_def va(2) rx_skb_def)
  have wfs: "nd_wf hash ?s"
    using net(2) by simp
  obtain net2 s2 where s2: "xp_rx_skb_process hash ?net1 ?s skb = Some (net2, s2)" "rx_queue net2 = rx_queue ?net1" "rx_state_ok hash net2 s2"
      "(\<forall>k. skb_ok s k) \<longrightarrow> events s2 = events s @ rx_events hash s info (skb_data skb)"
    using rx_skb_process_ok [OF wfs full info, of ?net1] ok1 by (fastforce simp: rx_state_ok_def)
  have "i < length (rx_queue net)"
    using net(1) ok(2) by (simp add: rx_net_ok_def XPNET_RX_NUM_QUEUES_def)
  then have "rx_queue net2 ! i = q1"
    using s2(2) by (simp add: rx_q_put_def)
  moreover have "rx_process_loop hash net s i (Suc k) = rx_process_loop hash net2 s2 i k" for k
    using packet q1(1) s2(1) by (simp add: q(1) lk v BITOFF_ERRORINDICATION_def Let_def)
  ultimately show ?thesis
    using info s2(3,4) q1(3,4) by blast
qed

lemma rx_process_loop_safe:
  assumes "rx_state_ok hash net s" "i < 64"
  shows "\<exists>net' s'. rx_process_loop hash net s i k = Some (net', s') \<and> rx_state_ok hash net' s'"
  using assms(1)
proof (induction k arbitrary: net s)
  case (Suc k)
  let ?q = "rx_queue net ! i"
  have net: "rx_net_ok net" "nd_wf hash s" "rx_sized (mode (pci_priv net)) ?q"
    using Suc.prems assms(2) by (simp_all add: rx_state_ok_def rx_net_ok_def XPNET_RX_NUM_QUEUES_def)
  have q: "arr_get (rx_queue net) i = Some ?q" "rx_ring_ok ?q"
    using rx_net_ok_queue [OF net(1) assms(2)] by simp_all
  then have wf: "ring_wf XPNET_MAX_PACKET_SIZE ?q" and lk: "\<not> xpq_lock ?q"
    by (simp_all add: rx_ring_ok_def)
  then have t: "unat (q_tail ?q) < 10"
    by (simp add: ring_wf_def unat_lt_10)
  obtain v where v: "desc_get ?q (unat (q_tail ?q)) = Some v"
    using ring.rd_total [OF wf t] by blast
  obtain q' where q': "rx_rearm ?q = Some q'" "rx_ring_ok q'" "rx_sized (mode (pci_priv net)) q'"
    using rx_rearm_ok [OF q(2)] net(3) by blast
  have put: "rx_state_ok hash (rx_q_put net i q') s" "rx_state_ok hash (rx_q_put (net\<lparr>jiffies_defer := 0\<rparr>) i q') s"
    using Suc.prems q'(2,3) by (simp_all add: rx_state_ok_put)
  let ?n = "rx_pkt_size (mode (pci_priv net)) v"
  note defs = q(1) lk v q'(1) BITOFF_ERRORINDICATION_def
  consider (error) "qword0 v = 1" | (own) "qword0 v \<noteq> 1" "hw_owns v"
    | (big) "qword0 v \<noteq> 1" "\<not> hw_owns v" "XPNET_MAX_PACKET_SIZE < unat ?n"
    | (nomem) "qword0 v \<noteq> 1" "\<not> hw_owns v" "\<not> XPNET_MAX_PACKET_SIZE < unat ?n" "\<not> skb_ok s (skb_calls s)"
    | (packet) "qword0 v \<noteq> 1" "\<not> hw_owns v" "unat ?n \<le> XPNET_MAX_PACKET_SIZE" "skb_ok s (skb_calls s)"
    by fastforce
  then show ?case
  proof cases
    case error
    then show ?thesis
      using put by (simp add: defs)
  next
    case own
    then show ?thesis
      using Suc.prems by (simp add: defs)
  next
    case big
    then show ?thesis
      using put(2) by (simp add: defs Let_def)
  next
    case nomem
    then show ?thesis
      using Suc.prems by (simp add: defs Let_def)
  next
    case packet
    obtain va where va: "shard_va (buf_sta (xpq_desc_meta ?q ! unat (q_tail ?q))) = Some va"
      using ring_wf_meta_ok [OF wf t] by (auto simp: meta_ok_def)
    obtain net2 s2 where s2: "\<forall>k. rx_process_loop hash net s i (Suc k) = rx_process_loop hash net2 s2 i k" "rx_state_ok hash net2 s2"
      using rx_packet_step [OF Suc.prems assms(2) v packet va refl] by blast
    then show ?thesis
      using Suc.IH [OF s2(2)] by simp
  qed
qed simp

lemma rx_handle_loop_safe:
  assumes "rx_state_ok hash net s" "i + k \<le> 64"
  shows "\<exists>net' s'. rx_handle_loop hash net s i k = Some (net', s') \<and> rx_state_ok hash net' s'"
  using assms
proof (induction k arbitrary: net s i)
  case (Suc k)
  obtain net1 s1 where "rx_process_loop hash net s i XPNET_RX_NUM_DESCS = Some (net1, s1)" "rx_state_ok hash net1 s1"
    using rx_process_loop_safe [OF Suc.prems(1), of i XPNET_RX_NUM_DESCS] Suc.prems(2) by auto
  then show ?case
    using Suc.IH [of net1 s1 "Suc i"] Suc.prems(2) by (simp add: xpnet_rx_queue_process_def)
qed simp

lemma rxtx_handler_safe:
  assumes "rx_state_ok hash net s"
  shows "\<exists>d net' s'. xpnet_rxtx_handler HZ hash net s = Some (d, net', s') \<and> rx_state_ok hash net' s'"
proof -
  have "\<not> priv_lock net"
    using assms by (simp add: rx_state_ok_def rx_net_ok_def)
  then show ?thesis
    using rx_handle_loop_safe [of hash "net\<lparr>jiffies_defer := 1\<rparr>" s 0 64] assms
    by (cases "dma_trigger net") (auto simp: xpnet_rxtx_handler_def xpnet_rx_handle_def XPNET_RX_NUM_QUEUES_def)
qed

end
