(* ===== verification/Netdev_Mode.thy ===== *)
theory Netdev_Mode
  imports Ndo_Ops Rx_Path
begin

text \<open>
  Bringing the network mode up and down: \<open>xp_netdev_mode_init\<close> and \<open>xp_netdev_mode_deinit\<close> with the
  sockets they create (\<open>xp_netdev_intf.c\<close>). The lemmas show that the mode is set up completely or
  not at all, and that it is torn down completely from every reachable state.
\<close>

subsection \<open>The mode\<close>

text \<open>
  What the kernel answers to the calls: the results of \<open>register_pernet_subsys\<close>, \<open>sock_create\<close>
  and \<open>bind\<close>, and whether the trap table can be allocated.
\<close>

record mode_env =
  me_kmalloc :: bool
  me_pernet :: rc
  me_sock_create :: rc
  me_bind :: rc

record xp_mode =
  mo_intf :: xp_intf
  nl_registered :: bool
  client_socket :: bool

definition xp_net_init :: "sock option \<Rightarrow> rc \<times> sock option" where
  "xp_net_init nlsk = (if nlsk = None then (- ENOMEM, None) else (0, nlsk))"

text \<open>\<open>xp_net_exit\<close> releases the socket of a namespace and clears the pointer.\<close>

definition xp_net_exit :: "sock option \<Rightarrow> sock option" where
  "xp_net_exit nlsk = None"

definition xp_netlink_sock_init :: "mode_env \<Rightarrow> xp_mode \<Rightarrow> rc \<times> xp_mode" where
  "xp_netlink_sock_init v m = (me_pernet v, m\<lparr>nl_registered := (0 \<le> me_pernet v)\<rparr>)"

definition xp_netlink_sock_deinit :: "xp_mode \<Rightarrow> xp_mode" where
  "xp_netlink_sock_deinit m = m\<lparr>nl_registered := False\<rparr>"

definition xp_client_sock_init :: "mode_env \<Rightarrow> xp_mode \<Rightarrow> rc \<times> xp_mode" where
  "xp_client_sock_init v m =
     (if me_sock_create v < 0 then (me_sock_create v, m)
      else let m = m\<lparr>client_socket := True\<rparr> in
        if me_bind v < 0 then (me_bind v, m\<lparr>client_socket := False\<rparr>) else (0, m))"

definition xp_client_sock_deinit :: "xp_mode \<Rightarrow> xp_mode option" where
  "xp_client_sock_deinit m = (if client_socket m then Some (m\<lparr>client_socket := False\<rparr>) else None)"

text \<open>\<open>xp_trap_deinit\<close> on the global table: it must exist, and is freed in the end.\<close>

definition trap_table_free :: "xp_mode \<Rightarrow> xp_mode option" where
  "trap_table_free m =
     do { t \<leftarrow> trap_table (mo_intf m); _ \<leftarrow> xp_trap_deinit t; Some (m\<lparr>mo_intf := (mo_intf m)\<lparr>trap_table := None\<rparr>\<rparr>) }"

definition xp_netdev_mode_init :: "mode_env \<Rightarrow> xp_mode \<Rightarrow> (rc \<times> xp_mode) option" where
  "xp_netdev_mode_init v m =
     (case xp_trap_init (me_kmalloc v) of
        (rc, t) \<Rightarrow>
          let m = m\<lparr>mo_intf := (mo_intf m)\<lparr>trap_table := t\<rparr>\<rparr> in
          if rc < 0 then Some (rc, m)
          else case xp_netlink_sock_init v m of
            (rc, m) \<Rightarrow>
              if rc < 0 then do { m \<leftarrow> trap_table_free m; Some (rc, m) }
              else case xp_client_sock_init v m of
                (rc, m) \<Rightarrow>
                  if rc < 0 then do { m \<leftarrow> trap_table_free (xp_netlink_sock_deinit m); Some (rc, m) }
                  else Some (0, m))"

definition xp_netdev_mode_deinit :: "xp_mode \<Rightarrow> (rc \<times> xp_mode) option" where
  "xp_netdev_mode_deinit m =
     do { m \<leftarrow> trap_table_free m;
          let m = xp_netlink_sock_deinit m;
          s \<leftarrow> xp_netdev_all_remove (mo_intf m);
          m \<leftarrow> xp_client_sock_deinit (m\<lparr>mo_intf := s\<rparr>);
          Some (0, m) }"

lemma trap_table_free_ok:
  assumes "trap_table (mo_intf m) = Some t" "trap_wf t"
  shows "trap_table_free m = Some (m\<lparr>mo_intf := (mo_intf m)\<lparr>trap_table := None\<rparr>\<rparr>)"
proof -
  have "\<exists>t'. trap_deinit_loop t 0 (length (tt_trap t)) = Some t'"
    using trap_deinit_loop_ok [of t 0 "length (tt_trap t)"] assms(2) by (auto simp: trap_wf_def)
  then show ?thesis
    using assms by (auto simp: trap_table_free_def xp_trap_deinit_def trap_wf_def)
qed

lemma xp_trap_init_True: "\<exists>t. xp_trap_init True = (0, Some t) \<and> trap_wf t"
  using trap_init_wf by (auto simp: xp_trap_init_def)

text \<open>Completely set up or not at all.\<close>

lemma mode_init_ok:
  assumes "\<not> client_socket m" "\<not> nl_registered m"
  shows "\<exists>rc m'. xp_netdev_mode_init v m = Some (rc, m') \<and> rc \<le> 0 \<and>
    (if rc = 0 then nl_registered m' \<and> client_socket m' \<and> (\<exists>t. trap_table (mo_intf m') = Some t \<and> trap_wf t)
     else \<not> nl_registered m' \<and> \<not> client_socket m' \<and> trap_table (mo_intf m') = None) \<and>
    (mo_intf m')\<lparr>trap_table := t0\<rparr> = (mo_intf m)\<lparr>trap_table := t0\<rparr>"
proof (cases "me_kmalloc v")
  case False
  then show ?thesis
    using assms by (simp add: xp_netdev_mode_init_def xp_trap_init_def)
next
  case True
  obtain t where t: "xp_trap_init True = (0, Some t)" "trap_wf t"
    using xp_trap_init_True by blast
  have free: "trap_table_free (m'\<lparr>mo_intf := s\<lparr>trap_table := Some t\<rparr>\<rparr>) = Some (m'\<lparr>mo_intf := s\<lparr>trap_table := None\<rparr>\<rparr>)" for m' s
    using trap_table_free_ok [of "m'\<lparr>mo_intf := s\<lparr>trap_table := Some t\<rparr>\<rparr>" t] t(2) by simp
  consider (pernet) "me_pernet v < 0" | (create) "0 \<le> me_pernet v" "me_sock_create v < 0"
    | (bind) "0 \<le> me_pernet v" "0 \<le> me_sock_create v" "me_bind v < 0"
    | (ok) "0 \<le> me_pernet v" "0 \<le> me_sock_create v" "0 \<le> me_bind v"
    by linarith
  then show ?thesis
  proof cases
    case pernet
    then show ?thesis
      using True t assms trap_table_free_ok [of _ t]
      by (simp add: xp_netdev_mode_init_def xp_netlink_sock_init_def)
  next
    case create
    then show ?thesis
      using True t assms trap_table_free_ok [of _ t]
      by (simp add: xp_netdev_mode_init_def xp_netlink_sock_init_def xp_client_sock_init_def xp_netlink_sock_deinit_def)
  next
    case bind
    then show ?thesis
      using True t assms trap_table_free_ok [of _ t]
      by (simp add: xp_netdev_mode_init_def xp_netlink_sock_init_def xp_client_sock_init_def xp_netlink_sock_deinit_def)
  next
    case ok
    then show ?thesis
      using True t assms by (simp add: xp_netdev_mode_init_def xp_netlink_sock_init_def xp_client_sock_init_def)
  qed
qed

text \<open>From any well-formed state everything is released.\<close>

lemma mode_deinit_ok:
  assumes "nd_wf hash (mo_intf m)" "client_socket m"
  shows "\<exists>m'. xp_netdev_mode_deinit m = Some (0, m') \<and> \<not> nl_registered m' \<and> \<not> client_socket m' \<and>
    trap_table (mo_intf m') = None \<and> xp_netdev_list (mo_intf m') = [] \<and> nd_heap (mo_intf m') = Map.empty \<and>
    htable (mo_intf m') = (\<lambda>_. []) \<and> irqs_on (mo_intf m') = irqs_on (mo_intf m) \<and> \<not> list_lock (mo_intf m')"
proof -
  let ?s = "(mo_intf m)\<lparr>trap_table := None\<rparr>"
  obtain t where t: "trap_table (mo_intf m) = Some t" "trap_wf t"
    using assms(1) by (auto simp: nd_wf_def)
  have "heap_ok ?s" "hash_ok hash ?s" "\<not> list_lock ?s"
    using assms(1) by (simp_all add: nd_wf_def heap_ok_def hash_ok_def)
  then obtain s' where s': "xp_netdev_all_remove ?s = Some s'" "xp_netdev_list s' = []" "nd_heap s' = Map.empty"
      "htable s' = (\<lambda>_. [])" "irqs_on s' = irqs_on (mo_intf m)" "\<not> list_lock s'"
    using all_remove_ok [of ?s hash] by auto
  have "trap_table s' = None"
    using s'(1) by (auto simp: xp_netdev_all_remove_def list_lock_irqsave_def split: bind_splits if_splits
        dest!: remove_all_loop_trap)
  then show ?thesis
    using trap_table_free_ok [OF t] s' assms(2)
    by (simp add: xp_netdev_mode_deinit_def xp_netlink_sock_deinit_def xp_client_sock_deinit_def Let_def)
qed

text \<open>The mode is down: no socket, no netlink receiver, no interface.\<close>

definition mode_off :: "xp_mode \<Rightarrow> bool" where
  "mode_off m \<longleftrightarrow>
     \<not> client_socket m \<and> \<not> nl_registered m \<and> xp_netdev_list (mo_intf m) = [] \<and> nd_heap (mo_intf m) = Map.empty \<and>
     htable (mo_intf m) = (\<lambda>_. []) \<and> \<not> list_lock (mo_intf m)"

text \<open>The kernel grants everything the mode asks for.\<close>

definition mode_granted :: "mode_env \<Rightarrow> bool" where
  "mode_granted v \<longleftrightarrow> me_kmalloc v \<and> 0 \<le> me_pernet v \<and> 0 \<le> me_sock_create v \<and> 0 \<le> me_bind v"

lemma mode_init_granted:
  assumes "mode_off m"
  obtains (up) m' where "xp_netdev_mode_init v m = Some (0, m')" "mode_granted v" "nd_wf hash (mo_intf m')" "client_socket m'"
      "nl_registered m'"
  | (down) rc m' where "xp_netdev_mode_init v m = Some (rc, m')" "rc < 0" "\<not> mode_granted v" "mode_off m'"
proof -
  have off: "\<not> client_socket m" "\<not> nl_registered m"
    using assms by (simp_all add: mode_off_def)
  obtain rc m' where i: "xp_netdev_mode_init v m = Some (rc, m')" "rc \<le> 0"
      "if rc = 0 then nl_registered m' \<and> client_socket m' \<and> (\<exists>t. trap_table (mo_intf m') = Some t \<and> trap_wf t)
       else \<not> nl_registered m' \<and> \<not> client_socket m' \<and> trap_table (mo_intf m') = None"
      "(mo_intf m')\<lparr>trap_table := None\<rparr> = (mo_intf m)\<lparr>trap_table := None\<rparr>"
    using mode_init_ok [OF off, of v None] by blast
  have "xp_netdev_list (mo_intf m') = []" "nd_heap (mo_intf m') = Map.empty" "htable (mo_intf m') = (\<lambda>_. [])" "\<not> list_lock (mo_intf m')"
    using assms arg_cong [OF i(4), of xp_netdev_list] arg_cong [OF i(4), of nd_heap] arg_cong [OF i(4), of htable]
      arg_cong [OF i(4), of list_lock] by (simp_all add: mode_off_def)
  moreover have "rc = 0 \<longleftrightarrow> mode_granted v"
    using i(1) by (auto simp: xp_netdev_mode_init_def xp_trap_init_def xp_netlink_sock_init_def xp_client_sock_init_def
        mode_granted_def Let_def split: if_splits bind_splits)
  ultimately show ?thesis
    using i(1-3) by (cases "rc = 0") (auto simp: nd_wf_def heap_ok_def hash_ok_def mode_off_def intro: up down)
qed

lemma mode_deinit_off:
  assumes "nd_wf hash (mo_intf m)" "client_socket m"
  shows "\<exists>m'. xp_netdev_mode_deinit m = Some (0, m') \<and> mode_off m' \<and> trap_table (mo_intf m') = None \<and>
    irqs_on (mo_intf m') = irqs_on (mo_intf m)"
  using mode_deinit_ok [OF assms] by (auto simp: mode_off_def)

end
