(* ===== verification/Queue_Setup.thy ===== *)
theory Queue_Setup
  imports Queue_Init
begin

text \<open>
  Building and clearing all queues when the allocator has the memory: what is allocated is
  exactly the descriptor area and the ten buffers of each queue, and clearing the queues gives
  all of it back. Operations on RX queues leave the TX queues alone, and the other way round.
\<close>

subsection \<open>One TX queue\<close>

lemma tx_uninit_loop_ok:
  assumes "rx_base_ok q" "\<And>j. i \<le> j \<Longrightarrow> j < i + k \<Longrightarrow> meta_ok PAGE_SIZE (q_dma q) j (xpq_desc_meta q ! j)" "i + k \<le> 10"
    "mset (dma_live e) = bufs_mem PAGE_SIZE q i k + L"
  shows "\<exists>q' e'. tx_uninit_loop q e i k = Some (q', e') \<and> rx_base_ok q' \<and> q_conf q' = q_conf q \<and>
    mset (dma_live e') = L \<and> dma_res e' = dma_res e"
  using assms
proof (induction k arbitrary: q e i)
  case (Suc k)
  let ?d = "xpq_desc_meta q ! i"
  obtain area where a: "q_va q = Some area" "10 \<le> length area" and l: "length (xpq_desc_meta q) = 10"
    and n: "xpq_num_desc q = 10"
    using Suc.prems(1) by (auto simp: rx_base_ok_def)
  obtain bytes where d: "desc_va ?d = Some i" "shard_va (buf_sta ?d) = Some bytes"
    using Suc.prems(2) [of i] by (auto simp: meta_ok_def)
  have i: "i < 10"
    using Suc.prems(3) by simp
  obtain e1 where e1: "dma_free_coherent PAGE_SIZE (Some bytes) (shard_dma (buf_sta ?d)) e = Some e1"
      "mset (dma_live e1) = bufs_mem PAGE_SIZE q (Suc i) k + L" "dma_res e1 = dma_res e"
    using dma_free_coherent_ok [of "Some bytes" e "shard_dma (buf_sta ?d)" PAGE_SIZE "bufs_mem PAGE_SIZE q (Suc i) k + L"]
      Suc.prems(4) by (auto simp: buf_mem_def)
  let ?d' = "?d\<lparr>cdp := 0, desc_va := None, buf_sta := (buf_sta ?d)\<lparr>shard_va := None, shard_dma := 0\<rparr>\<rparr>"
  let ?q1 = "q\<lparr>q_va := Some (area[i := zero_desc]), xpq_desc_meta := (xpq_desc_meta q)[i := ?d']\<rparr>"
  have step: "tx_uninit_loop q e i (Suc k) = tx_uninit_loop ?q1 e1 (Suc i) k"
    using a l d i e1(1) by (simp add: desc_set_def meta_get_def meta_set_def)
  have base: "rx_base_ok ?q1"
    using a l n by (simp add: rx_base_ok_def)
  have "bufs_mem PAGE_SIZE ?q1 (Suc i) k = bufs_mem PAGE_SIZE q (Suc i) k"
    by (intro bufs_mem_cong) simp
  moreover have "meta_ok PAGE_SIZE (q_dma ?q1) j (xpq_desc_meta ?q1 ! j)" if "Suc i \<le> j" "j < Suc i + k" for j
    using Suc.prems(2) [of j] that by simp
  moreover have "q_conf ?q1 = q_conf q"
    by (simp add: q_conf_def)
  ultimately show ?case
    unfolding step using Suc.IH [OF base, of "Suc i" e1] e1(2,3) Suc.prems(3) by simp
qed auto

lemma xpnet_tx_queue_uninit_ok:
  assumes "i < length (tx_queue net)" "tx_queue net ! i = q" "priv_wf (pci_priv net)"
    "\<not> tx_dma_read_lock (pci_priv net)" "xpq_id q < 64" "ring_wf PAGE_SIZE q"
    "mset (dma_live e) = q_mem PAGE_SIZE q + L"
  shows "\<exists>net' e' q'. xpnet_tx_queue_uninit net e i 10 = Some (net', e') \<and>
    net' = tx_q_put (net\<lparr>pci_priv := pci_priv net'\<rparr>) i q' \<and> priv_wf (pci_priv net') \<and>
    \<not> tx_dma_read_lock (pci_priv net') \<and> mset (dma_live e') = L"
proof -
  obtain p' where p': "xpnet_queue_en_dis (pci_priv net) q 0 0 XPNET_AFLAG_ACQLOCK = Some p'" "priv_wf p'" "\<not> tx_dma_read_lock p'"
    using assms(3-5) xpnet_queue_en_dis_ok [of "pci_priv net" XPNET_AFLAG_ACQLOCK q 0 0] by auto
  have base: "rx_base_ok q"
    using assms(6) by (simp add: rx_base_ok_def ring_wf_def)
  obtain q1 e1 where q1: "tx_uninit_loop q e 0 10 = Some (q1, e1)" "rx_base_ok q1" "q_conf q1 = q_conf q"
      "mset (dma_live e1) = add_mset (q_dma q, desc_memlen) L"
    using tx_uninit_loop_ok [OF base, of 0 10 e "add_mset (q_dma q, desc_memlen) L"] assms(6,7)
    by (auto simp: ring_wf_def q_mem_def)
  obtain area where a: "q_va q1 = Some area"
    using q1(2) by (auto simp: rx_base_ok_def)
  obtain e2 where e2: "dma_free_coherent desc_memlen (Some area) (q_dma q) e1 = Some e2" "mset (dma_live e2) = L"
    using dma_free_coherent_ok [of "Some area" e1 "q_dma q" desc_memlen L] q1(4) by auto
  have "xpnet_tx_queue_uninit net e i 10 = Some (tx_q_put (net\<lparr>pci_priv := p'\<rparr>) i q1, e2)"
    using assms(1,2) p'(1) q1(1) a e2(1) q_conf_fields(4) [OF q1(3)] by (simp add: xpnet_tx_queue_uninit_def)
  then show ?thesis
    using p'(2,3) e2(2) by (auto simp: tx_q_put_def)
qed

subsection \<open>All TX queues\<close>

definition tx_built :: "xpnet_private \<Rightarrow> nat \<Rightarrow> bool" where
  "tx_built net i \<longleftrightarrow>
     ring_wf PAGE_SIZE (tx_queue net ! i) \<and> xpq_id (tx_queue net ! i) = of_nat i \<and> \<not> xpq_lock (tx_queue net ! i) \<and>
     xpq_type (tx_queue net ! i) = XPNET_QUEUE_TYPE_TX"

definition tx_mem :: "xpnet_private \<Rightarrow> nat \<Rightarrow> (u64 \<times> nat) multiset" where
  "tx_mem net i = q_mem PAGE_SIZE (tx_queue net ! i)"

text \<open>An operation on the TX queues changes them and the registers, nothing else.\<close>

definition tx_only :: "xpnet_private \<Rightarrow> xpnet_private \<Rightarrow> bool" where
  "tx_only net net' \<longleftrightarrow> net' = net\<lparr>pci_priv := pci_priv net', tx_queue := tx_queue net'\<rparr>"

lemma tx_only_refl [simp]: "tx_only net net"
  by (simp add: tx_only_def)

lemma tx_only_trans: "tx_only a b \<Longrightarrow> tx_only b c \<Longrightarrow> tx_only a c"
  unfolding tx_only_def by (cases a; cases b; cases c) simp

lemma tx_only_fields:
  assumes "tx_only net net'"
  shows "rx_queue net' = rx_queue net" "txqno net' = txqno net" "priv_lock net' = priv_lock net" "num_rxqueues net' = num_rxqueues net"
    "num_txqueues net' = num_txqueues net" "dma_trigger net' = dma_trigger net" "hw_flags net' = hw_flags net"
  using assms by (cases net; cases net'; simp add: tx_only_def)+

lemma tx_q_put_only:
  assumes "net1 = tx_q_put (net\<lparr>pci_priv := pci_priv net1\<rparr>) i q1"
  shows "tx_only net net1" "tx_queue net1 = (tx_queue net)[i := q1]"
  using assms by (cases net; cases net1; simp add: tx_only_def tx_q_put_def)+

lemma tx_teardown_loop_ok:
  assumes "length (tx_queue net) = 64" "i + k \<le> 64" "\<And>j. i \<le> j \<Longrightarrow> j < i + k \<Longrightarrow> tx_built net j"
    "priv_wf (pci_priv net)" "\<not> tx_dma_read_lock (pci_priv net)"
    "mset (dma_live e) = (\<Sum>j = i..<i + k. tx_mem net j) + L"
  shows "\<exists>net' e'. tx_teardown_loop net e i k = Some (net', e') \<and> mset (dma_live e') = L \<and> tx_only net net' \<and>
    priv_wf (pci_priv net') \<and> \<not> tx_dma_read_lock (pci_priv net')"
  using assms
proof (induction k arbitrary: net e i)
  case (Suc k)
  let ?q = "tx_queue net ! i"
  have i: "i < 64" and b: "ring_wf PAGE_SIZE ?q" "xpq_id ?q = of_nat i"
    using Suc.prems(2) Suc.prems(3) [of i] by (auto simp: tx_built_def)
  have n: "unat (xpq_num_desc ?q) = 10"
    using b(1) by (simp add: ring_wf_def)
  have live: "mset (dma_live e) = q_mem PAGE_SIZE ?q + ((\<Sum>j = Suc i..<Suc i + k. tx_mem net j) + L)"
    using Suc.prems(6) by (simp add: sum.atLeast_Suc_lessThan tx_mem_def add.assoc)
  obtain net1 e1 q1 where u: "xpnet_tx_queue_uninit net e i 10 = Some (net1, e1)"
      "net1 = tx_q_put (net\<lparr>pci_priv := pci_priv net1\<rparr>) i q1" "priv_wf (pci_priv net1)"
      "\<not> tx_dma_read_lock (pci_priv net1)" "mset (dma_live e1) = (\<Sum>j = Suc i..<Suc i + k. tx_mem net j) + L"
    using xpnet_tx_queue_uninit_ok [OF _ refl Suc.prems(4,5) _ b(1) live] i Suc.prems(1) by (auto simp: b(2) of_nat_lt_64)
  have same: "tx_queue net1 ! j = tx_queue net ! j" if "Suc i \<le> j" for j
    using that by (simp add: tx_q_put_only(2) [OF u(2)])
  have "(\<Sum>j = Suc i..<Suc i + k. tx_mem net1 j) = (\<Sum>j = Suc i..<Suc i + k. tx_mem net j)"
    by (intro sum.cong refl) (simp add: tx_mem_def same)
  moreover have "tx_built net1 j" if "Suc i \<le> j" "j < Suc i + k" for j
    using Suc.prems(3) [of j] that same [of j] by (simp add: tx_built_def)
  moreover have "length (tx_queue net1) = 64"
    using Suc.prems(1) by (simp add: tx_q_put_only(2) [OF u(2)])
  ultimately have "\<exists>net' e'. tx_teardown_loop net1 e1 (Suc i) k = Some (net', e') \<and> mset (dma_live e') = L \<and> tx_only net1 net' \<and>
      priv_wf (pci_priv net') \<and> \<not> tx_dma_read_lock (pci_priv net')"
    using Suc.prems(2) u(3-5) by (intro Suc.IH) auto
  moreover have "tx_teardown_loop net e i (Suc k) = tx_teardown_loop net1 e1 (Suc i) k"
    using u(1) n i Suc.prems(1) by simp
  ultimately show ?case
    using tx_only_trans [OF tx_q_put_only(1) [OF u(2)]] by auto
qed simp

lemma tx_setup_loop_ok:
  assumes "length (tx_queue net) = 64" "\<And>j. j < 64 \<Longrightarrow> length (xpq_desc_meta (tx_queue net ! j)) = 10"
    "priv_wf (pci_priv net)" "\<not> tx_dma_read_lock (pci_priv net)" "num_txqueues net = 64" "i + k = 64"
    "\<And>j. j < i \<Longrightarrow> tx_built net j" "\<And>c. dma_res e c \<noteq> None" "mset (dma_live e) = (\<Sum>j = 0..<i. tx_mem net j) + L"
  shows "\<exists>net' e'. tx_setup_loop net e i k = Some (0, net', e') \<and> tx_only net net' \<and> priv_wf (pci_priv net') \<and>
    \<not> tx_dma_read_lock (pci_priv net') \<and> mode (pci_priv net') = mode (pci_priv net) \<and> length (tx_queue net') = 64 \<and>
    (\<forall>j<64. tx_built net' j) \<and> mset (dma_live e') = (\<Sum>j = 0..<64. tx_mem net' j) + L"
  using assms
proof (induction k arbitrary: net e i)
  case (Suc k)
  have i: "i < 64" "i < unat (num_txqueues net)" "num_txqueues net \<le> 64"
    using Suc.prems(5,6) by simp_all
  obtain net1 e1 q1 where u: "xpnet_tx_queue_init net e i = Some (0, net1, e1)"
      "net1 = tx_q_put (net\<lparr>pci_priv := pci_priv net1\<rparr>) i q1" "tx_queue_ready (pci_priv net1) i q1"
      "pci_priv net1 = (pci_priv net)\<lparr>vma := vma (pci_priv net1)\<rparr>"
      "mset (dma_live e1) = q_mem PAGE_SIZE q1 + mset (dma_live e)" "dma_res e1 = dma_res e"
    using xpnet_tx_queue_init_ready [OF Suc.prems(1) Suc.prems(2) [OF i(1)] i(2,3) Suc.prems(3,4) Suc.prems(8)] Suc.prems(8) by blast
  note r = tx_q_put_only [OF u(2)]
  have p: "priv_wf (pci_priv net1)" "\<not> tx_dma_read_lock (pci_priv net1)" "mode (pci_priv net1) = mode (pci_priv net)"
    using Suc.prems(3,4) by (subst u(4), simp)+
  have "tx_built net1 j" if "j < Suc i" for j
    using Suc.prems(1) Suc.prems(7) [of j] u(3) that i(1) by (cases "j = i") (auto simp: tx_built_def r(2) tx_queue_ready_def)
  moreover have "(\<Sum>j = 0..<i. tx_mem net1 j) = (\<Sum>j = 0..<i. tx_mem net j)"
    by (intro sum.cong refl) (simp add: tx_mem_def r(2))
  then have "mset (dma_live e1) = (\<Sum>j = 0..<Suc i. tx_mem net1 j) + L"
    using u(5) Suc.prems(1,9) i(1) by (simp add: tx_mem_def r(2) ac_simps)
  moreover have "length (xpq_desc_meta (tx_queue net1 ! j)) = 10" if "j < 64" for j
    using that u(3) Suc.prems(1,2) i(1) by (cases "j = i") (auto simp: r(2) tx_queue_ready_def ring_wf_def)
  ultimately have "\<exists>net' e'. tx_setup_loop net1 e1 (Suc i) k = Some (0, net', e') \<and> tx_only net1 net' \<and> priv_wf (pci_priv net') \<and>
    \<not> tx_dma_read_lock (pci_priv net') \<and> mode (pci_priv net') = mode (pci_priv net1) \<and> length (tx_queue net') = 64 \<and>
    (\<forall>j<64. tx_built net' j) \<and> mset (dma_live e') = (\<Sum>j = 0..<64. tx_mem net' j) + L"
    using Suc.prems(1,5,6,8) p(1,2) u(6) tx_only_fields(5) [OF r(1)] by (intro Suc.IH) (auto simp: r(2))
  then show ?case
    using u(1) p(3) tx_only_trans [OF r(1)] by auto
qed simp

subsection \<open>All RX queues\<close>

definition rx_only :: "xpnet_private \<Rightarrow> xpnet_private \<Rightarrow> bool" where
  "rx_only net net' \<longleftrightarrow> net' = net\<lparr>pci_priv := pci_priv net', rx_queue := rx_queue net'\<rparr>"

lemma rx_only_refl [simp]: "rx_only net net"
  by (simp add: rx_only_def)

lemma rx_only_trans: "rx_only a b \<Longrightarrow> rx_only b c \<Longrightarrow> rx_only a c"
  unfolding rx_only_def by (cases a; cases b; cases c) simp

lemma rx_only_fields:
  assumes "rx_only net net'"
  shows "tx_queue net' = tx_queue net" "txqno net' = txqno net" "priv_lock net' = priv_lock net" "num_rxqueues net' = num_rxqueues net"
    "num_txqueues net' = num_txqueues net" "dma_trigger net' = dma_trigger net" "hw_flags net' = hw_flags net"
  using assms by (cases net; cases net'; simp add: rx_only_def)+

lemma rx_q_put_only:
  assumes "net1 = rx_q_put (net\<lparr>pci_priv := pci_priv net1\<rparr>) i q1"
  shows "rx_only net net1" "rx_queue net1 = (rx_queue net)[i := q1]"
  using assms by (cases net; cases net1; simp add: rx_only_def rx_q_put_def)+

lemma rx_uninit_only: "xpnet_rx_queue_uninit net e i k = Some (net', e') \<Longrightarrow> rx_only net net'"
  by (auto simp: xpnet_rx_queue_uninit_def rx_only_def rx_q_put_def split: bind_splits)

lemma rx_teardown_only: "rx_teardown_loop net e i k = Some (net', e') \<Longrightarrow> rx_only net net'"
proof (induction k arbitrary: net e i)
  case (Suc k)
  then show ?case
    by (auto split: bind_splits dest!: rx_uninit_only intro: rx_only_trans)
qed simp

text \<open>The answers of the allocator to come are the same after any call.\<close>

lemma dma_alloc_res: "dma_alloc_coherent n e = (r, e') \<Longrightarrow> dma_res e' = dma_res e"
  by (auto simp: dma_alloc_coherent_def Let_def split: option.splits)

lemma rx_init_loop_res: "rx_init_loop q e n k = Some (rc, m, q', e') \<Longrightarrow> dma_res e' = dma_res e"
proof (induction k arbitrary: q e n)
  case (Suc k)
  then show ?case
    by (auto simp: xpnet_prealloc_buf_def split: bind_splits prod.splits option.splits dest!: dma_alloc_res)
qed simp

lemma rx_queue_init_res: "xpnet_rx_queue_init net e i = Some (0, net', e') \<Longrightarrow> dma_res e' = dma_res e"
  by (auto simp: xpnet_rx_queue_init_def split: if_splits bind_splits prod.splits option.splits
      dest!: dma_alloc_res rx_init_loop_res)

lemma rx_setup_loop_all:
  assumes "length (rx_queue net) = 64" "\<And>j. j < 64 \<Longrightarrow> length (xpq_desc_meta (rx_queue net ! j)) = 10"
    "priv_wf (pci_priv net)" "\<not> tx_dma_read_lock (pci_priv net)" "i + k = 64"
    "\<And>j. j < i \<Longrightarrow> rx_queue_ready (pci_priv net) j (rx_queue net ! j)"
    "mset (dma_live e) = (\<Sum>j = 0..<i. rx_mem net j) + L" "\<And>c. dma_res e c \<noteq> None"
  shows "\<exists>net' e'. rx_setup_loop net e i k = Some (0, net', e') \<and> rx_only net net' \<and> priv_wf (pci_priv net') \<and>
    \<not> tx_dma_read_lock (pci_priv net') \<and> mode (pci_priv net') = mode (pci_priv net) \<and> length (rx_queue net') = 64 \<and>
    (\<forall>j<64. rx_queue_ready (pci_priv net') j (rx_queue net' ! j)) \<and>
    mset (dma_live e') = (\<Sum>j = 0..<64. rx_mem net' j) + L \<and> dma_res e' = dma_res e"
  using assms
proof (induction k arbitrary: net e i)
  case 0
  then show ?case
    by auto
next
  case (Suc k)
  have i: "i < 64"
    using Suc.prems(5) by simp
  from Suc.prems(1) Suc.prems(2) [OF i] i Suc.prems(3,4) show ?case
  proof (cases rule: xpnet_rx_queue_init_cases [where e = e])
    case (built q1 net1 e1)
    note r = rx_q_put_only [OF built(2)]
    have ready: "rx_queue_ready (pci_priv net1) j (rx_queue net1 ! j)" if "j < Suc i" for j
    proof (cases "j = i")
      case False
      then show ?thesis
        using that i Suc.prems(6) [of j] rx_queue_ready_other [of "pci_priv net" j _ i]
        unfolding r(2) built(3) by simp
    qed (use built(4) i Suc.prems(1) in \<open>simp add: r\<close>)
    have "(\<Sum>j = 0..<i. rx_mem net1 j) = (\<Sum>j = 0..<i. rx_mem net j)"
      by (intro sum.cong refl) (simp add: rx_mem_def r)
    then have live: "mset (dma_live e1) = (\<Sum>j = 0..<Suc i. rx_mem net1 j) + L"
      using built(5) Suc.prems(7) i Suc.prems(1) by (simp add: rx_mem_def r ac_simps)
    have m: "length (xpq_desc_meta (rx_queue net1 ! j)) = 10" if "j < 64" for j
      using that built(4) Suc.prems(1,2) i rx_queue_ready_base(1) [OF built(4)]
      by (cases "j = i") (auto simp: r rx_base_ok_def)
    note res = rx_queue_init_res [OF built(1)]
    have p: "priv_wf (pci_priv net1)" "\<not> tx_dma_read_lock (pci_priv net1)" "mode (pci_priv net1) = mode (pci_priv net)"
      using Suc.prems(3,4) by (simp_all add: built(3))
    have "\<exists>net' e'. rx_setup_loop net1 e1 (Suc i) k = Some (0, net', e') \<and> rx_only net1 net' \<and> priv_wf (pci_priv net') \<and>
        \<not> tx_dma_read_lock (pci_priv net') \<and> mode (pci_priv net') = mode (pci_priv net1) \<and> length (rx_queue net') = 64 \<and>
        (\<forall>j<64. rx_queue_ready (pci_priv net') j (rx_queue net' ! j)) \<and>
        mset (dma_live e') = (\<Sum>j = 0..<64. rx_mem net' j) + L \<and> dma_res e' = dma_res e1"
      using Suc.prems(1,5,8) p(1,2) ready live m res by (intro Suc.IH) (auto simp: r(2))
    then show ?thesis
      using built(1) p(3) res rx_only_trans [OF r(1)] by auto
  next
    case (failed q1 net1 e1)
    then show ?thesis
      using Suc.prems(8) by blast
  qed
qed

end
