(* ===== verification/Proc_Files.thy ===== *)
theory Proc_Files
  imports XpPrelude "HOL-Library.Multiset"
begin

text \<open>
  The files the driver keeps under \<open>/proc\<close>: \<open>xpnet_proc_create\<close> (\<open>xp_netdev_proc.c\<close>) and their
  removal at the end of \<open>xp_netdev_deinit\<close> (\<open>xp_netdev_core.c\<close>, the branch for kernels from 3.10
  on). Creation stops at the first file the kernel refuses; the removal gives back whatever
  was created, wherever that was.
\<close>

text \<open>
  The kernel's side: which calls of \<open>proc_mkdir\<close> and \<open>proc_create\<close> succeed, how many there have
  been, and the entries that exist. A file is created in the driver's directory when that
  exists, so removing the directory takes everything with it.
\<close>

datatype proc_file =
  PROC_ROOT | PROC_QUE nat | XPNET_PROC_STATS | XPNET_PROC_TRAP_TABLE | XPNET_PROC_DEBUG | XPNET_PROC_NETDEV | XPNET_PROC_TXHDR

record proc_fs =
  pf_res :: "nat \<Rightarrow> bool"
  pf_calls :: nat
  pf_live :: "proc_file list"

definition proc_new :: "proc_file \<Rightarrow> proc_fs \<Rightarrow> proc_file option \<times> proc_fs" where
  "proc_new f fs =
     (let ok = pf_res fs (pf_calls fs); fs = fs\<lparr>pf_calls := pf_calls fs + 1\<rparr> in
      if ok then (Some f, fs\<lparr>pf_live := pf_live fs @ [f]\<rparr>) else (None, fs))"

text \<open>\<open>if (NULL != p) proc_remove(p)\<close>; an entry that does not exist must not be removed.\<close>

definition proc_drop :: "proc_file option \<Rightarrow> proc_fs \<Rightarrow> proc_fs option" where
  "proc_drop p fs =
     (case p of
        None \<Rightarrow> Some fs
      | Some f \<Rightarrow>
          if f \<notin> set (pf_live fs) then None
          else Some (fs\<lparr>pf_live := (if f = PROC_ROOT then [] else remove1 f (pf_live fs))\<rparr>))"

text \<open>
  The fields of \<open>xpnet_private_t\<close> for the files, and \<open>g_net_que_info\<close>: for each queue file its
  number and whether \<open>priv\<close> is set.
\<close>

definition XPNET_NUM_QUEUES :: nat where
  "XPNET_NUM_QUEUES = 64"

record xpnet_que_info =
  que_no :: nat
  que_priv :: bool

record xpnet_proc =
  proc_root :: "proc_file option"
  proc_que :: "proc_file option list"
  proc_stats :: "proc_file option"
  proc_ttable :: "proc_file option"
  proc_debug :: "proc_file option"
  proc_netdev :: "proc_file option"
  proc_txhdr :: "proc_file option"
  g_net_que_info :: "xpnet_que_info list"

fun proc_que_loop :: "bool \<Rightarrow> xpnet_proc \<Rightarrow> proc_fs \<Rightarrow> nat \<Rightarrow> nat \<Rightarrow> (rc \<times> xpnet_proc \<times> proc_fs) option" where
  "proc_que_loop g p fs n 0 = Some (0, p, fs)"
| "proc_que_loop g p fs n (Suc k) =
     do { info \<leftarrow> arr_set (g_net_que_info p) n \<lparr>que_no = n, que_priv = g\<rparr>;
          let (f, fs) = proc_new (PROC_QUE n) fs;
          que \<leftarrow> arr_set (proc_que p) n f;
          let p = p\<lparr>g_net_que_info := info, proc_que := que\<rparr>;
          if f = None then Some (- 1, p, fs) else proc_que_loop g p fs (Suc n) k }"

definition xpnet_proc_create :: "bool \<Rightarrow> xpnet_proc \<Rightarrow> proc_fs \<Rightarrow> (rc \<times> xpnet_proc \<times> proc_fs) option" where
  "xpnet_proc_create g p fs =
     do { let (f, fs) = proc_new PROC_ROOT fs;
          let p = p\<lparr>proc_root := f\<rparr>;
          (rc, p, fs) \<leftarrow> proc_que_loop g p fs 0 XPNET_NUM_QUEUES;
          if rc \<noteq> 0 then Some (rc, p, fs) else
       do { let (f, fs) = proc_new XPNET_PROC_STATS fs;
            let p = p\<lparr>proc_stats := f\<rparr>;
            if f = None then Some (- 1, p, fs) else
       do { let (f, fs) = proc_new XPNET_PROC_TRAP_TABLE fs;
            let p = p\<lparr>proc_ttable := f\<rparr>;
            if f = None then Some (- 1, p, fs) else
       do { let (f, fs) = proc_new XPNET_PROC_DEBUG fs;
            let p = p\<lparr>proc_debug := f\<rparr>;
            if f = None then Some (- 1, p, fs) else
       do { let (f, fs) = proc_new XPNET_PROC_NETDEV fs;
            let p = p\<lparr>proc_netdev := f\<rparr>;
            if f = None then Some (- 1, p, fs) else
       do { let (f, fs) = proc_new XPNET_PROC_TXHDR fs;
            let p = p\<lparr>proc_txhdr := f\<rparr>;
            if f = None then Some (- 1, p, fs) else Some (0, p, fs) } } } } } }"

fun proc_que_drop_loop :: "xpnet_proc \<Rightarrow> proc_fs \<Rightarrow> nat \<Rightarrow> nat \<Rightarrow> proc_fs option" where
  "proc_que_drop_loop p fs n 0 = Some fs"
| "proc_que_drop_loop p fs n (Suc k) =
     do { f \<leftarrow> arr_get (proc_que p) n;
          fs \<leftarrow> proc_drop f fs;
          proc_que_drop_loop p fs (Suc n) k }"

definition proc_remove_all :: "xpnet_proc \<Rightarrow> proc_fs \<Rightarrow> proc_fs option" where
  "proc_remove_all p fs =
     do { fs \<leftarrow> proc_que_drop_loop p fs 0 XPNET_NUM_QUEUES;
          fs \<leftarrow> proc_drop (proc_stats p) fs;
          fs \<leftarrow> proc_drop (proc_ttable p) fs;
          fs \<leftarrow> proc_drop (proc_debug p) fs;
          fs \<leftarrow> proc_drop (proc_netdev p) fs;
          fs \<leftarrow> proc_drop (proc_txhdr p) fs;
          proc_drop (proc_root p) fs }"

text \<open>What \<open>kzalloc\<close> leaves in the fields.\<close>

definition zero_proc :: xpnet_proc where
  "zero_proc =
     \<lparr>proc_root = None, proc_que = replicate XPNET_NUM_QUEUES None, proc_stats = None, proc_ttable = None,
      proc_debug = None, proc_netdev = None, proc_txhdr = None,
      g_net_que_info = replicate XPNET_NUM_QUEUES \<lparr>que_no = 0, que_priv = False\<rparr>\<rparr>"

subsection \<open>Everything created is found again\<close>

text \<open>
  The pointers held in the structure, in the order the removal follows them, and the fact that
  they are exactly the entries that exist.
\<close>

definition ptr_list :: "'a option \<Rightarrow> 'a list" where
  "ptr_list p = (case p of None \<Rightarrow> [] | Some f \<Rightarrow> [f])"

lemma ptr_list_simps [simp]: "ptr_list None = []" "ptr_list (Some f) = [f]"
  by (simp_all add: ptr_list_def)

definition proc_ptrs :: "xpnet_proc \<Rightarrow> proc_file list" where
  "proc_ptrs p =
     concat (map ptr_list (proc_que p)) @ ptr_list (proc_stats p) @ ptr_list (proc_ttable p) @
     ptr_list (proc_debug p) @ ptr_list (proc_netdev p) @ ptr_list (proc_txhdr p) @ ptr_list (proc_root p)"

fun drop_all :: "proc_file option list \<Rightarrow> proc_fs \<Rightarrow> proc_fs option" where
  "drop_all [] fs = Some fs"
| "drop_all (p # ps) fs = do { fs \<leftarrow> proc_drop p fs; drop_all ps fs }"

lemma drop_all_append: "drop_all (ps @ qs) fs = do { fs \<leftarrow> drop_all ps fs; drop_all qs fs }"
  by (induction ps arbitrary: fs) (auto split: bind_splits)

lemma proc_que_drop_loop_list:
  "i + k \<le> length (proc_que p) \<Longrightarrow> proc_que_drop_loop p fs i k = drop_all (take k (drop i (proc_que p))) fs"
proof (induction k arbitrary: fs i)
  case (Suc k)
  then have "take (Suc k) (drop i (proc_que p)) = (proc_que p ! i) # take k (drop (Suc i) (proc_que p))"
    by (simp add: Cons_nth_drop_Suc [symmetric])
  then show ?case
    using Suc by (cases "proc_drop (proc_que p ! i) fs") (simp_all add: arr_get_def)
qed simp

lemma drop_all_live:
  "distinct (concat (map ptr_list ps)) \<Longrightarrow> PROC_ROOT \<notin> set (concat (map ptr_list (butlast ps))) \<Longrightarrow>
   mset (pf_live fs) = mset (concat (map ptr_list ps)) \<Longrightarrow> drop_all ps fs = Some (fs\<lparr>pf_live := []\<rparr>)"
proof (induction ps arbitrary: fs)
  case Nil
  then show ?case
    by simp
next
  case (Cons p ps)
  show ?case
  proof (cases p)
    case None
    then show ?thesis
      using Cons by (cases "ps = []") (auto simp: proc_drop_def)
  next
    case (Some f)
    let ?live = "remove1 f (pf_live fs)"
    have live: "f \<in> set (pf_live fs)"
      using Some Cons.prems(3) by (metis concat.simps(2) append_Cons list.set_intros(1) list.simps(9) ptr_list_simps(2) set_mset_mset)
    have rest: "mset ?live = mset (concat (map ptr_list ps))"
      using Some Cons.prems(3) by simp
    show ?thesis
    proof (cases "ps = []")
      case True
      then have "?live = []"
        using rest by (simp del: mset_remove1)
      then show ?thesis
        using live True Some by (simp add: proc_drop_def)
    next
      case False
      have "drop_all ps (fs\<lparr>pf_live := ?live\<rparr>) = Some (fs\<lparr>pf_live := []\<rparr>)"
        using Cons.IH [of "fs\<lparr>pf_live := ?live\<rparr>"] Cons.prems(1,2) False Some rest by simp
      then show ?thesis
        using live False Some Cons.prems(2) by (auto simp: proc_drop_def)
    qed
  qed
qed

lemma proc_remove_all_list:
  assumes "length (proc_que p) = 64"
  shows "proc_remove_all p fs =
    drop_all (proc_que p @ [proc_stats p, proc_ttable p, proc_debug p, proc_netdev p, proc_txhdr p, proc_root p]) fs"
proof -
  have step: "drop_all (q # qs) = (\<lambda>fs. do { fs \<leftarrow> proc_drop q fs; drop_all qs fs })" "drop_all [] = Some" for q qs
    by auto
  show ?thesis
    using assms proc_que_drop_loop_list [of 0 64 p]
    by (simp add: proc_remove_all_def XPNET_NUM_QUEUES_def drop_all_append step)
qed


definition proc_slot :: "proc_file \<Rightarrow> proc_file option \<Rightarrow> bool" where
  "proc_slot f p \<longleftrightarrow> p = None \<or> p = Some f"

definition proc_wf :: "xpnet_proc \<Rightarrow> proc_fs \<Rightarrow> bool" where
  "proc_wf p fs \<longleftrightarrow>
     length (proc_que p) = 64 \<and> length (g_net_que_info p) = 64 \<and> (\<forall>i<64. proc_slot (PROC_QUE i) (proc_que p ! i)) \<and>
     proc_slot XPNET_PROC_STATS (proc_stats p) \<and> proc_slot XPNET_PROC_TRAP_TABLE (proc_ttable p) \<and>
     proc_slot XPNET_PROC_DEBUG (proc_debug p) \<and> proc_slot XPNET_PROC_NETDEV (proc_netdev p) \<and>
     proc_slot XPNET_PROC_TXHDR (proc_txhdr p) \<and> proc_slot PROC_ROOT (proc_root p) \<and>
     mset (pf_live fs) = mset (proc_ptrs p)"

lemma que_ptrs_distinct:
  "\<forall>i<length xs. proc_slot (PROC_QUE (n + i)) (xs ! i) \<Longrightarrow>
   distinct (concat (map ptr_list xs)) \<and> set (concat (map ptr_list xs)) \<subseteq> PROC_QUE ` {n..}"
proof (induction xs arbitrary: n)
  case (Cons x xs)
  have "\<forall>i<length xs. proc_slot (PROC_QUE (Suc n + i)) (xs ! i)"
    using Cons.prems by (metis Suc_less_eq add_Suc_shift length_Cons nth_Cons_Suc)
  from Cons.IH [OF this] have rest: "distinct (concat (map ptr_list xs))" "set (concat (map ptr_list xs)) \<subseteq> PROC_QUE ` {Suc n..}"
    by blast+
  have "x = None \<or> x = Some (PROC_QUE n)"
    using Cons.prems by (force simp: proc_slot_def)
  moreover have "PROC_QUE n \<notin> set (concat (map ptr_list xs))"
    using rest(2) by (auto simp del: set_concat)
  moreover have "set (concat (map ptr_list xs)) \<subseteq> PROC_QUE ` {n..}"
    by (rule order_trans [OF rest(2) image_mono]) auto
  ultimately show ?case
    using rest(1) by (elim disjE) (simp_all del: set_concat)
qed simp

lemma proc_wf_remove_all:
  assumes "proc_wf p fs"
  shows "proc_remove_all p fs = Some (fs\<lparr>pf_live := []\<rparr>)"
proof -
  let ?ps = "proc_que p @ [proc_stats p, proc_ttable p, proc_debug p, proc_netdev p, proc_txhdr p, proc_root p]"
  have q: "distinct (concat (map ptr_list (proc_que p)))" "set (concat (map ptr_list (proc_que p))) \<subseteq> range PROC_QUE"
    using que_ptrs_distinct [of "proc_que p" 0] assms by (auto simp: proc_wf_def)
  have slots: "proc_slot XPNET_PROC_STATS (proc_stats p)" "proc_slot XPNET_PROC_TRAP_TABLE (proc_ttable p)"
     "proc_slot XPNET_PROC_DEBUG (proc_debug p)" "proc_slot XPNET_PROC_NETDEV (proc_netdev p)"
     "proc_slot XPNET_PROC_TXHDR (proc_txhdr p)" "proc_slot PROC_ROOT (proc_root p)"
    using assms by (simp_all add: proc_wf_def)
  have notin: "f \<notin> range PROC_QUE \<Longrightarrow> f \<notin> set (concat (map ptr_list (proc_que p)))" for f
    using q(2) by blast
  have ptr: "set (ptr_list x) \<subseteq> {f}" if "proc_slot f x" for f x
    using that by (auto simp: proc_slot_def)
  have d: "distinct (ptr_list x)" for x :: "proc_file option"
    by (cases x) simp_all
  note s = ptr [OF slots(1)] ptr [OF slots(2)] ptr [OF slots(3)] ptr [OF slots(4)] ptr [OF slots(5)] ptr [OF slots(6)]
  have "distinct (concat (map ptr_list ?ps))"
    using q s d by (simp del: set_concat) blast
  moreover have "PROC_ROOT \<notin> set (concat (map ptr_list (butlast ?ps)))"
    using q s by (simp add: butlast_append del: set_concat) blast
  moreover have "mset (pf_live fs) = mset (concat (map ptr_list ?ps))"
    using assms by (simp add: proc_wf_def proc_ptrs_def)
  ultimately show ?thesis
    using proc_remove_all_list [of p fs] drop_all_live [of ?ps fs] assms by (simp add: proc_wf_def)
qed

lemma proc_new_cases:
  obtains (made) fs' where "proc_new f fs = (Some f, fs')" "mset (pf_live fs') = add_mset f (mset (pf_live fs))"
  | (refused) fs' where "proc_new f fs = (None, fs')" "pf_live fs' = pf_live fs"
  by (cases "pf_res fs (pf_calls fs)") (auto simp: proc_new_def Let_def)

lemma que_ptrs_store:
  "i < length xs \<Longrightarrow> xs ! i = None \<Longrightarrow>
   mset (concat (map ptr_list (xs[i := p]))) = mset (ptr_list p) + mset (concat (map ptr_list xs))"
proof (induction xs arbitrary: i)
  case (Cons x xs)
  then show ?case
    by (cases i) (simp_all add: ac_simps)
qed simp

lemma proc_que_loop_ok:
  assumes "proc_wf p fs" "i + k = 64" "\<forall>j. i \<le> j \<and> j < 64 \<longrightarrow> proc_que p ! j = None"
  shows "\<exists>rc p' fs'. proc_que_loop g p fs i k = Some (rc, p', fs') \<and> rc \<in> {0, - 1} \<and> proc_wf p' fs' \<and>
    p'\<lparr>proc_que := [], g_net_que_info := []\<rparr> = p\<lparr>proc_que := [], g_net_que_info := []\<rparr>"
  using assms
proof (induction k arbitrary: p fs i)
  case 0
  then show ?case
    by simp
next
  case (Suc k)
  let ?info = "(g_net_que_info p)[i := \<lparr>que_no = i, que_priv = g\<rparr>]"
  have len: "i < 64" "length (proc_que p) = 64" "length (g_net_que_info p) = 64" and free: "proc_que p ! i = None"
    using Suc.prems by (auto simp: proc_wf_def)
  have wf: "proc_wf (p\<lparr>g_net_que_info := ?info, proc_que := (proc_que p)[i := x]\<rparr>) fs'"
    if "proc_slot (PROC_QUE i) x" "mset (pf_live fs') = mset (ptr_list x) + mset (pf_live fs)" for x fs'
    using Suc.prems(1) that len que_ptrs_store [of i "proc_que p" x] free
    by (simp add: proc_wf_def proc_ptrs_def nth_list_update del: set_concat)
  show ?case
  proof (cases rule: proc_new_cases [of "PROC_QUE i" fs])
    case (made fs')
    let ?p = "p\<lparr>g_net_que_info := ?info, proc_que := (proc_que p)[i := Some (PROC_QUE i)]\<rparr>"
    have "proc_wf ?p fs'"
      using made(2) by (intro wf) (simp_all add: proc_slot_def)
    then have "\<exists>rc p' fs''. proc_que_loop g ?p fs' (Suc i) k = Some (rc, p', fs'') \<and> rc \<in> {0, - 1} \<and> proc_wf p' fs'' \<and>
        p'\<lparr>proc_que := [], g_net_que_info := []\<rparr> = ?p\<lparr>proc_que := [], g_net_que_info := []\<rparr>"
      using Suc.prems(2,3) by (intro Suc.IH) auto
    then show ?thesis
      using made(1) len by (simp add: arr_set_def)
  next
    case (refused fs')
    have "proc_wf (p\<lparr>g_net_que_info := ?info, proc_que := (proc_que p)[i := None]\<rparr>) fs'"
      using refused(2) by (intro wf) (simp_all add: proc_slot_def)
    then show ?thesis
      using refused(1) len by (simp add: arr_set_def)
  qed
qed

text \<open>
  From the zeroed structure, whatever the kernel answers: creation ends with 0 or -1, and the
  pointers it has stored are exactly the entries that exist, so that the removal leaves nothing
  behind.
\<close>

lemma zero_proc_wf: "pf_live fs = [] \<Longrightarrow> proc_wf zero_proc fs"
  by (simp add: proc_wf_def zero_proc_def XPNET_NUM_QUEUES_def proc_ptrs_def proc_slot_def)

lemma proc_new_slot: "proc_new f fs = (x, fs') \<Longrightarrow> proc_slot f x"
  by (cases rule: proc_new_cases [of f fs]) (auto simp: proc_slot_def)

lemma proc_new_field:
  assumes "proc_wf p fs" "proc_new f fs = (x, fs')"
  shows "f = PROC_ROOT \<Longrightarrow> proc_root p = None \<Longrightarrow> proc_wf (p\<lparr>proc_root := x\<rparr>) fs'"
    "f = XPNET_PROC_STATS \<Longrightarrow> proc_stats p = None \<Longrightarrow> proc_wf (p\<lparr>proc_stats := x\<rparr>) fs'"
    "f = XPNET_PROC_TRAP_TABLE \<Longrightarrow> proc_ttable p = None \<Longrightarrow> proc_wf (p\<lparr>proc_ttable := x\<rparr>) fs'"
    "f = XPNET_PROC_DEBUG \<Longrightarrow> proc_debug p = None \<Longrightarrow> proc_wf (p\<lparr>proc_debug := x\<rparr>) fs'"
    "f = XPNET_PROC_NETDEV \<Longrightarrow> proc_netdev p = None \<Longrightarrow> proc_wf (p\<lparr>proc_netdev := x\<rparr>) fs'"
    "f = XPNET_PROC_TXHDR \<Longrightarrow> proc_txhdr p = None \<Longrightarrow> proc_wf (p\<lparr>proc_txhdr := x\<rparr>) fs'"
proof -
  have "mset (pf_live fs') = mset (ptr_list x) + mset (pf_live fs)"
    using assms(2) by (cases rule: proc_new_cases [of f fs]) auto
  then have live: "mset (pf_live fs') = mset (ptr_list x) + mset (proc_ptrs p)"
    using assms(1) by (simp add: proc_wf_def)
  note slot = proc_new_slot [OF assms(2)]
  show "f = PROC_ROOT \<Longrightarrow> proc_root p = None \<Longrightarrow> proc_wf (p\<lparr>proc_root := x\<rparr>) fs'"
    "f = XPNET_PROC_STATS \<Longrightarrow> proc_stats p = None \<Longrightarrow> proc_wf (p\<lparr>proc_stats := x\<rparr>) fs'"
    "f = XPNET_PROC_TRAP_TABLE \<Longrightarrow> proc_ttable p = None \<Longrightarrow> proc_wf (p\<lparr>proc_ttable := x\<rparr>) fs'"
    "f = XPNET_PROC_DEBUG \<Longrightarrow> proc_debug p = None \<Longrightarrow> proc_wf (p\<lparr>proc_debug := x\<rparr>) fs'"
    "f = XPNET_PROC_NETDEV \<Longrightarrow> proc_netdev p = None \<Longrightarrow> proc_wf (p\<lparr>proc_netdev := x\<rparr>) fs'"
    "f = XPNET_PROC_TXHDR \<Longrightarrow> proc_txhdr p = None \<Longrightarrow> proc_wf (p\<lparr>proc_txhdr := x\<rparr>) fs'"
    using assms(1) slot live by (simp_all add: proc_wf_def proc_ptrs_def)
qed

lemma proc_create_ok:
  assumes "pf_live fs = []"
  shows "\<exists>rc p fs'. xpnet_proc_create g zero_proc fs = Some (rc, p, fs') \<and> rc \<in> {0, - 1} \<and> proc_wf p fs'"
proof -
  obtain x0 fs0 where n0: "proc_new PROC_ROOT fs = (x0, fs0)"
    by fastforce
  have wf0: "proc_wf (zero_proc\<lparr>proc_root := x0\<rparr>) fs0"
    by (rule proc_new_field(1) [OF zero_proc_wf [OF assms] n0]) (simp_all add: zero_proc_def)
  have "\<exists>rc p' fs'. proc_que_loop g (zero_proc\<lparr>proc_root := x0\<rparr>) fs0 0 64 = Some (rc, p', fs') \<and> rc \<in> {0, - 1} \<and> proc_wf p' fs' \<and>
      p'\<lparr>proc_que := [], g_net_que_info := []\<rparr> = (zero_proc\<lparr>proc_root := x0\<rparr>)\<lparr>proc_que := [], g_net_que_info := []\<rparr>"
    using wf0 by (intro proc_que_loop_ok) (simp_all add: zero_proc_def XPNET_NUM_QUEUES_def)
  then obtain rc p fs1 where l: "proc_que_loop g (zero_proc\<lparr>proc_root := x0\<rparr>) fs0 0 64 = Some (rc, p, fs1)" "rc \<in> {0, - 1}"
      "proc_wf p fs1" "p\<lparr>proc_que := [], g_net_que_info := []\<rparr> = zero_proc\<lparr>proc_root := x0, proc_que := [], g_net_que_info := []\<rparr>"
    by (auto simp: eq_commute)
  have z: "proc_stats p = None" "proc_ttable p = None" "proc_debug p = None" "proc_netdev p = None" "proc_txhdr p = None"
    using l(4) by (cases p; simp add: zero_proc_def)+
  obtain x1 fs2 where n1: "proc_new XPNET_PROC_STATS fs1 = (x1, fs2)" by fastforce
  obtain x2 fs3 where n2: "proc_new XPNET_PROC_TRAP_TABLE fs2 = (x2, fs3)" by fastforce
  obtain x3 fs4 where n3: "proc_new XPNET_PROC_DEBUG fs3 = (x3, fs4)" by fastforce
  obtain x4 fs5 where n4: "proc_new XPNET_PROC_NETDEV fs4 = (x4, fs5)" by fastforce
  obtain x5 fs6 where n5: "proc_new XPNET_PROC_TXHDR fs5 = (x5, fs6)" by fastforce
  note w1 = proc_new_field(2) [OF l(3) n1 refl z(1)]
  have w2: "proc_wf (p\<lparr>proc_stats := x1, proc_ttable := x2\<rparr>) fs3"
    using proc_new_field(3) [OF w1 n2 refl] z by simp
  have w3: "proc_wf (p\<lparr>proc_stats := x1, proc_ttable := x2, proc_debug := x3\<rparr>) fs4"
    using proc_new_field(4) [OF w2 n3 refl] z by simp
  have w4: "proc_wf (p\<lparr>proc_stats := x1, proc_ttable := x2, proc_debug := x3, proc_netdev := x4\<rparr>) fs5"
    using proc_new_field(5) [OF w3 n4 refl] z by simp
  have w5: "proc_wf (p\<lparr>proc_stats := x1, proc_ttable := x2, proc_debug := x3, proc_netdev := x4, proc_txhdr := x5\<rparr>) fs6"
    using proc_new_field(6) [OF w4 n5 refl] z by simp
  show ?thesis
    using l(1-3) n0 n1 n2 n3 n4 n5 w1 w2 w3 w4 w5
    by (cases x1; cases x2; cases x3; cases x4; cases x5) (auto simp: xpnet_proc_create_def XPNET_NUM_QUEUES_def Let_def)
qed

end
