(* ===== verification/Netdev_Init.thy ===== *)
theory Netdev_Init
  imports Netdev_Mode Queue_Setup Proc_Files
begin

text \<open>
  \<open>xp_netdev_init\<close> and \<open>xp_netdev_deinit\<close> (\<open>xp_netdev_core.c\<close>), over the queue setup, the mode, the
  mux, the work queue and the files under \<open>/proc\<close>. With DMA memory the device is set up
  completely or not at all, and taking it down gives everything back. The results of the two
  queue setups are not looked at; the last lemmas show what that means without DMA memory.
\<close>

text \<open>The structure as \<open>kzalloc\<close> and the first assignments of \<open>xp_netdev_init\<close> leave it.\<close>

definition zero_meta :: xpnet_desc_struct where
  "zero_meta = \<lparr>num_shards = 0, desc_va = None, cdp = 0, buf_sta = \<lparr>shard_va = None, shard_dma = 0, shard_len = 0\<rparr>\<rparr>"

definition zero_queue :: xpnet_queue_struct where
  "zero_queue =
     \<lparr>xpq_lock = False, xpq_id = 0, xpq_type = XPNET_OK, xpq_num_desc = 0, q_status = XPNET_OK, q_tail = 0, q_head = 0,
      q_va = None, q_dma = 0, xpq_desc_meta = replicate 10 zero_meta\<rparr>"

definition zero_stats :: net_device_stats where
  "zero_stats =
     \<lparr>rx_packets = 0, rx_bytes = 0, rx_dropped = 0, rx_length_errors = 0, tx_packets = 0,
      tx_bytes = 0, tx_errors = 0, tx_dropped = 0, tx_aborted_errors = 0\<rparr>"

definition new_net :: "xp_private \<Rightarrow> u32 \<Rightarrow> xpnet_private" where
  "new_net p jd =
     \<lparr>hw_flags = XPNET_HWFLAG_A0, pci_priv = p, rx_queue = replicate XPNET_RX_NUM_QUEUES zero_queue,
      tx_queue = replicate XPNET_TX_NUM_QUEUES zero_queue, num_rxqueues = 0, num_txqueues = 0, txqno = 0, rxqno = 0,
      priv_lock = False, dma_trigger = False, stats = zero_stats, jiffies_defer = jd\<rparr>"

text \<open>
  The answers of the kernel: memory for the structure, the sockets, the work queue, the ticks
  per second. The state: \<open>priv->xpnet\<close>, whether the global \<open>g_net_priv\<close> is set, the registers
  (while there is no network structure they are in \<open>is_pci\<close>), the mode, the allocator, the work
  queue, the delay of the queued work item, and the files. The static counter \<open>instance\<close> only
  appears in names and is never changed.
\<close>

record init_env =
  ie_kzalloc :: bool
  ie_mode :: mode_env
  ie_workqueue :: bool
  ie_HZ :: u32

record init_state =
  xpnet :: "xpnet_private option"
  g_net_priv :: bool
  is_pci :: xp_private
  is_mode :: xp_mode
  is_dma :: dma_env
  is_jiffies :: u32
  is_wqueue :: bool
  is_dwork :: "u32 option"
  is_proc :: xpnet_proc
  is_fs :: proc_fs

text \<open>The label \<open>err_netdev_fp_netdev\<close>.\<close>

definition init_unwind :: "rc \<Rightarrow> xpnet_private \<Rightarrow> xp_mode \<Rightarrow> dma_env \<Rightarrow> init_state \<Rightarrow> (rc \<times> init_state) option" where
  "init_unwind rc net m e st =
     do { (net, e) \<leftarrow> xpnet_rx_teardown net e XPNET_RX_NUM_QUEUES;
          (net, e) \<leftarrow> xpnet_tx_teardown net e XPNET_TX_NUM_QUEUES;
          Some (rc, st\<lparr>xpnet := None, g_net_priv := False, is_pci := pci_priv net, is_mode := m, is_dma := e\<rparr>) }"

definition xp_netdev_init :: "init_env \<Rightarrow> init_state \<Rightarrow> (rc \<times> init_state) option" where
  "xp_netdev_init v st =
     (if xpnet st \<noteq> None then Some (0, st)
      else if \<not> ie_kzalloc v then Some (- ENOMEM, st)
      else
        do { p \<leftarrow> xpnet_program_mux_setdma (is_pci st) 0;
             (_, net, e) \<leftarrow> xpnet_rx_queue_setup (new_net p (is_jiffies st)) (is_dma st) XPNET_RX_NUM_QUEUES;
             (_, net, e) \<leftarrow> xpnet_tx_queue_setup net e XPNET_TX_NUM_QUEUES;
             (rc, m) \<leftarrow> xp_netdev_mode_init (ie_mode v) (is_mode st);
             if rc \<noteq> 0 then init_unwind rc net m e st
             else if \<not> ie_workqueue v then
               do { (_, m) \<leftarrow> xp_netdev_mode_deinit m; init_unwind (- ENOMEM) net m e st }
             else
               do { (_, pr, fs) \<leftarrow> xpnet_proc_create True zero_proc (is_fs st);
                    net \<leftarrow> xpnet_rx_all_queues_start net;
                    p \<leftarrow> xpnet_program_mux_setdma (pci_priv net) 1;
                    Some (0, st\<lparr>xpnet := Some (net\<lparr>pci_priv := p, dma_trigger := True\<rparr>), g_net_priv := True, is_pci := p,
                                is_mode := m, is_dma := e, is_wqueue := True, is_dwork := Some (ie_HZ v * 5),
                                is_proc := pr, is_fs := fs\<rparr>) } })"

definition xp_netdev_deinit :: "init_state \<Rightarrow> init_state option" where
  "xp_netdev_deinit st =
     (case xpnet st of
        None \<Rightarrow> Some st
      | Some net \<Rightarrow>
          do { (_, m) \<leftarrow> xp_netdev_mode_deinit (is_mode st);
               (net, e) \<leftarrow> xpnet_tx_teardown net (is_dma st) XPNET_TX_NUM_QUEUES;
               (net, e) \<leftarrow> xpnet_rx_teardown net e XPNET_RX_NUM_QUEUES;
               fs \<leftarrow> proc_remove_all (is_proc st) (is_fs st);
               Some (st\<lparr>xpnet := None, is_pci := pci_priv net, is_mode := m, is_dma := e, is_wqueue := False,
                        is_dwork := None, is_fs := fs\<rparr>) })"

subsection \<open>With DMA memory\<close>

lemma rx_start_loop_ok:
  assumes "priv_wf p" "\<not> tx_dma_read_lock p" "\<And>q. q \<in> set qs \<Longrightarrow> xpq_id q < 64" "i + k \<le> length qs"
  shows "\<exists>m. rx_start_loop p qs i k = Some (p\<lparr>vma := m\<rparr>)"
  using assms
proof (induction k arbitrary: p i)
  case 0
  then show ?case
    by (intro exI [of _ "vma p"]) simp
next
  case (Suc k)
  obtain m where m: "xpnet_queue_en_dis p (qs ! i) 1 0 XPNET_AFLAG_ACQLOCK = Some (p\<lparr>vma := m\<rparr>)"
    using xpnet_queue_en_dis_ok [of p XPNET_AFLAG_ACQLOCK "qs ! i" 1 0] Suc.prems by simp
  then show ?case
    using Suc.IH [of "p\<lparr>vma := m\<rparr>" "Suc i"] Suc.prems by simp
qed

text \<open>The structure after both queue setups.\<close>

definition rings_built :: "xpnet_private \<Rightarrow> bool" where
  "rings_built net \<longleftrightarrow>
     length (rx_queue net) = 64 \<and> length (tx_queue net) = 64 \<and> num_rxqueues net = 64 \<and> txqno net = 0 \<and> \<not> priv_lock net \<and>
     (\<forall>j<64. rx_built net j \<and> rx_ring_ok (rx_queue net ! j) \<and> tx_built net j) \<and>
     (\<forall>q \<in> set (rx_queue net). \<forall>j<10. \<exists>v. desc_get q j = Some v \<and> hw_owns v) \<and>
     priv_wf (pci_priv net) \<and> \<not> tx_dma_read_lock (pci_priv net)"

definition rings_mem :: "xpnet_private \<Rightarrow> (u64 \<times> nat) multiset" where
  "rings_mem net = (\<Sum>j = 0..<64. rx_mem net j) + (\<Sum>j = 0..<64. tx_mem net j)"

lemma rings_setup:
  assumes "priv_wf p" "\<not> tx_dma_read_lock p" "\<And>c. dma_res e c \<noteq> None"
  shows "\<exists>net1 e1 net2 e2. xpnet_rx_queue_setup (new_net p jd) e 64 = Some (0, net1, e1) \<and>
    xpnet_tx_queue_setup net1 e1 64 = Some (0, net2, e2) \<and> rings_built net2 \<and>
    mset (dma_live e2) = rings_mem net2 + mset (dma_live e)"
proof -
  let ?n = "(new_net p jd)\<lparr>num_rxqueues := 64\<rparr>"
  have "\<exists>net' e'. rx_setup_loop ?n e 0 64 = Some (0, net', e') \<and> rx_only ?n net' \<and> priv_wf (pci_priv net') \<and>
    \<not> tx_dma_read_lock (pci_priv net') \<and> mode (pci_priv net') = mode (pci_priv ?n) \<and> length (rx_queue net') = 64 \<and>
    (\<forall>j<64. rx_queue_ready (pci_priv net') j (rx_queue net' ! j)) \<and>
    mset (dma_live e') = (\<Sum>j = 0..<64. rx_mem net' j) + mset (dma_live e) \<and> dma_res e' = dma_res e"
    using assms by (intro rx_setup_loop_all) (simp_all add: new_net_def XPNET_RX_NUM_QUEUES_def zero_queue_def)
  then obtain net1 e1 where r: "rx_setup_loop ?n e 0 64 = Some (0, net1, e1)" "rx_only ?n net1" "priv_wf (pci_priv net1)"
      "\<not> tx_dma_read_lock (pci_priv net1)" "length (rx_queue net1) = 64"
      "\<And>j. j < 64 \<Longrightarrow> rx_queue_ready (pci_priv net1) j (rx_queue net1 ! j)"
      "mset (dma_live e1) = (\<Sum>j = 0..<64. rx_mem net1 j) + mset (dma_live e)" "dma_res e1 = dma_res e"
    by blast
  let ?n1 = "net1\<lparr>num_txqueues := 64\<rparr>"
  have txq: "tx_queue net1 = replicate 64 zero_queue" "num_rxqueues net1 = 64" "txqno net1 = 0" "\<not> priv_lock net1"
    using rx_only_fields [OF r(2)] by (simp_all add: new_net_def XPNET_TX_NUM_QUEUES_def)
  have "\<exists>net' e'. tx_setup_loop ?n1 e1 0 64 = Some (0, net', e') \<and> tx_only ?n1 net' \<and> priv_wf (pci_priv net') \<and>
    \<not> tx_dma_read_lock (pci_priv net') \<and> mode (pci_priv net') = mode (pci_priv ?n1) \<and> length (tx_queue net') = 64 \<and>
    (\<forall>j<64. tx_built net' j) \<and> mset (dma_live e') = (\<Sum>j = 0..<64. tx_mem net' j) + mset (dma_live e1)"
    using assms(3) r(3,4,8) txq(1) by (intro tx_setup_loop_ok) (simp_all add: zero_queue_def)
  then obtain net2 e2 where x: "tx_setup_loop ?n1 e1 0 64 = Some (0, net2, e2)" "tx_only ?n1 net2" "priv_wf (pci_priv net2)"
      "\<not> tx_dma_read_lock (pci_priv net2)" "length (tx_queue net2) = 64" "\<And>j. j < 64 \<Longrightarrow> tx_built net2 j"
      "mset (dma_live e2) = (\<Sum>j = 0..<64. tx_mem net2 j) + mset (dma_live e1)"
    by blast
  note f = tx_only_fields [OF x(2), simplified]
  have ready: "rx_queue_ready (pci_priv net1) j (rx_queue net2 ! j)" if "j < 64" for j
    using r(6) [OF that] f(1) by simp
  have "rx_built net2 j" "rx_ring_ok (rx_queue net2 ! j)" if "j < 64" for j
    using rx_queue_ready_base [OF ready [OF that]] ready [OF that] of_nat_lt_64 [OF that]
    by (auto simp: rx_built_def rx_ring_ok_def rx_queue_ready_def)
  moreover have "\<exists>v. desc_get q j = Some v \<and> hw_owns v" if q: "q \<in> set (rx_queue net2)" and j: "j < 10" for q j
  proof -
    obtain k where "k < 64" "q = rx_queue net2 ! k"
      using q r(5) f(1) by (auto simp: in_set_conv_nth)
    then show ?thesis
      using ready [of k] j by (auto simp: rx_queue_ready_def)
  qed
  moreover have "(\<Sum>j = 0..<64. rx_mem net2 j) = (\<Sum>j = 0..<64. rx_mem net1 j)"
    by (intro sum.cong refl) (simp add: rx_mem_def f(1))
  ultimately have "rings_built net2" "mset (dma_live e2) = rings_mem net2 + mset (dma_live e)"
    using f txq r(5,7) x(3-7) by (simp_all add: rings_built_def rings_mem_def ac_simps)
  then show ?thesis
    using r(1) x(1) by (auto simp: xpnet_rx_queue_setup_def xpnet_tx_queue_setup_def)
qed

text \<open>Both orders of tearing the queues down give all their memory back.\<close>

lemma rings_clear_tx_rx:
  assumes "rings_built net" "mset (dma_live e) = rings_mem net + L"
  shows "\<exists>net1 e1 net2 e2. xpnet_tx_teardown net e 64 = Some (net1, e1) \<and> xpnet_rx_teardown net1 e1 64 = Some (net2, e2) \<and>
    mset (dma_live e2) = L \<and> priv_wf (pci_priv net2) \<and> \<not> tx_dma_read_lock (pci_priv net2)"
proof -
  have live: "mset (dma_live e) = (\<Sum>j = 0..<0 + 64. tx_mem net j) + ((\<Sum>j = 0..<64. rx_mem net j) + L)"
    using assms(2) by (simp add: rings_mem_def ac_simps)
  obtain net1 e1 where t: "tx_teardown_loop net e 0 64 = Some (net1, e1)" "mset (dma_live e1) = (\<Sum>j = 0..<64. rx_mem net j) + L"
      "tx_only net net1" "priv_wf (pci_priv net1)" "\<not> tx_dma_read_lock (pci_priv net1)"
    using tx_teardown_loop_ok [OF _ _ _ _ _ live] assms(1) by (auto simp: rings_built_def)
  note f = tx_only_fields(1) [OF t(3)]
  have "mset (dma_live e1) = (\<Sum>j = 0..<0 + 64. rx_mem net1 j) + L" "\<And>j. j < 64 \<Longrightarrow> rx_built net1 j"
    using t(2) assms(1) by (simp_all add: rx_mem_def rx_built_def f rings_built_def)
  then have "\<exists>net' e'. rx_teardown_loop net1 e1 0 64 = Some (net', e') \<and> mset (dma_live e') = L \<and>
      priv_wf (pci_priv net') \<and> \<not> tx_dma_read_lock (pci_priv net')"
    using t(4,5) assms(1) by (intro rx_teardown_loop_ok) (simp_all add: f rings_built_def)
  then show ?thesis
    using t(1) by (auto simp: xpnet_tx_teardown_def xpnet_rx_teardown_def)
qed

lemma rings_clear_rx_tx:
  assumes "rings_built net" "mset (dma_live e) = rings_mem net + L"
  shows "\<exists>net1 e1 net2 e2. xpnet_rx_teardown net e 64 = Some (net1, e1) \<and> xpnet_tx_teardown net1 e1 64 = Some (net2, e2) \<and>
    mset (dma_live e2) = L \<and> priv_wf (pci_priv net2) \<and> \<not> tx_dma_read_lock (pci_priv net2)"
proof -
  have live: "mset (dma_live e) = (\<Sum>j = 0..<0 + 64. rx_mem net j) + ((\<Sum>j = 0..<64. tx_mem net j) + L)"
    using assms(2) by (simp add: rings_mem_def ac_simps)
  obtain net1 e1 where t: "rx_teardown_loop net e 0 64 = Some (net1, e1)" "mset (dma_live e1) = (\<Sum>j = 0..<64. tx_mem net j) + L"
      "priv_wf (pci_priv net1)" "\<not> tx_dma_read_lock (pci_priv net1)"
    using rx_teardown_loop_ok [OF _ _ _ _ _ live] assms(1) by (auto simp: rings_built_def)
  note f = rx_only_fields(1) [OF rx_teardown_only [OF t(1)]]
  have "mset (dma_live e1) = (\<Sum>j = 0..<0 + 64. tx_mem net1 j) + L" "\<And>j. j < 64 \<Longrightarrow> tx_built net1 j"
    using t(2) assms(1) by (simp_all add: tx_mem_def tx_built_def f rings_built_def)
  then have "\<exists>net' e'. tx_teardown_loop net1 e1 0 64 = Some (net', e') \<and> mset (dma_live e') = L \<and> tx_only net1 net' \<and>
      priv_wf (pci_priv net') \<and> \<not> tx_dma_read_lock (pci_priv net')"
    using t(3,4) assms(1) by (intro tx_teardown_loop_ok) (simp_all add: f rings_built_def)
  then show ?thesis
    using t(1) by (auto simp: xpnet_tx_teardown_def xpnet_rx_teardown_def)
qed

text \<open>
  Nothing of the network half exists and the registers are accessible: the state before an
  initialisation and after a failed one.
\<close>

definition net_down :: "init_state \<Rightarrow> bool" where
  "net_down st \<longleftrightarrow>
     xpnet st = None \<and> mode_off (is_mode st) \<and> priv_wf (is_pci st) \<and> \<not> tx_dma_read_lock (is_pci st) \<and>
     \<not> is_wqueue st \<and> is_dwork st = None \<and> pf_live (is_fs st) = []"

text \<open>Everything is in place and the memory is exactly that of the rings and \<open>L\<close>.\<close>

definition net_up :: "(u32 \<Rightarrow> nat) \<Rightarrow> init_state \<Rightarrow> (u64 \<times> nat) multiset \<Rightarrow> bool" where
  "net_up hash st L \<longleftrightarrow>
     (\<exists>net. xpnet st = Some net \<and> rings_built net \<and> dma_trigger net \<and> mset (dma_live (is_dma st)) = rings_mem net + L) \<and>
     nd_wf hash (mo_intf (is_mode st)) \<and> client_socket (is_mode st) \<and> nl_registered (is_mode st) \<and> is_wqueue st \<and>
     proc_wf (is_proc st) (is_fs st)"

lemma unwind_down:
  assumes "rings_built net" "mset (dma_live e) = rings_mem net + L" "mode_off m" "\<not> is_wqueue st" "is_dwork st = None" "pf_live (is_fs st) = []"
  shows "\<exists>st'. init_unwind rc net m e st = Some (rc, st') \<and> net_down st' \<and> \<not> g_net_priv st' \<and> mset (dma_live (is_dma st')) = L"
proof -
  obtain net1 e1 net2 e2 where "xpnet_rx_teardown net e 64 = Some (net1, e1)" "xpnet_tx_teardown net1 e1 64 = Some (net2, e2)"
      "mset (dma_live e2) = L" "priv_wf (pci_priv net2)" "\<not> tx_dma_read_lock (pci_priv net2)"
    using rings_clear_rx_tx [OF assms(1,2)] by blast
  then show ?thesis
    using assms(3-6) by (simp add: init_unwind_def XPNET_RX_NUM_QUEUES_def XPNET_TX_NUM_QUEUES_def net_down_def)
qed

lemma rings_built_regs:
  "rings_built net \<Longrightarrow> rings_built (net\<lparr>pci_priv := (pci_priv net)\<lparr>vma := m\<rparr>, dma_trigger := b\<rparr>)"
  "rings_built net \<Longrightarrow> rings_built (net\<lparr>pci_priv := (pci_priv net)\<lparr>vma := m\<rparr>\<rparr>)"
  by (simp_all add: rings_built_def rx_built_def tx_built_def)

lemma init_cases:
  assumes "net_down st" "\<And>c. dma_res (is_dma st) c \<noteq> None"
  obtains (up) st' where "xp_netdev_init v st = Some (0, st')" "ie_kzalloc v" "mode_granted (ie_mode v)" "ie_workqueue v"
      "net_up hash st' (mset (dma_live (is_dma st)))" "is_dwork st' = Some (ie_HZ v * 5)" "g_net_priv st'"
  | (down) rc st' where "xp_netdev_init v st = Some (rc, st')" "rc < 0" "\<not> (ie_kzalloc v \<and> mode_granted (ie_mode v) \<and> ie_workqueue v)"
      "net_down st'" "mset (dma_live (is_dma st')) = mset (dma_live (is_dma st))"
proof (cases "ie_kzalloc v")
  case False
  then show ?thesis
    using assms(1) by (intro down [of "- 12" st]) (simp_all add: xp_netdev_init_def net_down_def)
next
  case True
  have d: "xpnet st = None" "mode_off (is_mode st)" "priv_wf (is_pci st)" "\<not> tx_dma_read_lock (is_pci st)"
      "\<not> is_wqueue st" "is_dwork st = None" "pf_live (is_fs st) = []"
    using assms(1) by (simp_all add: net_down_def)
  obtain m1 where p1: "xpnet_program_mux_setdma (is_pci st) 0 = Some ((is_pci st)\<lparr>vma := m1\<rparr>)"
    using xpnet_program_mux_setdma_ok [OF d(3,4), of 0] by auto
  obtain net1 e1 net e where r: "xpnet_rx_queue_setup (new_net ((is_pci st)\<lparr>vma := m1\<rparr>) (is_jiffies st)) (is_dma st) 64 = Some (0, net1, e1)"
      "xpnet_tx_queue_setup net1 e1 64 = Some (0, net, e)" "rings_built net" "mset (dma_live e) = rings_mem net + mset (dma_live (is_dma st))"
    using rings_setup [of "(is_pci st)\<lparr>vma := m1\<rparr>" "is_dma st" "is_jiffies st"] d(3,4) assms(2) by auto
  note start = d(1) True p1 r(1,2)
  from d(2) show ?thesis
  proof (cases rule: mode_init_granted [where v = "ie_mode v" and hash = hash])
    case (down rc m)
    obtain st' where "init_unwind rc net m e st = Some (rc, st')" "net_down st'" "mset (dma_live (is_dma st')) = mset (dma_live (is_dma st))"
      using unwind_down [OF r(3,4) down(4) d(5-7)] by blast
    then show ?thesis
      using start down(1-3) by (intro that(2) [of rc st']) (simp_all add: xp_netdev_init_def XPNET_RX_NUM_QUEUES_def XPNET_TX_NUM_QUEUES_def)
  next
    case (up m)
    show ?thesis
    proof (cases "ie_workqueue v")
      case False
      obtain m2 where m2: "xp_netdev_mode_deinit m = Some (0, m2)" "mode_off m2"
        using mode_deinit_off [OF up(3,4)] by blast
      obtain st' where "init_unwind (- 12) net m2 e st = Some (- 12, st')" "net_down st'" "mset (dma_live (is_dma st')) = mset (dma_live (is_dma st))"
        using unwind_down [OF r(3,4) m2(2) d(5-7)] by blast
      then show ?thesis
        using start up(1) False m2(1) by (intro that(2) [of "- 12" st'])
          (simp_all add: xp_netdev_init_def XPNET_RX_NUM_QUEUES_def XPNET_TX_NUM_QUEUES_def)
    next
      case wq: True
      obtain rc pr fs where pr: "xpnet_proc_create True zero_proc (is_fs st) = Some (rc, pr, fs)" "proc_wf pr fs"
        using proc_create_ok [OF d(7)] by blast
      have ids: "xpq_id q < 64" if "q \<in> set (rx_queue net)" for q
        using r(3) that by (auto simp: rings_built_def in_set_conv_nth rx_ring_ok_def)
      have b: "priv_wf (pci_priv net)" "\<not> tx_dma_read_lock (pci_priv net)" "num_rxqueues net = 64" "length (rx_queue net) = 64"
        using r(3) by (simp_all add: rings_built_def)
      obtain m3 where m3: "rx_start_loop (pci_priv net) (rx_queue net) 0 64 = Some ((pci_priv net)\<lparr>vma := m3\<rparr>)"
        using rx_start_loop_ok [of "pci_priv net" "rx_queue net" 0 64] b(1,2,4) ids by auto
      obtain m4 where m4: "xpnet_program_mux_setdma ((pci_priv net)\<lparr>vma := m3\<rparr>) 1 = Some ((pci_priv net)\<lparr>vma := m4\<rparr>)"
        using xpnet_program_mux_setdma_ok [of "(pci_priv net)\<lparr>vma := m3\<rparr>" 1] b(1,2) by auto
      let ?net = "net\<lparr>pci_priv := (pci_priv net)\<lparr>vma := m4\<rparr>, dma_trigger := True\<rparr>"
      let ?st = "st\<lparr>xpnet := Some ?net, g_net_priv := True, is_pci := (pci_priv net)\<lparr>vma := m4\<rparr>, is_mode := m, is_dma := e,
                   is_wqueue := True, is_dwork := Some (ie_HZ v * 5), is_proc := pr, is_fs := fs\<rparr>"
      have "xp_netdev_init v st = Some (0, ?st)"
        using start up(1) wq pr(1) m3 m4 b(3)
        by (simp add: xp_netdev_init_def XPNET_RX_NUM_QUEUES_def XPNET_TX_NUM_QUEUES_def xpnet_rx_all_queues_start_def)
      moreover have "rings_mem ?net = rings_mem net"
        by (simp add: rings_mem_def rx_mem_def tx_mem_def)
      then have "net_up hash ?st (mset (dma_live (is_dma st)))"
        using rings_built_regs(1) [OF r(3)] r(4) up pr(2) by (simp add: net_up_def)
      ultimately show ?thesis
        using True up(2) wq by (intro that(1) [of ?st]) simp_all
    qed
  qed
qed

lemma deinit_down:
  assumes "net_up hash st L"
  shows "\<exists>st'. xp_netdev_deinit st = Some st' \<and> net_down st' \<and> mset (dma_live (is_dma st')) = L \<and>
    trap_table (mo_intf (is_mode st')) = None"
proof -
  obtain net where n: "xpnet st = Some net" "rings_built net" "mset (dma_live (is_dma st)) = rings_mem net + L"
    using assms by (auto simp: net_up_def)
  obtain m where m: "xp_netdev_mode_deinit (is_mode st) = Some (0, m)" "mode_off m" "trap_table (mo_intf m) = None"
    using mode_deinit_off [of hash "is_mode st"] assms by (auto simp: net_up_def)
  obtain net1 e1 net2 e2 where t: "xpnet_tx_teardown net (is_dma st) 64 = Some (net1, e1)" "xpnet_rx_teardown net1 e1 64 = Some (net2, e2)"
      "mset (dma_live e2) = L" "priv_wf (pci_priv net2)" "\<not> tx_dma_read_lock (pci_priv net2)"
    using rings_clear_tx_rx [OF n(2,3)] by blast
  have "proc_remove_all (is_proc st) (is_fs st) = Some ((is_fs st)\<lparr>pf_live := []\<rparr>)"
    using proc_wf_remove_all assms by (simp add: net_up_def)
  then show ?thesis
    using n(1) m t by (simp add: xp_netdev_deinit_def net_down_def XPNET_RX_NUM_QUEUES_def XPNET_TX_NUM_QUEUES_def)
qed

text \<open>A device that is up can receive and transmit.\<close>

lemma net_up_serves:
  assumes "net_up hash st L"
  shows "\<exists>net. xpnet st = Some net \<and> rx_state_ok hash net (mo_intf (is_mode st)) \<and> tx_net_ok net"
proof -
  obtain net where n: "xpnet st = Some net" "rings_built net"
    using assms by (auto simp: net_up_def)
  have "rx_ring_ok q" if "q \<in> set (rx_queue net)" for q
    using n(2) that by (auto simp: rings_built_def in_set_conv_nth)
  moreover have "rx_sized (mode (pci_priv net)) q" if "q \<in> set (rx_queue net)" for q
    using n(2) that by (fastforce simp: rings_built_def rx_sized_def desc_sized_def)
  ultimately have "rx_state_ok hash net (mo_intf (is_mode st))"
    using n(2) assms by (auto simp: rx_state_ok_def rx_net_ok_def rings_built_def XPNET_RX_NUM_QUEUES_def net_up_def)
  moreover have "tx_built net 0"
    using n(2) by (auto simp: rings_built_def)
  then have "tx_net_ok net"
    using n(2) by (simp add: rings_built_def tx_net_ok_def tx_built_def tx_q_ok_def)
  ultimately show ?thesis
    using n(1) by blast
qed

subsection \<open>Without DMA memory\<close>

lemma replicate_update_same [simp]: "(replicate n x)[i := x] = replicate n x"
  by (cases "i < n") (simp_all add: list_update_same_conv list_update_beyond)

lemma dma_none: "dma_res e = (\<lambda>_. None) \<Longrightarrow> \<exists>e'. dma_alloc_coherent n e = (None, e') \<and> dma_res e' = dma_res e \<and> dma_live e' = dma_live e"
  by (auto simp: dma_alloc_coherent_def Let_def)

lemma rx_setup_none:
  assumes "dma_res e = (\<lambda>_. None)"
  shows "\<exists>e'. xpnet_rx_queue_setup (new_net p jd) e 64 =
      Some (- ENOMEM, (new_net p jd)\<lparr>num_rxqueues := 64\<rparr>, e') \<and> dma_res e' = (\<lambda>_. None) \<and> dma_live e' = dma_live e"
proof -
  obtain e' where e': "dma_alloc_coherent desc_memlen e = (None, e')" "dma_res e' = (\<lambda>_. None)" "dma_live e' = dma_live e"
    using dma_none [OF assms, of desc_memlen] assms by auto
  have q: "zero_queue\<lparr>q_va := None\<rparr> = zero_queue"
    by (simp add: zero_queue_def)
  have "xpnet_rx_queue_init ((new_net p jd)\<lparr>num_rxqueues := 64\<rparr>) e 0 = Some (- ENOMEM, (new_net p jd)\<lparr>num_rxqueues := 64\<rparr>, e')"
    using e' q by (simp add: xpnet_rx_queue_init_def new_net_def XPNET_RX_NUM_QUEUES_def rx_q_put_def)
  then show ?thesis
    using e'(2,3) by (simp add: xpnet_rx_queue_setup_def xpnet_rx_teardown_def eval_nat_numeral)
qed


lemma tx_setup_none:
  assumes "dma_res e = (\<lambda>_. None)" "tx_queue net = replicate 64 zero_queue"
  shows "\<exists>e' qs. xpnet_tx_queue_setup net e 64 = Some (- ENOMEM, net\<lparr>num_txqueues := 64, tx_queue := qs\<rparr>, e') \<and> dma_live e' = dma_live e"
proof -
  obtain e' where e': "dma_alloc_coherent desc_memlen e = (None, e')" "dma_live e' = dma_live e"
    using dma_none [OF assms(1), of desc_memlen] by auto
  then have "\<exists>qs. xpnet_tx_queue_init (net\<lparr>num_txqueues := 64\<rparr>) e 0 = Some (- ENOMEM, net\<lparr>num_txqueues := 64, tx_queue := qs\<rparr>, e')"
    using assms(2) by (auto simp: xpnet_tx_queue_init_def tx_q_put_def)
  then obtain qs where "xpnet_tx_queue_init (net\<lparr>num_txqueues := 64\<rparr>) e 0 = Some (- ENOMEM, net\<lparr>num_txqueues := 64, tx_queue := qs\<rparr>, e')"
    by blast
  then show ?thesis
    using e'(2) by (intro exI [of _ e'] exI [of _ qs]) (simp add: xpnet_tx_queue_setup_def xpnet_tx_teardown_def eval_nat_numeral)
qed

text \<open>
  Without DMA memory the initialisation still reports success, and the first run of the work
  item it has queued follows the NULL pointer of the first ring.
\<close>

lemma init_none:
  assumes "xpnet st = None" "ie_kzalloc v" "ie_workqueue v" "dma_res (is_dma st) = (\<lambda>_. None)"
    "priv_wf (is_pci st)" "\<not> tx_dma_read_lock (is_pci st)"
    "xp_netdev_mode_init (ie_mode v) (is_mode st) = Some (0, m)" "pf_live (is_fs st) = []"
  shows "\<exists>st' net. xp_netdev_init v st = Some (0, st') \<and> xpnet st' = Some net \<and> dma_trigger net \<and> \<not> priv_lock net \<and>
    rx_queue net = replicate 64 zero_queue \<and> is_mode st' = m"
proof -
  obtain m1 where p1: "xpnet_program_mux_setdma (is_pci st) 0 = Some ((is_pci st)\<lparr>vma := m1\<rparr>)"
    using xpnet_program_mux_setdma_ok [OF assms(5,6), of 0] by auto
  let ?p = "(is_pci st)\<lparr>vma := m1\<rparr>"
  let ?n = "(new_net ?p (is_jiffies st))\<lparr>num_rxqueues := 64\<rparr>"
  obtain e1 where e1: "xpnet_rx_queue_setup (new_net ?p (is_jiffies st)) (is_dma st) 64 = Some (- ENOMEM, ?n, e1)"
      "dma_res e1 = (\<lambda>_. None)"
    using rx_setup_none [OF assms(4)] by blast
  have "tx_queue ?n = replicate 64 zero_queue"
    by (simp add: new_net_def XPNET_TX_NUM_QUEUES_def)
  then obtain e2 qs where e2: "xpnet_tx_queue_setup ?n e1 64 = Some (- ENOMEM, ?n\<lparr>num_txqueues := 64, tx_queue := qs\<rparr>, e2)"
    using tx_setup_none [OF e1(2)] by blast
  let ?n2 = "?n\<lparr>num_txqueues := 64, tx_queue := qs\<rparr>"
  have rq: "rx_queue ?n2 = replicate 64 zero_queue" "pci_priv ?n2 = ?p" "num_rxqueues ?n2 = 64"
    by (simp_all add: new_net_def XPNET_RX_NUM_QUEUES_def)
  obtain m2 where "rx_start_loop ?p (replicate 64 zero_queue) 0 64 = Some (?p\<lparr>vma := m2\<rparr>)"
    using rx_start_loop_ok [of ?p "replicate 64 zero_queue" 0 64] assms(5,6) by (auto simp: zero_queue_def)
  then have start: "xpnet_rx_all_queues_start ?n2 = Some (?n2\<lparr>pci_priv := ?p\<lparr>vma := m2\<rparr>\<rparr>)"
    using rq by (simp add: xpnet_rx_all_queues_start_def)
  obtain m3 where p3: "xpnet_program_mux_setdma (?p\<lparr>vma := m2\<rparr>) 1 = Some (?p\<lparr>vma := m3\<rparr>)"
    using xpnet_program_mux_setdma_ok [of "?p\<lparr>vma := m2\<rparr>" 1] assms(5,6) by auto
  obtain rc pr fs where "xpnet_proc_create True zero_proc (is_fs st) = Some (rc, pr, fs)"
    using proc_create_ok [OF assms(8)] by blast
  then show ?thesis
    using assms(1-3,7) p1 e1(1) e2 start p3
    by (simp add: xp_netdev_init_def XPNET_RX_NUM_QUEUES_def XPNET_TX_NUM_QUEUES_def new_net_def)
qed

lemma rxtx_zero_rings:
  assumes "rx_queue net = replicate 64 zero_queue" "dma_trigger net" "\<not> priv_lock net"
  shows "xpnet_rxtx_handler HZ hash net s = None"
proof -
  have "xpnet_rx_queue_process hash (net\<lparr>jiffies_defer := 1\<rparr>) s 0 10 = None"
    using assms(1)
    by (simp add: xpnet_rx_queue_process_def eval_nat_numeral zero_queue_def desc_get_def meta_get_def)
  then have "rx_handle_loop hash (net\<lparr>jiffies_defer := 1\<rparr>) s 0 (Suc 63) = None"
    by (simp only: rx_handle_loop.simps XPNET_RX_NUM_DESCS_def) simp
  then show ?thesis
    using assms(2,3) by (simp add: xpnet_rxtx_handler_def xpnet_rx_handle_def XPNET_RX_NUM_QUEUES_def)
qed

text \<open>And when the mode cannot be set up, the unwinding works on rings that were never built.\<close>

lemma unwind_none:
  assumes "rx_queue net = replicate 64 zero_queue" "priv_wf (pci_priv net)" "\<not> tx_dma_read_lock (pci_priv net)"
  shows "init_unwind rc net m e st = None"
proof -
  have "\<exists>p. xpnet_queue_en_dis (pci_priv net) zero_queue 0 0 XPNET_AFLAG_ACQLOCK = Some p"
    using xpnet_queue_en_dis_ok [of "pci_priv net" XPNET_AFLAG_ACQLOCK zero_queue 0 0] assms(2,3) by (simp add: zero_queue_def)
  then have "xpnet_rx_queue_uninit net e 0 0 = None"
    using assms(1) by (auto simp: xpnet_rx_queue_uninit_def zero_queue_def dma_free_coherent_def)
  then have "rx_teardown_loop net e 0 (Suc 63) = None"
    using assms(1) by (simp only: rx_teardown_loop.simps) (simp add: zero_queue_def)
  then show ?thesis
    by (simp add: init_unwind_def xpnet_rx_teardown_def XPNET_RX_NUM_QUEUES_def)
qed

end
