(* ===== verification/Irq.thy ===== *)
theory Irq
  imports Reg_Access
begin

text \<open>
  Interrupts (\<open>xp_pcie_slave.c\<close>): decoding the interrupt summary registers into blocks, finding
  the DMA queue behind a management interrupt, and queuing a signal for the registered process
  per event. The lemmas show that the block tables partition the summary register, that a block
  value is the bit field the tables describe, which signals a handler queues, and that the word
  the low-priority handler tests without having read it does not matter.

  The chip's registers are memory here; that writing ones to a status register clears it is the
  chip's doing. \<open>km\<close> says which allocations of work items succeed.
\<close>

definition NUM_HP_INT_REG_BLOCKS :: nat where "NUM_HP_INT_REG_BLOCKS = 35"
definition NUM_LP_INT_REG_BLOCKS :: nat where "NUM_LP_INT_REG_BLOCKS = 33"
definition XP_HP_INT_REG_SIZE_IN_DWRD :: nat where "XP_HP_INT_REG_SIZE_IN_DWRD = 4"
definition XP_LP_INT_REG_SIZE_IN_DWRD :: nat where "XP_LP_INT_REG_SIZE_IN_DWRD = 3"
definition HIGH_INTR_SRC_REG_SIZE :: nat where "HIGH_INTR_SRC_REG_SIZE = 5"
definition TOTAL_RX_QUEUE :: nat where "TOTAL_RX_QUEUE = 64"
definition TOTAL_TX_QUEUE :: nat where "TOTAL_TX_QUEUE = 64"

subsection \<open>Tables\<close>

definition xp_hp_reg_bit_width :: "nat list" where
  "xp_hp_reg_bit_width =
     [1, 1, 1,  1,  1, 1,  1,
      1, 1, 2, 12,  3, 4,  1,
      1, 1, 1,  1, 12, 3,  4,
      1, 1, 1,  1,  1, 1, 16,
      2, 2, 2, 32,  1, 1,  1]"

definition xp_hp_reg_start_bit :: "nat list" where
  "xp_hp_reg_start_bit =
     [ 0,  1,  2,  3,   4,   5,   6,
       7,  8,  9, 11,  23,  26,  30,
      31, 32, 33, 34,  35,  47,  50,
      54, 55, 56, 57,  58,  59,  60,
      76, 78, 80, 82, 114, 115, 116]"

definition xp_hp_reg_end_bit :: "nat list" where
  "xp_hp_reg_end_bit =
     [ 0,  1,  2,   3,   4,  5,    6,
       7,  8, 10,  22,  25, 29,   30,
      31, 32, 33,  34,  46, 49,   53,
      54, 55, 56,  57,  58, 59,   75,
      77, 79, 81, 113, 114, 115, 116]"

definition xp_lp_reg_bit_width :: "nat list" where
  "xp_lp_reg_bit_width =
     [1, 1, 1, 1, 1,  1, 1,  1, 1, 2, 12,
      3, 4, 1, 1, 1,  1, 1, 12, 3, 4,  1,
      1, 1, 1, 1, 1, 16, 2,  2, 2, 1,  1]"

definition xp_lp_reg_start_bit :: "nat list" where
  "xp_lp_reg_start_bit =
     [ 0,  1,  2,  3,  4,  5,  6,  7,  8,  9, 11,
      23, 26, 30, 31, 32, 33, 34, 35, 47, 50, 54,
      55, 56, 57, 58, 59, 60, 76, 78, 80, 82, 83]"

definition xp_lp_reg_end_bit :: "nat list" where
  "xp_lp_reg_end_bit =
     [ 0,  1,  2,  3,  4,  5,  6,  7,  8, 10, 22,
      25, 29, 30, 31, 32, 33, 34, 46, 49, 53, 54,
      55, 56, 57, 58, 59, 75, 77, 79, 81, 82, 83]"

definition xp_reg_mask :: "u32 list" where
  "xp_reg_mask =
     [0x00000000, 0x00000001, 0x00000003,
      0x00000007, 0x0000000f, 0x0000001f,
      0x0000003f, 0x0000007f, 0x000000ff,
      0x000001ff, 0x000003ff, 0x000007ff,
      0x00000fff, 0x00001fff, 0x00003fff,
      0x00007fff, 0x0000ffff, 0x0001ffff,
      0x0003ffff, 0x0007ffff, 0x000fffff,
      0x001fffff, 0x003fffff, 0x007fffff,
      0x00ffffff, 0x01ffffff, 0x03ffffff,
      0x07ffffff, 0x0fffffff, 0x1fffffff,
      0x3fffffff, 0x7fffffff, 0xffffffff]"

subsection \<open>Operations\<close>

definition xp_block_number_get :: "u32 list \<Rightarrow> nat \<Rightarrow> nat \<Rightarrow> nat \<Rightarrow> u32 option" where
  "xp_block_number_get reg_value start_bit end_bit bit_width =
     (if start_bit div 32 = end_bit div 32 then
        do { w \<leftarrow> arr_get reg_value (start_bit div 32);
             let w = drop_bit (start_bit mod 32) w;
             mask \<leftarrow> (if start_bit \<noteq> end_bit then arr_get xp_reg_mask bit_width else Some 1);
             Some (w AND mask) }
      else
        do { w1 \<leftarrow> arr_get reg_value (start_bit div 32);
             w2 \<leftarrow> arr_get reg_value (end_bit div 32);
             mask \<leftarrow> arr_get xp_reg_mask bit_width;
             Some ((drop_bit (start_bit mod 32) w1 OR push_bit (32 - start_bit mod 32) w2) AND mask) })"

text \<open>\<open>xp_intr_info_t\<close> and its 32 bits, the first field lowest; a field keeps the low bits of its value.\<close>

record xp_intr_info =
  reg_type :: u32
  block_id :: u32
  dev_id :: u32
  has_queue_info :: u32
  q_type :: u32
  q_num :: u32
  intr_status :: u32

definition zero_info :: xp_intr_info where
  "zero_info = \<lparr>reg_type = 0, block_id = 0, dev_id = 0, has_queue_info = 0, q_type = 0, q_num = 0, intr_status = 0\<rparr>"

definition info_bits :: "xp_intr_info \<Rightarrow> u32" where
  "info_bits i =
     take_bit 1 (reg_type i) OR push_bit 1 (take_bit 8 (block_id i)) OR push_bit 9 (take_bit 6 (dev_id i)) OR
     push_bit 15 (take_bit 1 (has_queue_info i)) OR push_bit 16 (take_bit 1 (q_type i)) OR
     push_bit 17 (take_bit 6 (q_num i)) OR push_bit 23 (take_bit 3 (intr_status i))"

text \<open>
  \<open>queue_work\<close> on the device's work queue, which must exist. The result of the handler on a work
  item: the signal sent (to a process that is alive), and whether the item was freed.
\<close>

definition queue_signal :: "xp_private \<Rightarrow> xp_intr_info \<Rightarrow> xp_private option" where
  "queue_signal p info =
     do { ws \<leftarrow> w_queue p;
          Some (p\<lparr>w_queue := Some (ws @ [\<lparr>work_app_pid = app_pid p, work_si_int = info_bits info\<rparr>])\<rparr>) }"

definition xp_task_work_handler :: "(u32 \<Rightarrow> bool) \<Rightarrow> xp_work \<Rightarrow> (u32 \<times> u32) option \<times> bool" where
  "xp_task_work_handler alive w =
     (if work_app_pid w = 0 then (None, False)
      else (if alive (work_app_pid w) then Some (work_app_pid w, work_si_int w) else None, True))"

fun irq_block_loop ::
  "(nat \<Rightarrow> bool) \<Rightarrow> nat \<Rightarrow> nat list \<Rightarrow> nat list \<Rightarrow> nat list \<Rightarrow> u32 list \<Rightarrow> xp_private \<Rightarrow> nat \<Rightarrow> nat \<Rightarrow> (rc \<times> xp_private) option"
where
  "irq_block_loop km reg_blocks starts ends widths regs p b 0 = Some (0, p)"
| "irq_block_loop km reg_blocks starts ends widths regs p b (Suc k) =
     do { st \<leftarrow> arr_get starts b;
          en \<leftarrow> arr_get ends b;
          wd \<leftarrow> arr_get widths b;
          block_value \<leftarrow> xp_block_number_get regs st en wd;
          if block_value = 0 then irq_block_loop km reg_blocks starts ends widths regs p (Suc b) k
          else if \<not> km b then Some (- ENOMEM, p)
          else do { p \<leftarrow> queue_signal p
                      (zero_info\<lparr>block_id := of_nat b, reg_type := (if reg_blocks = NUM_HP_INT_REG_BLOCKS then 1 else 0),
                                 dev_id := cdev_minor p\<rparr>);
                    irq_block_loop km reg_blocks starts ends widths regs p (Suc b) k } }"

definition xp_irq_handler ::
  "(nat \<Rightarrow> bool) \<Rightarrow> xp_private \<Rightarrow> nat \<Rightarrow> nat list \<Rightarrow> nat list \<Rightarrow> nat list \<Rightarrow> u32 list \<Rightarrow> (rc \<times> xp_private) option"
where
  "xp_irq_handler km p reg_blocks starts ends widths regs =
     irq_block_loop km reg_blocks starts ends widths regs p 0 reg_blocks"

text \<open>The inner loop of the management handler: the first set bit from \<open>j\<close> on, among \<open>k\<close> bits.\<close>

fun bit_scan :: "u32 \<Rightarrow> nat \<Rightarrow> nat \<Rightarrow> nat option" where
  "bit_scan w j 0 = None"
| "bit_scan w j (Suc k) = (if drop_bit j w AND 1 \<noteq> 0 then Some j else bit_scan w (Suc j) k)"

definition queue_of_bit :: "xp_address_mode \<Rightarrow> nat \<Rightarrow> u32 \<times> u32" where
  "queue_of_bit m bit_pos =
     (let start = DMA0_INTR_START_BIT_POS m in
      if start \<le> bit_pos \<and> bit_pos < TOTAL_RX_QUEUE + start then (1, of_nat (bit_pos - start))
      else if TOTAL_TX_QUEUE + start \<le> bit_pos \<and> bit_pos < start + TOTAL_RX_QUEUE + TOTAL_TX_QUEUE
        then (0, of_nat (bit_pos - (TOTAL_TX_QUEUE + start)))
      else (0, 0))"

definition status_reg_addr :: "xp_address_mode \<Rightarrow> u32 \<times> u32 \<Rightarrow> u32" where
  "status_reg_addr m q =
     (if fst q = 1 then DMA0_RXDONE (XP_GET_PCI_BASE_OFFSET_FROM_REG_NAME DMA0_RXDONE_STATUS_REG m) (snd q)
      else DMA0_TXDONE (XP_GET_PCI_BASE_OFFSET_FROM_REG_NAME DMA0_TXDONE_STATUS_REG m) (snd q))"

text \<open>The body of the loop once a pending bit \<open>j\<close> of word \<open>i\<close> is found.\<close>

definition mgmt_event :: "bool \<Rightarrow> xp_private \<Rightarrow> nat \<Rightarrow> nat \<Rightarrow> (rc \<times> xp_private) option" where
  "mgmt_event km p i j =
     (let q = queue_of_bit (mode p) (i * 32 + j); addr = status_reg_addr (mode p) q in
      if tx_dma_read_lock p then None
      else
        do { st \<leftarrow> io_load32 p addr;
             if \<not> km then Some (- ENOMEM, p)
             else
               do { p \<leftarrow> queue_signal p (zero_info\<lparr>has_queue_info := 1, q_type := fst q, q_num := snd q,
                                                    dev_id := cdev_minor p, intr_status := st\<rparr>);
                    (_, p) \<leftarrow> xp_dev_reg_write [7] addr 1 p 1;
                    (_, p) \<leftarrow> xp_dev_reg_write [push_bit j 1]
                               (XP_GET_PCI_BASE_OFFSET_FROM_REG_NAME HIGH_INTR_SOURCE_REG_ADDR (mode p) + of_nat (i * 4)) 4 p 1;
                    Some (0, p) } })"

fun mgmt_loop :: "bool \<Rightarrow> xp_private \<Rightarrow> nat \<Rightarrow> nat \<Rightarrow> (rc \<times> xp_private) option" where
  "mgmt_loop km p i 0 = Some (0, p)"
| "mgmt_loop km p i (Suc k) =
     (if tx_dma_read_lock p then None
      else
        do { w \<leftarrow> io_load32 p (XP_GET_PCI_BASE_OFFSET_FROM_REG_NAME HIGH_INTR_SOURCE_REG_ADDR (mode p) + of_nat (i * 4));
             let j0 = (if i = 0 then DMA0_INTR_START_BIT_POS (mode p) else 0);
             case (if w \<noteq> 0 then bit_scan w j0 (32 - j0) else None) of
               None \<Rightarrow> mgmt_loop km p (Suc i) k
             | Some j \<Rightarrow> mgmt_event km p i j })"

definition xp_irq_mgmt_handler :: "bool \<Rightarrow> xp_private \<Rightarrow> (rc \<times> xp_private) option" where
  "xp_irq_mgmt_handler km p = mgmt_loop km p 0 HIGH_INTR_SRC_REG_SIZE"

text \<open>Reading \<open>n\<close> words of a summary register, each under the device lock.\<close>

fun irq_read_loop :: "xp_private \<Rightarrow> xp_register \<Rightarrow> nat \<Rightarrow> nat \<Rightarrow> u32 list option" where
  "irq_read_loop p r i 0 = Some []"
| "irq_read_loop p r i (Suc n) =
     (if tx_dma_read_lock p then None
      else do { w \<leftarrow> io_load32 p (XP_GET_PCI_BASE_OFFSET_FROM_REG_NAME r (mode p) + of_nat (4 * i));
                ws \<leftarrow> irq_read_loop p r (Suc i) n;
                Some (w # ws) })"

definition IRQ_HANDLED :: rc where "IRQ_HANDLED = 1"

definition xp_msi_irq_handler_high :: "(nat \<Rightarrow> bool) \<Rightarrow> xp_private \<Rightarrow> (rc \<times> xp_private) option" where
  "xp_msi_irq_handler_high km p =
     do { reg_value \<leftarrow> irq_read_loop p HIGH_PRIO_REG_ADDR 0 XP_HP_INT_REG_SIZE_IN_DWRD;
          if reg_value ! 3 AND 0x100000 \<noteq> 0 then
            do { (rc, p) \<leftarrow> xp_irq_mgmt_handler (km 0) p; Some (if rc < 0 then rc else IRQ_HANDLED, p) }
          else if reg_value ! 0 = 0 \<and> reg_value ! 1 = 0 \<and> reg_value ! 2 = 0 \<and> reg_value ! 3 = 0 then Some (IRQ_HANDLED, p)
          else
            do { (rc, p) \<leftarrow> xp_irq_handler km p NUM_HP_INT_REG_BLOCKS xp_hp_reg_start_bit xp_hp_reg_end_bit
                              xp_hp_reg_bit_width reg_value;
                 Some (if rc < 0 then - 1 else IRQ_HANDLED, p) } }"

text \<open>The low-priority handler reads three words; \<open>junk\<close> is what the fourth of its array holds.\<close>

definition xp_msi_irq_handler_low :: "(nat \<Rightarrow> bool) \<Rightarrow> u32 \<Rightarrow> xp_private \<Rightarrow> (rc \<times> xp_private) option" where
  "xp_msi_irq_handler_low km junk p =
     do { ws \<leftarrow> irq_read_loop p LOW_PRIO_REG_ADDR 0 XP_LP_INT_REG_SIZE_IN_DWRD;
          let reg_value = ws @ [junk];
          if reg_value ! 2 AND 0x80000 \<noteq> 0 then
            do { (rc, p) \<leftarrow> xp_irq_mgmt_handler (km 0) p; Some (if rc < 0 then - 1 else IRQ_HANDLED, p) }
          else if reg_value ! 0 = 0 \<and> reg_value ! 1 = 0 \<and> reg_value ! 2 = 0 \<and> reg_value ! 3 = 0 then Some (IRQ_HANDLED, p)
          else
            do { (_, p) \<leftarrow> xp_irq_handler km p NUM_LP_INT_REG_BLOCKS xp_lp_reg_start_bit xp_lp_reg_end_bit
                             xp_lp_reg_bit_width reg_value;
                 Some (IRQ_HANDLED, p) } }"


subsection \<open>Blocks as bit fields\<close>

text \<open>The summary register as one sequence of bits.\<close>

definition reg_bit :: "u32 list \<Rightarrow> nat \<Rightarrow> bool" where
  "reg_bit regs n \<longleftrightarrow> bit (regs ! (n div 32)) (n mod 32)"

lemma xp_reg_mask_mask: "w \<le> 32 \<Longrightarrow> arr_get xp_reg_mask w = Some (mask w)"
proof -
  assume w: "w \<le> 32"
  have "\<forall>w\<in>set [0..<33]. xp_reg_mask ! w = mask w"
    by code_simp
  then show ?thesis
    using w by (simp add: arr_get_def) (simp add: xp_reg_mask_def)
qed

lemma div_mod_32:
  fixes m d r :: nat
  assumes "m = 32 * d + r" "r < 32"
  shows "m div 32 = d" "m mod 32 = r"
  using assms by simp_all

lemma split_index:
  fixes s n :: nat
  assumes "n < 32"
  shows "(s + n) div 32 = (if n < 32 - s mod 32 then s div 32 else s div 32 + 1)"
    "(s + n) mod 32 = (if n < 32 - s mod 32 then s mod 32 + n else n - (32 - s mod 32))"
proof -
  have s: "s = 32 * (s div 32) + s mod 32" "s mod 32 < 32"
    by simp_all
  have "(s + n) div 32 = (if n < 32 - s mod 32 then s div 32 else s div 32 + 1) \<and>
      (s + n) mod 32 = (if n < 32 - s mod 32 then s mod 32 + n else n - (32 - s mod 32))"
  proof (cases "n < 32 - s mod 32")
    case True
    have i: "s + n = 32 * (s div 32) + (s mod 32 + n)" "s mod 32 + n < 32"
      using True s(1) by linarith+
    show ?thesis
      using div_mod_32 [OF i] True by simp
  next
    case False
    have r: "r + n = 32 + (n - (32 - r))" if "r < 32" "\<not> n < 32 - r" for r :: nat
      using that by auto
    have i: "s + n = 32 * (s div 32 + 1) + (n - (32 - s mod 32))" "n - (32 - s mod 32) < 32"
      using r [OF s(2) False] s(1) assms by auto
    show ?thesis
      using div_mod_32 [OF i] False by simp
  qed
  then show "(s + n) div 32 = (if n < 32 - s mod 32 then s div 32 else s div 32 + 1)"
      "(s + n) mod 32 = (if n < 32 - s mod 32 then s mod 32 + n else n - (32 - s mod 32))"
    by simp_all
qed

lemma block_number_bits:
  assumes "s \<le> e" "e < 32 * length regs" "w = e - s + 1" "w \<le> 32"
  shows "\<exists>v. xp_block_number_get regs s e w = Some v \<and> (\<forall>n. bit v n \<longleftrightarrow> n < w \<and> reg_bit regs (s + n))"
proof -
  have len: "s div 32 < length regs" "e div 32 < length regs"
    using assms(1,2) by auto
  show ?thesis
  proof (cases "s div 32 = e div 32")
    case True
    then have "w - 1 < 32 - s mod 32"
      using split_index(1) [of "w - 1" s] assms(1,3,4) by (auto split: if_splits)
    then have in1: "n < 32 - s mod 32" if "n < w" for n
      using that by linarith
    have idx: "(s + n) div 32 = s div 32" "(s + n) mod 32 = s mod 32 + n" if "n < w" for n
      using in1 [OF that] split_index [of n s] that assms(4) by simp_all
    let ?m = "if s \<noteq> e then mask w else 1 :: u32"
    have "?m = mask w"
      using assms(1,3) by (simp add: mask_eq_exp_minus_1)
    then have "xp_block_number_get regs s e w = Some (drop_bit (s mod 32) (regs ! (s div 32)) AND mask w)"
      using True len xp_reg_mask_mask [OF assms(4)] by (auto simp: xp_block_number_get_def Let_def)
    then show ?thesis
      using idx assms(4) by (auto simp: bit_simps reg_bit_def)
  next
    case False
    have lt: "s mod 32 < 32"
      by simp
    have e32: "e div 32 = s div 32 + 1"
      using False split_index(1) [of "w - 1" s] assms(1,3,4) by (auto split: if_splits)
    have idx: "(s + n) div 32 = (if n < 32 - s mod 32 then s div 32 else e div 32)"
        "(s + n) mod 32 = (if n < 32 - s mod 32 then s mod 32 + n else n - (32 - s mod 32))" if "n < 32" for n
      using e32 split_index [OF that, of s] by simp_all
    have "xp_block_number_get regs s e w =
        Some ((drop_bit (s mod 32) (regs ! (s div 32)) OR push_bit (32 - s mod 32) (regs ! (e div 32))) AND mask w)"
      using False len xp_reg_mask_mask [OF assms(4)] by (simp add: xp_block_number_get_def)
    moreover have "bit ((drop_bit (s mod 32) (regs ! (s div 32)) OR push_bit (32 - s mod 32) (regs ! (e div 32))) AND mask w) n
        \<longleftrightarrow> n < w \<and> reg_bit regs (s + n)" for n
    proof (cases "n < w")
      case True
      then have n: "n < 32"
        using assms(4) by simp
      then show ?thesis
        using True lt unfolding reg_bit_def idx [OF n]
        by (auto simp: bit_simps dest: bit_imp_le_length)
    next
      case False
      then show ?thesis
        by (simp add: bit_simps)
    qed
    ultimately show ?thesis
      by blast
  qed
qed

text \<open>Tables of consecutive fields: they start at bit 0, leave no gap and fit in \<open>nbits\<close> bits.\<close>

definition tables_ok :: "nat list \<Rightarrow> nat list \<Rightarrow> nat list \<Rightarrow> nat \<Rightarrow> nat \<Rightarrow> bool" where
  "tables_ok starts ends widths n nbits \<longleftrightarrow>
     length starts = n \<and> length ends = n \<and> length widths = n \<and> starts ! 0 = 0 \<and>
     (\<forall>b\<in>set [0..<n]. starts ! b \<le> ends ! b \<and> ends ! b < nbits \<and> widths ! b = ends ! b - starts ! b + 1 \<and> widths ! b \<le> 32 \<and>
        (b + 1 < n \<longrightarrow> starts ! (b + 1) = ends ! b + 1))"

lemma hp_tables_ok: "tables_ok xp_hp_reg_start_bit xp_hp_reg_end_bit xp_hp_reg_bit_width 35 117"
  by code_simp

lemma lp_tables_ok: "tables_ok xp_lp_reg_start_bit xp_lp_reg_end_bit xp_lp_reg_bit_width 33 84"
  by code_simp

lemma tables_block:
  assumes "tables_ok starts ends widths n nbits" "b < n" "nbits \<le> 32 * length regs"
  shows "\<exists>v. xp_block_number_get regs (starts ! b) (ends ! b) (widths ! b) = Some v \<and>
    (\<forall>k. bit v k \<longleftrightarrow> k < widths ! b \<and> reg_bit regs (starts ! b + k))"
    "arr_get starts b = Some (starts ! b)" "arr_get ends b = Some (ends ! b)" "arr_get widths b = Some (widths ! b)"
proof -
  have t: "starts ! b \<le> ends ! b" "ends ! b < nbits" "widths ! b = ends ! b - starts ! b + 1" "widths ! b \<le> 32"
    using assms(1,2) unfolding tables_ok_def by (auto dest: bspec [where x = b])
  then show "\<exists>v. xp_block_number_get regs (starts ! b) (ends ! b) (widths ! b) = Some v \<and>
    (\<forall>k. bit v k \<longleftrightarrow> k < widths ! b \<and> reg_bit regs (starts ! b + k))"
    using assms(3) by (intro block_number_bits) auto
  show "arr_get starts b = Some (starts ! b)" "arr_get ends b = Some (ends ! b)" "arr_get widths b = Some (widths ! b)"
    using assms(1,2) by (simp_all add: tables_ok_def)
qed

text \<open>A block is pending when a bit of its field is set.\<close>

definition pending :: "nat list \<Rightarrow> nat list \<Rightarrow> u32 list \<Rightarrow> nat \<Rightarrow> bool" where
  "pending starts widths regs b \<longleftrightarrow> (\<exists>k<widths ! b. reg_bit regs (starts ! b + k))"

definition block_work :: "nat \<Rightarrow> xp_private \<Rightarrow> nat \<Rightarrow> xp_work" where
  "block_work reg_blocks p b =
     \<lparr>work_app_pid = app_pid p,
      work_si_int = info_bits (zero_info\<lparr>block_id := of_nat b, reg_type := (if reg_blocks = NUM_HP_INT_REG_BLOCKS then 1 else 0),
                                          dev_id := cdev_minor p\<rparr>)\<rparr>"

lemma irq_block_loop_ok:
  assumes "tables_ok starts ends widths n nbits" "nbits \<le> 32 * length regs" "b + k \<le> n" "\<And>i. km i" "w_queue p = Some ws"
  shows "irq_block_loop km r starts ends widths regs p b k =
    Some (0, p\<lparr>w_queue := Some (ws @ map (block_work r p) (filter (pending starts widths regs) [b..<b + k]))\<rparr>)"
  using assms(3,5)
proof (induction k arbitrary: b p ws)
  case 0
  then show ?case
    by simp
next
  case (Suc k)
  then have b: "b < n"
    by simp
  note tb = tables_block [OF assms(1) b assms(2)]
  obtain v where v: "xp_block_number_get regs (starts ! b) (ends ! b) (widths ! b) = Some v"
      "\<And>k. bit v k \<longleftrightarrow> k < widths ! b \<and> reg_bit regs (starts ! b + k)"
    using tb(1) by blast
  have "v \<noteq> 0 \<longleftrightarrow> (\<exists>k. bit v k)"
    by (metis bit_0_eq bit_eqI bot_apply bot_bool_def)
  then have pen: "v \<noteq> 0 \<longleftrightarrow> pending starts widths regs b"
    using v(2) by (auto simp: pending_def)
  have upt: "[b..<b + Suc k] = b # [Suc b..<Suc b + k]"
    by (simp add: upt_rec)
  show ?case
  proof (cases "v = 0")
    case True
    then show ?thesis
      using Suc.IH [of "Suc b" p ws] Suc.prems tb(2-4) v(1) pen unfolding upt by simp
  next
    case False
    let ?p = "p\<lparr>w_queue := Some (ws @ [block_work r p b])\<rparr>"
    have "block_work r ?p = block_work r p"
      by (simp add: block_work_def fun_eq_iff)
    then show ?thesis
      using Suc.IH [of "Suc b" ?p "ws @ [block_work r p b]"] Suc.prems tb(2-4) v(1) pen False assms(4) unfolding upt
      by (simp add: queue_signal_def block_work_def)
  qed
qed


subsection \<open>The summary handlers\<close>

lemma unat_reg_word:
  assumes "i \<le> 1000"
  shows "unat (XP_GET_PCI_BASE_OFFSET_FROM_REG_NAME r m + of_nat (4 * i)) = unat (XP_GET_PCI_BASE_OFFSET_FROM_REG_NAME r m) + 4 * i"
proof -
  have "unat (of_nat (4 * i) :: u32) = 4 * i"
    using assms by (simp add: unat_of_nat del: of_nat_mult)
  moreover have "unat (XP_GET_PCI_BASE_OFFSET_FROM_REG_NAME r m) + 4096 \<le> 256 * 1024 * 1024"
    using regs_below_bar0 [of r m] by (auto simp: bar0_size_def split: if_splits)
  ultimately show ?thesis
    using assms unat_add_small [of "XP_GET_PCI_BASE_OFFSET_FROM_REG_NAME r m" "of_nat (4 * i)"] by (simp del: of_nat_mult)
qed

lemma irq_read_loop_ok:
  assumes "priv_wf p" "\<not> tx_dma_read_lock p" "i + n \<le> 1000"
  shows "irq_read_loop p r i n = Some (words_at (vma p) (unat (XP_GET_PCI_BASE_OFFSET_FROM_REG_NAME r (mode p)) + 4 * i) n)"
  using assms(3)
proof (induction n arbitrary: i)
  case (Suc n)
  have "unat (XP_GET_PCI_BASE_OFFSET_FROM_REG_NAME r (mode p)) + 4 * i + 4 \<le> mmio_len p"
    using regs_below_bar0 [of r "mode p"] Suc.prems assms(1) by (simp add: priv_wf_def)
  then have "io_load32 p (XP_GET_PCI_BASE_OFFSET_FROM_REG_NAME r (mode p) + of_nat (4 * i)) =
      Some (word_at (vma p) (unat (XP_GET_PCI_BASE_OFFSET_FROM_REG_NAME r (mode p)) + 4 * i))"
    using io_load32_word_at [of "XP_GET_PCI_BASE_OFFSET_FROM_REG_NAME r (mode p) + of_nat (4 * i)" p]
      unat_reg_word [of i r "mode p"] Suc.prems by (simp del: of_nat_mult)
  then show ?case
    using Suc assms(2) by (simp del: of_nat_mult add: add.assoc) (simp add: algebra_simps)
qed simp

definition summary :: "xp_private \<Rightarrow> xp_register \<Rightarrow> nat \<Rightarrow> u32 list" where
  "summary p r n = words_at (vma p) (unat (XP_GET_PCI_BASE_OFFSET_FROM_REG_NAME r (mode p))) n"

lemma length_summary [simp]: "length (summary p r n) = n"
  by (simp add: summary_def)

lemma reg_bit_zero:
  assumes "\<And>w. w \<in> set regs \<Longrightarrow> w = 0" "n < 32 * length regs"
  shows "\<not> reg_bit regs n"
proof -
  have "regs ! (n div 32) = 0"
    using assms nth_mem [of "n div 32" regs] by auto
  then show ?thesis
    by (simp add: reg_bit_def)
qed

lemma pending_cong:
  assumes "tables_ok starts ends widths n nbits" "b < n" "\<And>k. k < nbits \<Longrightarrow> reg_bit regs k = reg_bit regs' k"
  shows "pending starts widths regs b = pending starts widths regs' b"
proof -
  have "starts ! b + k < nbits" if "k < widths ! b" for k
    using assms(1,2) that unfolding tables_ok_def by (auto dest: bspec [where x = b])
  then show ?thesis
    using assms(3) by (auto simp: pending_def)
qed

lemma pending_none:
  assumes "tables_ok starts ends widths n nbits" "nbits \<le> 32 * length regs" "\<And>w. w \<in> set regs \<Longrightarrow> w = 0"
  shows "filter (pending starts widths regs) [0..<n] = []"
proof -
  have "\<not> pending starts widths regs b" if "b < n" for b
  proof -
    have "starts ! b + k < nbits" if "k < widths ! b" for k
      using assms(1) \<open>b < n\<close> that unfolding tables_ok_def by (auto dest: bspec [where x = b])
    then have "\<not> reg_bit regs (starts ! b + k)" if "k < widths ! b" for k
      using that assms(2) reg_bit_zero [OF assms(3)] by (metis less_le_trans)
    then show ?thesis
      by (auto simp: pending_def)
  qed
  then show ?thesis
    by (simp add: filter_empty_conv)
qed

lemma words_4: "length ws = 4 \<Longrightarrow> ws ! 0 = 0 \<Longrightarrow> ws ! 1 = 0 \<Longrightarrow> ws ! 2 = 0 \<Longrightarrow> ws ! 3 = 0 \<Longrightarrow> w \<in> set ws \<Longrightarrow> w = (0 :: u32)"
  by (auto simp: numeral_eq_Suc length_Suc_conv)

lemma high_handler_ok:
  assumes "priv_wf p" "\<not> tx_dma_read_lock p" "\<And>i. km i" "w_queue p = Some ws"
    "summary p HIGH_PRIO_REG_ADDR 4 ! 3 AND 0x100000 = 0"
  shows "xp_msi_irq_handler_high km p =
    Some (IRQ_HANDLED, p\<lparr>w_queue := Some (ws @ map (block_work 35 p)
      (filter (pending xp_hp_reg_start_bit xp_hp_reg_bit_width (summary p HIGH_PRIO_REG_ADDR 4)) [0..<35]))\<rparr>)"
proof -
  let ?r = "summary p HIGH_PRIO_REG_ADDR 4"
  have rd: "irq_read_loop p HIGH_PRIO_REG_ADDR 0 4 = Some ?r"
    using irq_read_loop_ok [OF assms(1,2), of 0 4 HIGH_PRIO_REG_ADDR] by (simp add: summary_def)
  have blocks: "xp_irq_handler km p 35 xp_hp_reg_start_bit xp_hp_reg_end_bit xp_hp_reg_bit_width ?r =
      Some (0, p\<lparr>w_queue := Some (ws @ map (block_work 35 p) (filter (pending xp_hp_reg_start_bit xp_hp_reg_bit_width ?r) [0..<35]))\<rparr>)"
    using irq_block_loop_ok [OF hp_tables_ok, of ?r 0 35 km p ws 35] assms(3,4) by (simp add: xp_irq_handler_def)
  show ?thesis
  proof (cases "?r ! 0 = 0 \<and> ?r ! 1 = 0 \<and> ?r ! 2 = 0 \<and> ?r ! 3 = 0")
    case True
    have "filter (pending xp_hp_reg_start_bit xp_hp_reg_bit_width ?r) [0..<35] = []"
      using True words_4 [of ?r] by (intro pending_none [OF hp_tables_ok]) auto
    moreover have "p\<lparr>w_queue := Some ws\<rparr> = p"
      using assms(4) by (cases p) simp
    ultimately show ?thesis
      using True rd assms(5) by (simp add: xp_msi_irq_handler_high_def XP_HP_INT_REG_SIZE_IN_DWRD_def)
  next
    case False
    then show ?thesis
      using rd assms(5) blocks
      by (auto simp: xp_msi_irq_handler_high_def XP_HP_INT_REG_SIZE_IN_DWRD_def NUM_HP_INT_REG_BLOCKS_def)
  qed
qed

text \<open>The low-priority blocks end at bit 83, so the fourth word is never looked at.\<close>

lemma reg_bit_append: "n < 32 * length ws \<Longrightarrow> reg_bit (ws @ zs) n = reg_bit ws n"
  by (simp add: reg_bit_def nth_append less_mult_imp_div_less mult.commute)

lemma low_handler_ok:
  assumes "priv_wf p" "\<not> tx_dma_read_lock p" "\<And>i. km i" "w_queue p = Some ws"
    "summary p LOW_PRIO_REG_ADDR 3 ! 2 AND 0x80000 = 0"
  shows "xp_msi_irq_handler_low km junk p =
    Some (IRQ_HANDLED, p\<lparr>w_queue := Some (ws @ map (block_work 33 p)
      (filter (pending xp_lp_reg_start_bit xp_lp_reg_bit_width (summary p LOW_PRIO_REG_ADDR 3)) [0..<33]))\<rparr>)"
proof -
  let ?r = "summary p LOW_PRIO_REG_ADDR 3"
  have rd: "irq_read_loop p LOW_PRIO_REG_ADDR 0 3 = Some ?r"
    using irq_read_loop_ok [OF assms(1,2), of 0 3 LOW_PRIO_REG_ADDR] by (simp add: summary_def)
  have pen: "pending xp_lp_reg_start_bit xp_lp_reg_bit_width (?r @ [junk]) b = pending xp_lp_reg_start_bit xp_lp_reg_bit_width ?r b"
    if "b < 33" for b
    using pending_cong [OF lp_tables_ok that, of "?r @ [junk]" ?r] reg_bit_append [of _ ?r "[junk]"] by simp
  have fil: "filter (pending xp_lp_reg_start_bit xp_lp_reg_bit_width (?r @ [junk])) [0..<33] =
      filter (pending xp_lp_reg_start_bit xp_lp_reg_bit_width ?r) [0..<33]"
    by (rule filter_cong) (simp_all add: pen)
  have blocks: "xp_irq_handler km p 33 xp_lp_reg_start_bit xp_lp_reg_end_bit xp_lp_reg_bit_width (?r @ [junk]) =
      Some (0, p\<lparr>w_queue := Some (ws @ map (block_work 33 p) (filter (pending xp_lp_reg_start_bit xp_lp_reg_bit_width ?r) [0..<33]))\<rparr>)"
    using irq_block_loop_ok [OF lp_tables_ok, of "?r @ [junk]" 0 33 km p ws 33] assms(3,4) fil by (simp add: xp_irq_handler_def)
  show ?thesis
  proof (cases "?r ! 0 = 0 \<and> ?r ! 1 = 0 \<and> ?r ! 2 = 0 \<and> junk = 0")
    case True
    have "\<And>w. w \<in> set ?r \<Longrightarrow> w = 0"
      using True words_4 [of "?r @ [0]"] by (simp add: nth_append)
    then have "filter (pending xp_lp_reg_start_bit xp_lp_reg_bit_width ?r) [0..<33] = []"
      by (intro pending_none [OF lp_tables_ok]) auto
    moreover have "p\<lparr>w_queue := Some ws\<rparr> = p"
      using assms(4) by (cases p) simp
    ultimately show ?thesis
      using True rd assms(5) by (simp add: xp_msi_irq_handler_low_def XP_LP_INT_REG_SIZE_IN_DWRD_def nth_append)
  next
    case False
    then show ?thesis
      using rd assms(5) blocks
      by (auto simp: xp_msi_irq_handler_low_def XP_LP_INT_REG_SIZE_IN_DWRD_def NUM_LP_INT_REG_BLOCKS_def nth_append)
  qed
qed


subsection \<open>Management interrupts\<close>

lemma and_1_bit: "drop_bit j (w :: u32) AND 1 \<noteq> 0 \<longleftrightarrow> bit w j"
  by (simp add: and_one_eq bit_iff_odd_drop_bit mod_2_eq_odd)

lemma bit_scan_first: "bit w r \<Longrightarrow> j \<le> r \<Longrightarrow> r < j + k \<Longrightarrow> (\<And>n. j \<le> n \<Longrightarrow> n < r \<Longrightarrow> \<not> bit w n) \<Longrightarrow> bit_scan w j k = Some r"
proof (induction k arbitrary: j)
  case (Suc k)
  then show ?case
    by (cases "j = r") (auto simp: and_1_bit)
qed simp

lemma bit_scan_none: "(\<And>n. j \<le> n \<Longrightarrow> n < j + k \<Longrightarrow> \<not> bit w n) \<Longrightarrow> bit_scan w j k = None"
proof (induction k arbitrary: j)
  case (Suc k)
  then show ?case
    by (auto simp: and_1_bit)
qed simp

lemma src_word:
  assumes "priv_wf p" "i < 5"
  shows "io_load32 p (XP_GET_PCI_BASE_OFFSET_FROM_REG_NAME HIGH_INTR_SOURCE_REG_ADDR (mode p) + of_nat (i * 4)) =
    Some (summary p HIGH_INTR_SOURCE_REG_ADDR 5 ! i)"
proof -
  let ?b = "XP_GET_PCI_BASE_OFFSET_FROM_REG_NAME HIGH_INTR_SOURCE_REG_ADDR (mode p)"
  have "unat ?b + 4 * i + 4 \<le> mmio_len p"
    using regs_below_bar0 [of HIGH_INTR_SOURCE_REG_ADDR "mode p"] assms by (simp add: priv_wf_def)
  then have "io_load32 p (?b + of_nat (4 * i)) = Some (word_at (vma p) (unat ?b + 4 * i))"
    using io_load32_word_at [of "?b + of_nat (4 * i)" p] unat_reg_word [of i HIGH_INTR_SOURCE_REG_ADDR "mode p"] assms(2)
    by (simp del: of_nat_mult)
  moreover have "words_at m a 5 ! i = word_at m (a + 4 * i)" for m a
  proof -
    have "i = 0 \<or> i = 1 \<or> i = 2 \<or> i = 3 \<or> i = 4"
      using assms(2) by auto
    then show ?thesis
      by (auto simp: eval_nat_numeral)
  qed
  ultimately show ?thesis
    by (simp add: summary_def mult.commute)
qed

text \<open>The handler acts on the first pending bit that belongs to a DMA queue.\<close>

lemma mgmt_loop_first:
  assumes "priv_wf p" "\<not> tx_dma_read_lock p" "DMA0_INTR_START_BIT_POS (mode p) \<le> n" "n < 160"
    "reg_bit (summary p HIGH_INTR_SOURCE_REG_ADDR 5) n"
    "\<And>m. DMA0_INTR_START_BIT_POS (mode p) \<le> m \<Longrightarrow> m < n \<Longrightarrow> \<not> reg_bit (summary p HIGH_INTR_SOURCE_REG_ADDR 5) m"
    "i + k = 5" "i \<le> n div 32"
  shows "mgmt_loop km p i k = mgmt_event km p (n div 32) (n mod 32)"
  using assms(7,8)
proof (induction k arbitrary: i)
  case 0
  then show ?case
    using assms(4) by simp
next
  case (Suc k)
  let ?src = "summary p HIGH_INTR_SOURCE_REG_ADDR 5" and ?s = "DMA0_INTR_START_BIT_POS (mode p)"
  let ?j0 = "if i = 0 then ?s else 0"
  have s: "?s < 32"
    by (simp add: DMA0_INTR_START_BIT_POS_def)
  have w: "io_load32 p (XP_GET_PCI_BASE_OFFSET_FROM_REG_NAME HIGH_INTR_SOURCE_REG_ADDR (mode p) + of_nat (i * 4)) = Some (?src ! i)"
    using Suc.prems(1) by (intro src_word [OF assms(1)]) simp
  have bits: "bit (?src ! i) m = reg_bit ?src (32 * i + m)" if "m < 32" for m
    using that div_mod_32 [of "32 * i + m" i m] by (simp add: reg_bit_def)
  have n: "n = 32 * (n div 32) + n mod 32" "n mod 32 < 32"
    by simp_all
  show ?case
  proof (cases "i = n div 32")
    case True
    have "bit (?src ! i) (n mod 32)"
      using assms(5) True by (simp add: reg_bit_def)
    moreover have "?j0 \<le> n mod 32"
      using assms(3) True n by auto
    moreover have "\<not> bit (?src ! i) m" if "?j0 \<le> m" "m < n mod 32" for m
    proof -
      have "32 * i + m < n"
        using that(2) n True by linarith
      moreover have "m < 32" "?s \<le> 32 * i + m"
        using that n True s by (auto split: if_splits)
      ultimately show ?thesis
        using bits assms(6) by simp
    qed
    ultimately have "bit_scan (?src ! i) ?j0 (32 - ?j0) = Some (n mod 32)"
      using s by (intro bit_scan_first) auto
    moreover have "?src ! i \<noteq> 0"
      using \<open>bit (?src ! i) (n mod 32)\<close> by auto
    ultimately show ?thesis
      using True w assms(2) by (simp add: Let_def)
  next
    case False
    then have lt: "i < n div 32"
      using Suc.prems(2) by simp
    have "\<not> bit (?src ! i) m" if "?j0 \<le> m" "m < ?j0 + (32 - ?j0)" for m
    proof -
      have "m < 32" "?s \<le> 32 * i + m"
        using that s by (auto split: if_splits)
      moreover have "32 * i + m < n"
        using \<open>m < 32\<close> n lt by linarith
      ultimately show ?thesis
        using bits assms(6) by simp
    qed
    then have "bit_scan (?src ! i) ?j0 (32 - ?j0) = None"
      by (rule bit_scan_none)
    then show ?thesis
      using Suc.IH [of "Suc i"] Suc.prems(1) lt w assms(2) by (simp add: Let_def)
  qed
qed


text \<open>The status register of a queue, and what is read from it.\<close>

lemma status_reg_in_bar:
  assumes "priv_wf p" "snd q < 64"
  shows "unat (status_reg_addr (mode p) q) + 4 \<le> mmio_len p"
proof -
  have 16: "unat (16 * snd q) = 16 * unat (snd q)" "unat (snd q) < 64"
    using assms(2) by (simp_all add: unat_word_ariths word_less_nat_alt)
  have "unat (XP_GET_PCI_BASE_OFFSET_FROM_REG_NAME r (mode p) + 16 * snd q) + 4 \<le> mmio_len p" for r
    using regs_below_bar0 [of r "mode p"] 16 assms(1)
      unat_add_small [of "XP_GET_PCI_BASE_OFFSET_FROM_REG_NAME r (mode p)" "16 * snd q"]
    by (simp add: priv_wf_def)
  then show ?thesis
    by (simp add: status_reg_addr_def DMA0_RXDONE_def DMA0_TXDONE_def)
qed

lemma reg_write_1_byte:
  assumes "\<not> tx_dma_read_lock p" "unat a + 4 \<le> mmio_len p"
  shows "xp_dev_reg_write [v] a 1 p 1 = Some (0, p\<lparr>vma := (vma p)(unat a := byte_of32 0 v)\<rparr>)"
  using assms by (simp add: xp_dev_reg_write_def BYTE_SIZE_def store_masked_byte eval_nat_numeral)

lemma reg_write_1_dword:
  assumes "\<not> tx_dma_read_lock p" "unat a + 4 \<le> mmio_len p"
  shows "xp_dev_reg_write [v] a 4 p 1 = Some (0, p\<lparr>vma := put_word (vma p) (unat a) v\<rparr>)"
  using assms by (simp add: xp_dev_reg_write_def BYTE_SIZE_def WORD_SIZE_def DWORD_SIZE_def io_store32_put_word)

definition queue_work_item :: "xp_private \<Rightarrow> u32 \<times> u32 \<Rightarrow> xp_work" where
  "queue_work_item p q =
     \<lparr>work_app_pid = app_pid p,
      work_si_int = info_bits (zero_info\<lparr>has_queue_info := 1, q_type := fst q, q_num := snd q, dev_id := cdev_minor p,
        intr_status := word_at (vma p) (unat (status_reg_addr (mode p) q))\<rparr>)\<rparr>"

lemma mgmt_event_ok:
  assumes "priv_wf p" "\<not> tx_dma_read_lock p" "w_queue p = Some ws" "i < 5" "q = queue_of_bit (mode p) (i * 32 + j)" "snd q < 64"
  shows "mgmt_event True p i j =
    Some (0, p\<lparr>w_queue := Some (ws @ [queue_work_item p q]),
               vma := put_word ((vma p)(unat (status_reg_addr (mode p) q) := 7))
                        (unat (XP_GET_PCI_BASE_OFFSET_FROM_REG_NAME HIGH_INTR_SOURCE_REG_ADDR (mode p)) + 4 * i) (push_bit j 1)\<rparr>)"
proof -
  let ?a = "status_reg_addr (mode p) q"
  let ?b = "XP_GET_PCI_BASE_OFFSET_FROM_REG_NAME HIGH_INTR_SOURCE_REG_ADDR (mode p) + of_nat (i * 4)"
  have a: "unat ?a + 4 \<le> mmio_len p"
    by (rule status_reg_in_bar [OF assms(1,6)])
  have ub: "unat ?b = unat (XP_GET_PCI_BASE_OFFSET_FROM_REG_NAME HIGH_INTR_SOURCE_REG_ADDR (mode p)) + 4 * i"
    using unat_reg_word [of i HIGH_INTR_SOURCE_REG_ADDR "mode p"] assms(4) by (simp add: mult.commute)
  then have b: "unat ?b + 4 \<le> mmio_len p"
    using regs_below_bar0 [of HIGH_INTR_SOURCE_REG_ADDR "mode p"] assms(1,4) by (simp add: priv_wf_def)
  have "byte_of32 0 7 = 7"
    by (simp add: byte_of32_def)
  then show ?thesis
    using assms(2,3) io_load32_word_at [OF a] reg_write_1_byte [of "p\<lparr>w_queue := x\<rparr>" ?a 7 for x]
      reg_write_1_dword [of "p\<lparr>w_queue := x, vma := y\<rparr>" ?b "push_bit j 1" for x y] a b ub
    unfolding mgmt_event_def assms(5) [symmetric] Let_def
    by (simp add: queue_signal_def queue_work_item_def)
qed

lemma queue_of_bit_valid:
  assumes "DMA0_INTR_START_BIT_POS m \<le> n" "n < DMA0_INTR_START_BIT_POS m + 128"
  shows "queue_of_bit m n =
    (let k = n - DMA0_INTR_START_BIT_POS m in if k < 64 then (1, of_nat k) else (0, of_nat (k - 64)))"
    "snd (queue_of_bit m n) < 64"
proof -
  show "queue_of_bit m n =
    (let k = n - DMA0_INTR_START_BIT_POS m in if k < 64 then (1, of_nat k) else (0, of_nat (k - 64)))"
    using assms by (auto simp: queue_of_bit_def Let_def TOTAL_RX_QUEUE_def TOTAL_TX_QUEUE_def add.commute)
  then show "snd (queue_of_bit m n) < 64"
    using assms(2) by (auto simp: Let_def word_less_nat_alt unat_of_nat simp del: of_nat_diff)
qed

text \<open>The fields can be read back from the 32 bits of the signal.\<close>

lemma bit_push_field:
  fixes v :: "32 word"
  shows "n < 32 \<Longrightarrow> bit (push_bit k (take_bit w v)) n \<longleftrightarrow> k \<le> n \<and> n < k + w \<and> bit v (n - k)"
  by (auto simp: bit_push_bit_iff bit_take_bit_iff)

lemma bit_info_bits:
  "n < 32 \<Longrightarrow> bit (info_bits i) n \<longleftrightarrow>
     (n < 1 \<and> bit (reg_type i) n) \<or> (1 \<le> n \<and> n < 9 \<and> bit (block_id i) (n - 1)) \<or>
     (9 \<le> n \<and> n < 15 \<and> bit (dev_id i) (n - 9)) \<or> (15 \<le> n \<and> n < 16 \<and> bit (has_queue_info i) (n - 15)) \<or>
     (16 \<le> n \<and> n < 17 \<and> bit (q_type i) (n - 16)) \<or> (17 \<le> n \<and> n < 23 \<and> bit (q_num i) (n - 17)) \<or>
     (23 \<le> n \<and> n < 26 \<and> bit (intr_status i) (n - 23))"
  unfolding info_bits_def bit_or_iff by (simp only: bit_push_field bit_take_bit_iff) simp

lemma info_field:
  assumes "\<And>n. n < w \<Longrightarrow> bit (info_bits i) (k + n) = bit v n"
  shows "take_bit w (drop_bit k (info_bits i)) = take_bit w v"
  using assms by (intro bit_word_eqI) (auto simp: bit_take_bit_iff bit_drop_bit_eq)

lemma info_bits_fields:
  "take_bit 1 (drop_bit 0 (info_bits i)) = take_bit 1 (reg_type i)"
  "take_bit 8 (drop_bit 1 (info_bits i)) = take_bit 8 (block_id i)"
  "take_bit 6 (drop_bit 9 (info_bits i)) = take_bit 6 (dev_id i)"
  "take_bit 1 (drop_bit 15 (info_bits i)) = take_bit 1 (has_queue_info i)"
  "take_bit 1 (drop_bit 16 (info_bits i)) = take_bit 1 (q_type i)"
  "take_bit 6 (drop_bit 17 (info_bits i)) = take_bit 6 (q_num i)"
  "take_bit 3 (drop_bit 23 (info_bits i)) = take_bit 3 (intr_status i)"
  by (rule info_field, subst bit_info_bits, simp, simp)+

end
