(* ===== verification/User_Mem.thy ===== *)
theory User_Mem
  imports XpPrelude
begin

text \<open>
  The memory of the process that calls the driver, and what \<open>copy_from_user\<close> and \<open>copy_to_user\<close> do
  with it: both return how many bytes they could not copy, counted from the first address that
  is not mapped or, for a copy out, not writable. A byte of user memory carries whether it can
  be written. The command numbers of \<open>ioctl\<close>, which both device files use, are here as well.
\<close>

type_synonym umem = "u64 \<Rightarrow> (u8 \<times> bool) option"

fun copy_from_user :: "umem \<Rightarrow> u64 \<Rightarrow> nat \<Rightarrow> nat \<times> u8 list" where
  "copy_from_user m a 0 = (0, [])"
| "copy_from_user m a (Suc n) =
     (case m a of
        None \<Rightarrow> (Suc n, [])
      | Some (b, _) \<Rightarrow> (case copy_from_user m (a + 1) n of (r, bs) \<Rightarrow> (r, b # bs)))"

fun copy_to_user :: "umem \<Rightarrow> u64 \<Rightarrow> u8 list \<Rightarrow> nat \<times> umem" where
  "copy_to_user m a [] = (0, m)"
| "copy_to_user m a (b # bs) =
     (case m a of
        Some (_, True) \<Rightarrow> copy_to_user (m(a \<mapsto> (b, True))) (a + 1) bs
      | _ \<Rightarrow> (Suc (length bs), m))"

text \<open>The bytes of a 64-bit field.\<close>

definition le64_at :: "u8 list \<Rightarrow> nat \<Rightarrow> u64" where
  "le64_at b k = join64 (le32_at b k) (le32_at b (k + 4))"

definition le64_bytes :: "u64 \<Rightarrow> u8 list" where
  "le64_bytes w = le32_bytes (lo32 w) @ le32_bytes (hi32 w)"

text \<open>\<open>_IO\<close> and \<open>_IOWR\<close> with the size of \<open>uint64_t\<close>.\<close>

definition PCIE_IOCTL_ID :: u32 where "PCIE_IOCTL_ID = 40"

definition IO :: "u32 \<Rightarrow> u32" where
  "IO nr = push_bit 8 PCIE_IOCTL_ID OR nr"

definition IOWR :: "u32 \<Rightarrow> u32" where
  "IOWR nr = push_bit 30 3 OR push_bit 16 8 OR push_bit 8 PCIE_IOCTL_ID OR nr"

definition INIT_NETDEV :: u32 where "INIT_NETDEV = IO 5"
definition DMA_CLEAN_UP :: u32 where "DMA_CLEAN_UP = IO 4"
definition REGISTER_PID :: u32 where "REGISTER_PID = IO 1"
definition DEINIT_NETDEV :: u32 where "DEINIT_NETDEV = IO 6"
definition PCIE_REG_CMD :: u32 where "PCIE_REG_CMD = IOWR 0"
definition PHY_MEM_FREE :: u32 where "PHY_MEM_FREE = IOWR 3"
definition PHY_MEM_ALLOC :: u32 where "PHY_MEM_ALLOC = IOWR 2"
definition GET_DRIVER_VERSION :: u32 where "GET_DRIVER_VERSION = IOWR 7"
definition PCIE_CONFIG_READ_CMD :: u32 where "PCIE_CONFIG_READ_CMD = IOWR 8"

text \<open>The string \<open>"3.2.3"\<close> with its terminating zero.\<close>

definition COMPATIBLE_XDK_VERSION :: "u8 list" where
  "COMPATIBLE_XDK_VERSION = [0x33, 0x2E, 0x32, 0x2E, 0x33, 0]"

definition xp_driver_version_get :: "umem \<Rightarrow> u64 \<Rightarrow> nat \<times> umem" where
  "xp_driver_version_get m argp = copy_to_user m argp COMPATIBLE_XDK_VERSION"

lemmas ioctl_cmds =
  INIT_NETDEV_def DMA_CLEAN_UP_def REGISTER_PID_def DEINIT_NETDEV_def PCIE_REG_CMD_def PHY_MEM_FREE_def
  PHY_MEM_ALLOC_def GET_DRIVER_VERSION_def PCIE_CONFIG_READ_CMD_def IO_def IOWR_def PCIE_IOCTL_ID_def

text \<open>The commands are all different.\<close>

lemma ioctl_cmds_distinct:
  "distinct [INIT_NETDEV, DMA_CLEAN_UP, REGISTER_PID, DEINIT_NETDEV, PCIE_REG_CMD, PHY_MEM_FREE, PHY_MEM_ALLOC,
     GET_DRIVER_VERSION, PCIE_CONFIG_READ_CMD]"
  by (simp add: ioctl_cmds push_bit_eq_mult)

subsection \<open>Ranges that are mapped\<close>

definition readable :: "umem \<Rightarrow> u64 \<Rightarrow> nat \<Rightarrow> bool" where
  "readable m a n \<longleftrightarrow> (\<forall>k < n. m (a + of_nat k) \<noteq> None)"

definition can_write :: "umem \<Rightarrow> u64 \<Rightarrow> bool" where
  "can_write m a \<longleftrightarrow> (\<exists>b. m a = Some (b, True))"

definition writable :: "umem \<Rightarrow> u64 \<Rightarrow> nat \<Rightarrow> bool" where
  "writable m a n \<longleftrightarrow> (\<forall>k < n. can_write m (a + of_nat k))"

definition ubytes :: "umem \<Rightarrow> u64 \<Rightarrow> nat \<Rightarrow> u8 list" where
  "ubytes m a n = map (\<lambda>k. fst (the (m (a + of_nat k)))) [0..<n]"

lemma length_ubytes [simp]: "length (ubytes m a n) = n"
  by (simp add: ubytes_def)

lemma writable_readable: "writable m a n \<Longrightarrow> readable m a n"
  unfolding writable_def readable_def can_write_def by fastforce

lemma readable_Suc: "readable m a (Suc n) \<longleftrightarrow> m a \<noteq> None \<and> readable m (a + 1) n"
  by (auto simp: readable_def less_Suc_eq_0_disj add.assoc)

lemma writable_Suc: "writable m a (Suc n) \<longleftrightarrow> can_write m a \<and> writable m (a + 1) n"
  by (auto simp: writable_def less_Suc_eq_0_disj add.assoc)

lemma ubytes_Suc: "ubytes m a (Suc n) = fst (the (m a)) # ubytes m (a + 1) n"
  by (simp add: ubytes_def upt_conv_Cons map_Suc_upt [symmetric] add.assoc del: upt_Suc)

lemma copy_from_user_ok: "readable m a n \<Longrightarrow> copy_from_user m a n = (0, ubytes m a n)"
proof (induction n arbitrary: a)
  case (Suc n)
  then show ?case
    using Suc.IH [of "a + 1"] by (auto simp: readable_Suc ubytes_Suc)
qed (simp add: ubytes_def)

lemma copy_from_user_zero: "fst (copy_from_user m a n) = 0 \<longleftrightarrow> readable m a n"
proof (induction n arbitrary: a)
  case (Suc n)
  show ?case
    using Suc.IH [of "a + 1"] by (auto simp: readable_Suc split: option.splits prod.splits)
qed (simp add: readable_def)

text \<open>
  A copy out that succeeds leaves its bytes in user memory; what can be written stays the
  same, and addresses outside the range keep their bytes.
\<close>

lemma can_write_upd: "can_write m a \<Longrightarrow> can_write (m(a \<mapsto> (b, True))) = can_write m"
  by (auto simp: can_write_def fun_eq_iff)

lemma copy_to_user_step:
  "copy_to_user m a (b # bs) =
     (if can_write m a then copy_to_user (m(a \<mapsto> (b, True))) (a + 1) bs else (Suc (length bs), m))"
  by (auto simp: can_write_def split: option.splits prod.splits bool.splits)

declare copy_to_user.simps(2) [simp del]

lemma copy_to_user_can_write: "can_write (snd (copy_to_user m a bs)) = can_write m"
proof (induction bs arbitrary: m a)
  case (Cons b bs)
  have "can_write (snd (copy_to_user (m(a \<mapsto> (b, True))) (a + 1) bs)) = can_write (m(a \<mapsto> (b, True)))"
    by (rule Cons.IH)
  then show ?case
    by (simp add: copy_to_user_step can_write_upd)
qed simp

lemma copy_to_user_zero: "fst (copy_to_user m a bs) = 0 \<longleftrightarrow> writable m a (length bs)"
proof (induction bs arbitrary: m a)
  case (Cons b bs)
  have "(fst (copy_to_user (m(a \<mapsto> (b, True))) (a + 1) bs) = 0) = writable (m(a \<mapsto> (b, True))) (a + 1) (length bs)"
    by (rule Cons.IH)
  moreover have "writable (m(a \<mapsto> (b, True))) (a + 1) (length bs) = writable m (a + 1) (length bs)" if "can_write m a"
    by (simp add: writable_def can_write_upd [OF that])
  ultimately show ?case
    by (auto simp: copy_to_user_step writable_Suc)
qed (simp add: writable_def)

lemma copy_to_user_other:
  "(\<And>k. k < length bs \<Longrightarrow> x \<noteq> a + of_nat k) \<Longrightarrow> snd (copy_to_user m a bs) x = m x"
proof (induction bs arbitrary: m a)
  case (Cons b bs)
  have ne: "x \<noteq> a" "\<And>k. k < length bs \<Longrightarrow> x \<noteq> a + 1 + of_nat k"
    using Cons.prems [of 0] Cons.prems [of "Suc k" for k] by (auto simp: add.assoc)
  have "snd (copy_to_user (m(a \<mapsto> (b, True))) (a + 1) bs) x = (m(a \<mapsto> (b, True))) x"
    by (rule Cons.IH) (rule ne(2))
  then show ?case
    using ne(1) by (auto simp: copy_to_user_step)
qed simp

lemma word_of_nat_neq_zero: "0 < k \<Longrightarrow> k < 2 ^ 64 \<Longrightarrow> (of_nat k :: u64) \<noteq> 0"
  by (simp add: word_unat_eq_iff unat_of_nat)

lemma copy_to_user_bytes:
  "writable m a (length bs) \<Longrightarrow> length bs < 2 ^ 64 \<Longrightarrow> ubytes (snd (copy_to_user m a bs)) a (length bs) = bs"
proof (induction bs arbitrary: m a)
  case (Cons b bs)
  have w: "can_write m a" "writable m (a + 1) (length bs)"
    using Cons.prems(1) by (auto simp: writable_Suc)
  have "a \<noteq> a + 1 + of_nat k" if "k < length bs" for k
    using word_of_nat_neq_zero [of "Suc k"] that Cons.prems(2) by (simp add: add.assoc)
  then have "snd (copy_to_user (m(a \<mapsto> (b, True))) (a + 1) bs) a = Some (b, True)"
    by (subst copy_to_user_other) auto
  moreover have "writable (m(a \<mapsto> (b, True))) (a + 1) (length bs)"
    using w by (simp add: writable_def can_write_upd)
  then have "ubytes (snd (copy_to_user (m(a \<mapsto> (b, True))) (a + 1) bs)) (a + 1) (length bs) = bs"
    by (rule Cons.IH) (use Cons.prems(2) in simp)
  ultimately show ?case
    using w by (simp add: ubytes_Suc copy_to_user_step)
qed (simp add: ubytes_def)

lemma copy_to_user_ok:
  assumes "writable m a (length bs)" "length bs < 2 ^ 64"
  shows "\<exists>m'. copy_to_user m a bs = (0, m') \<and> ubytes m' a (length bs) = bs \<and> can_write m' = can_write m"
  using copy_to_user_zero [of m a bs] copy_to_user_bytes [OF assms] copy_to_user_can_write [of m a bs] assms(1)
  by (cases "copy_to_user m a bs") auto

lemma length_le64_bytes [simp]: "length (le64_bytes w) = 8"
  by (simp add: le64_bytes_def)

lemma le64_at_le64_bytes [simp]: "le64_at (le64_bytes w @ xs) 0 = w"
  by (simp add: le64_at_def le64_bytes_def)

lemma le64_at_skip [simp]: "8 \<le> k \<Longrightarrow> le64_at (le64_bytes w @ xs) k = le64_at xs (k - 8)"
  by (simp add: le64_at_def le64_bytes_def)

lemma le32_at_skip64 [simp]: "8 \<le> k \<Longrightarrow> le32_at (le64_bytes w @ xs) k = le32_at xs (k - 8)"
  by (simp add: le64_bytes_def)

end
