(* ===== verification/Dma_Mem.thy ===== *)
theory Dma_Mem
  imports User_Mem "HOL-Library.Multiset"
begin

text \<open>
  The DMA memory device (\<open>xp_dma_mem_access\<close>, \<open>xp_dma_mem_free\<close>, \<open>xp_dma_mem_cleanup\<close>, \<open>xp_dma_mmap\<close>
  and the two \<open>ioctl\<close> entry points of \<open>xp_pcie_slave.c\<close>): user space asks for coherent memory,
  gets its addresses and an offset for \<open>mmap\<close>, and gives it back by physical address.

  The answers of the kernel to one request are an argument (\<open>mem_env\<close>): whether the two
  \<open>kmalloc\<close> calls succeed and what \<open>dma_alloc_coherent\<close> returns. \<open>dma_areas\<close> is what the allocator has
  handed out and not got back, as size, virtual and DMA address; a free of anything else has no
  meaning. The invariant says that the driver's list and the allocator agree and that every
  entry has its own offset below \<open>mem_index\<close>.
\<close>

record xp_mem_user =
  mu_addr :: u64
  mu_paddr :: u64
  mu_len :: u32
  mu_offset :: u32

record xp_mem_list =
  ml_addr :: u64
  ml_paddr :: u64
  ml_len :: u32
  ml_offset :: u32

record xp_dma_private =
  mem_index :: u32
  coherent_dma_mask :: u64
  xp_mem_list_head :: "xp_mem_list list"
  dma_areas :: "(u64 \<times> u64 \<times> u64) list"

record mem_env =
  kmalloc_user_ok :: bool
  dma_result :: "(u64 \<times> u64) option"
  kmalloc_list_ok :: bool

text \<open>The packed structure in user memory.\<close>

definition MEM_USER_SIZE :: nat where "MEM_USER_SIZE = 24"

definition mem_user_of_bytes :: "u8 list \<Rightarrow> xp_mem_user" where
  "mem_user_of_bytes b = \<lparr>mu_addr = le64_at b 0, mu_paddr = le64_at b 8, mu_len = le32_at b 16, mu_offset = le32_at b 20\<rparr>"

definition mem_user_bytes :: "xp_mem_user \<Rightarrow> u8 list" where
  "mem_user_bytes u = le64_bytes (mu_addr u) @ le64_bytes (mu_paddr u) @ le32_bytes (mu_len u) @ le32_bytes (mu_offset u)"

text \<open>Rounding up to pages, in 64 bits; the lengths in both structures keep the low 32 bits.\<close>

definition mem_area :: "u32 \<Rightarrow> u64" where
  "mem_area len = (ucast len + of_nat PAGE_SIZE - 1) AND NOT (of_nat PAGE_SIZE - 1)"

definition xp_dma_mem_access ::
  "mem_env \<Rightarrow> umem \<Rightarrow> u64 \<Rightarrow> xp_dma_private \<Rightarrow> rc \<times> umem \<times> xp_dma_private"
where
  "xp_dma_mem_access v m argp priv =
     (if \<not> kmalloc_user_ok v then (- ENOMEM, m, priv)
      else
        case copy_from_user m argp MEM_USER_SIZE of (rc, b) \<Rightarrow>
          if rc \<noteq> 0 then (int rc, m, priv)
          else
            let area = mem_area (mu_len (mem_user_of_bytes b)) in
            case dma_result v of
              None \<Rightarrow> (- ENOMEM, m, priv)
            | Some (mem, mem_dma) \<Rightarrow>
                let priv = priv\<lparr>dma_areas := (area, mem, mem_dma) # dma_areas priv\<rparr> in
                if \<not> kmalloc_list_ok v then (- ENOMEM, m, priv)
                else
                  let entry = \<lparr>ml_addr = mem, ml_paddr = mem_dma, ml_len = ucast area, ml_offset = mem_index priv\<rparr>;
                      user = \<lparr>mu_addr = mem, mu_paddr = mem_dma, mu_len = ucast area,
                              mu_offset = mem_index priv * of_nat PAGE_SIZE\<rparr>;
                      priv = priv\<lparr>xp_mem_list_head := xp_mem_list_head priv @ [entry]\<rparr>
                  in case copy_to_user m argp (mem_user_bytes user) of (rc, m) \<Rightarrow>
                       if rc \<noteq> 0 then (int rc, m, priv)
                       else (0, m, priv\<lparr>mem_index := mem_index priv + 1\<rparr>))"

definition dma_release :: "u32 \<Rightarrow> u64 \<Rightarrow> u64 \<Rightarrow> xp_dma_private \<Rightarrow> xp_dma_private option" where
  "dma_release len va dma priv =
     (if (ucast len, va, dma) \<in> set (dma_areas priv)
      then Some (priv\<lparr>dma_areas := remove1 (ucast len, va, dma) (dma_areas priv)\<rparr>) else None)"

text \<open>The loop of \<open>xp_dma_mem_free\<close> over the entries that are left; the ones it keeps come back in order.\<close>

fun mem_free_loop :: "u64 \<Rightarrow> xp_dma_private \<Rightarrow> xp_mem_list list \<Rightarrow> (xp_mem_list list \<times> xp_dma_private) option" where
  "mem_free_loop pa priv [] = Some ([], priv)"
| "mem_free_loop pa priv (e # es) =
     (if ml_paddr e = pa then
        do { priv \<leftarrow> dma_release (ml_len e) (ml_addr e) pa priv; mem_free_loop pa priv es }
      else
        do { (ks, priv) \<leftarrow> mem_free_loop pa priv es; Some (e # ks, priv) })"

definition xp_dma_mem_free ::
  "mem_env \<Rightarrow> umem \<Rightarrow> u64 \<Rightarrow> xp_dma_private \<Rightarrow> (rc \<times> xp_dma_private) option"
where
  "xp_dma_mem_free v m argp priv =
     (if \<not> kmalloc_user_ok v then Some (- ENOMEM, priv)
      else
        case copy_from_user m argp MEM_USER_SIZE of (rc, b) \<Rightarrow>
          if rc \<noteq> 0 then Some (int rc, priv)
          else
            do { (es, priv) \<leftarrow> mem_free_loop (mu_paddr (mem_user_of_bytes b)) priv (xp_mem_list_head priv);
                 Some (0, priv\<lparr>xp_mem_list_head := es\<rparr>) })"

fun mem_cleanup_loop :: "xp_dma_private \<Rightarrow> xp_mem_list list \<Rightarrow> xp_dma_private option" where
  "mem_cleanup_loop priv [] = Some (priv\<lparr>xp_mem_list_head := []\<rparr>)"
| "mem_cleanup_loop priv (e # es) =
     do { priv \<leftarrow> dma_release (ml_len e) (ml_addr e) (ml_paddr e) priv; mem_cleanup_loop priv es }"

definition xp_dma_mem_cleanup :: "xp_dma_private \<Rightarrow> (rc \<times> xp_dma_private) option" where
  "xp_dma_mem_cleanup priv =
     do { priv \<leftarrow> mem_cleanup_loop priv (xp_mem_list_head priv); Some (0, priv\<lparr>mem_index := 0\<rparr>) }"

text \<open>\<open>filp->private_data\<close> after opening and closing the device file.\<close>

definition xp_dma_open :: "xp_dma_private \<Rightarrow> rc \<times> xp_dma_private option" where
  "xp_dma_open cdev = (0, Some cdev)"

definition xp_dma_close :: "xp_dma_private option \<Rightarrow> rc \<times> xp_dma_private option" where
  "xp_dma_close private_data = (0, None)"

text \<open>
  \<open>mmap\<close>: an error, or the page frame and the length that \<open>remap_pfn_range\<close> is called with. The
  length is a \<open>long\<close>, the length of the entry an \<open>int\<close>.
\<close>

definition PAGE_SHIFT :: nat where "PAGE_SHIFT = 12"

definition mem_at_offset :: "xp_dma_private \<Rightarrow> u64 \<Rightarrow> u32 \<times> u64" where
  "mem_at_offset priv pgoff =
     (case find (\<lambda>e. ucast (ml_offset e) = pgoff) (xp_mem_list_head priv) of
        None \<Rightarrow> (0, 0)
      | Some e \<Rightarrow> (ml_len e, ml_addr e))"

definition xp_dma_mmap :: "(u64 \<Rightarrow> u64) \<Rightarrow> xp_dma_private \<Rightarrow> u64 \<Rightarrow> u64 \<Rightarrow> u64 \<Rightarrow> rc + (u64 \<times> u64)" where
  "xp_dma_mmap virt_to_phys priv vm_start vm_end vm_pgoff =
     (let len = vm_end - vm_start in
      if vm_pgoff \<ge> ucast (mem_index priv) then Inl (- EIO)
      else case mem_at_offset priv vm_pgoff of
        (mem_len, usr_addr) \<Rightarrow>
          if sint len > sint mem_len then Inl (- ENOMEM)
          else Inr (drop_bit PAGE_SHIFT (virt_to_phys usr_addr), len))"

definition xp_dma_ioctl ::
  "mem_env \<Rightarrow> umem \<Rightarrow> xp_dma_private \<Rightarrow> u32 \<Rightarrow> u64 \<Rightarrow> (rc \<times> umem \<times> xp_dma_private) option"
where
  "xp_dma_ioctl v m priv cmd argp =
     (if cmd = GET_DRIVER_VERSION then
        (case xp_driver_version_get m argp of (rc, m) \<Rightarrow> Some (int rc, m, priv))
      else if coherent_dma_mask priv = 0 then Some (- ENODEV, m, priv)
      else if cmd = PHY_MEM_ALLOC then Some (xp_dma_mem_access v m argp priv)
      else if cmd = PHY_MEM_FREE then do { (rc, priv) \<leftarrow> xp_dma_mem_free v m argp priv; Some (rc, m, priv) }
      else if cmd = DMA_CLEAN_UP then do { (rc, priv) \<leftarrow> xp_dma_mem_cleanup priv; Some (rc, m, priv) }
      else Some (- EINVAL, m, priv))"

definition xp_dma_compat_ioctl ::
  "mem_env \<Rightarrow> umem \<Rightarrow> xp_dma_private \<Rightarrow> u32 \<Rightarrow> u64 \<Rightarrow> (rc \<times> umem \<times> xp_dma_private) option"
where
  "xp_dma_compat_ioctl v m priv cmd argp =
     (if cmd = GET_DRIVER_VERSION then
        (case xp_driver_version_get m argp of (rc, m) \<Rightarrow> Some (int rc, m, priv))
      else if coherent_dma_mask priv = 0 then Some (- ENODEV, m, priv)
      else if cmd = PHY_MEM_ALLOC then Some (xp_dma_mem_access v m argp priv)
      else if cmd = PHY_MEM_FREE then do { (rc, priv) \<leftarrow> xp_dma_mem_free v m argp priv; Some (rc, m, priv) }
      else if cmd = DMA_CLEAN_UP then do { (rc, priv) \<leftarrow> xp_dma_mem_cleanup priv; Some (rc, m, priv) }
      else Some (- EINVAL, m, priv))"

subsection \<open>The invariant\<close>

definition area_of :: "xp_mem_list \<Rightarrow> u64 \<times> u64 \<times> u64" where
  "area_of e = (ucast (ml_len e), ml_addr e, ml_paddr e)"

definition dma_wf :: "xp_dma_private \<Rightarrow> bool" where
  "dma_wf priv \<longleftrightarrow>
     mset (dma_areas priv) = mset (map area_of (xp_mem_list_head priv)) \<and>
     distinct (map ml_paddr (xp_mem_list_head priv)) \<and>
     distinct (map ml_offset (xp_mem_list_head priv)) \<and>
     (\<forall>e \<in> set (xp_mem_list_head priv). ml_offset e < mem_index priv)"

text \<open>
  What the kernel documents of \<open>dma_alloc_coherent\<close>: the DMA address it returns belongs to no area
  that is still allocated.
\<close>

definition alloc_fresh :: "mem_env \<Rightarrow> xp_dma_private \<Rightarrow> bool" where
  "alloc_fresh v priv \<longleftrightarrow> (\<forall>mem dma. dma_result v = Some (mem, dma) \<longrightarrow> dma \<notin> (snd \<circ> snd) ` set (dma_areas priv))"

definition asked_len :: "umem \<Rightarrow> u64 \<Rightarrow> u32" where
  "asked_len m argp = mu_len (mem_user_of_bytes (ubytes m argp MEM_USER_SIZE))"

lemma mem_user_roundtrip [simp]: "mem_user_of_bytes (mem_user_bytes u) = u"
  by (simp add: mem_user_of_bytes_def mem_user_bytes_def)

lemma length_mem_user_bytes [simp]: "length (mem_user_bytes u) = MEM_USER_SIZE"
  by (simp add: mem_user_bytes_def MEM_USER_SIZE_def)

subsection \<open>Rounding\<close>

lemma unat_mem_area: "unat (mem_area len) = (unat len + 4095) div 4096 * 4096"
proof -
  have l: "unat len < 2 ^ 32"
    using unsigned_less [of len] by simp
  have m: "of_nat PAGE_SIZE - 1 = (mask 12 :: u64)"
    by (simp add: PAGE_SIZE_def mask_eq_exp_minus_1)
  have "mem_area len = (ucast len + 4095) AND NOT (mask 12)"
    unfolding mem_area_def m [symmetric] by (simp add: PAGE_SIZE_def algebra_simps)
  also have "\<dots> = push_bit 12 (drop_bit 12 (ucast len + 4095))"
    by (rule bit_word_eqI) (auto simp: bit_and_iff bit_not_iff bit_mask_iff bit_push_bit_iff bit_drop_bit_eq)
  also have "unat \<dots> = unat (ucast len + 4095 :: u64) div 4096 * 4096"
  proof -
    let ?x = "ucast len + 4095 :: u64"
    have "unat ?x div 4096 * 4096 < 2 ^ 64"
      by (rule le_less_trans [OF div_times_less_eq_dividend]) (use unsigned_less [of ?x] in simp)
    then show ?thesis
      by (simp add: push_bit_eq_mult drop_bit_eq_div unat_word_ariths unat_div_distrib)
  qed
  also have "unat (ucast len + 4095 :: u64) = unat len + 4095"
    using l by (simp add: unat_word_ariths unsigned_ucast_eq take_bit_nat_eq_self)
  finally show ?thesis .
qed

lemma mem_area_fits: "unat len \<le> 0xFFFFF000 \<Longrightarrow> (ucast (ucast (mem_area len) :: u32) :: u64) = mem_area len"
  using unat_mem_area [of len] div_times_less_eq_dividend [of "unat len + 4095" 4096]
  by (simp add: word_unat_eq_iff unsigned_ucast_eq unsigned_take_bit_eq take_bit_nat_eq_self)

lemma mem_area_len: "unat len \<le> 0xFFFFF000 \<Longrightarrow> unat (ucast (mem_area len) :: u32) = (unat len + 4095) div 4096 * 4096"
  using unat_mem_area [of len] div_times_less_eq_dividend [of "unat len + 4095" 4096]
  by (simp add: unsigned_ucast_eq unsigned_take_bit_eq take_bit_nat_eq_self)

subsection \<open>Allocation\<close>

definition new_entry :: "xp_dma_private \<Rightarrow> u32 \<Rightarrow> u64 \<Rightarrow> u64 \<Rightarrow> xp_mem_list" where
  "new_entry priv len mem dma = \<lparr>ml_addr = mem, ml_paddr = dma, ml_len = ucast (mem_area len), ml_offset = mem_index priv\<rparr>"

definition with_entry :: "xp_dma_private \<Rightarrow> u32 \<Rightarrow> u64 \<Rightarrow> u64 \<Rightarrow> xp_dma_private" where
  "with_entry priv len mem dma =
     priv\<lparr>dma_areas := (mem_area len, mem, dma) # dma_areas priv,
          xp_mem_list_head := xp_mem_list_head priv @ [new_entry priv len mem dma]\<rparr>"

lemma mem_access_ok:
  assumes "kmalloc_user_ok v" "kmalloc_list_ok v" "dma_result v = Some (mem, dma)" "writable m argp MEM_USER_SIZE"
  shows "\<exists>m'. xp_dma_mem_access v m argp priv =
      (0, m', (with_entry priv (asked_len m argp) mem dma)\<lparr>mem_index := mem_index priv + 1\<rparr>) \<and>
    mem_user_of_bytes (ubytes m' argp MEM_USER_SIZE) =
      \<lparr>mu_addr = mem, mu_paddr = dma, mu_len = ucast (mem_area (asked_len m argp)), mu_offset = mem_index priv * 4096\<rparr> \<and>
    can_write m' = can_write m"
proof -
  let ?u = "\<lparr>mu_addr = mem, mu_paddr = dma, mu_len = ucast (mem_area (asked_len m argp)), mu_offset = mem_index priv * 4096\<rparr>"
  obtain m' where m': "copy_to_user m argp (mem_user_bytes ?u) = (0, m')"
      "ubytes m' argp MEM_USER_SIZE = mem_user_bytes ?u" "can_write m' = can_write m"
    using copy_to_user_ok [of m argp "mem_user_bytes ?u"] assms(4) by (auto simp: MEM_USER_SIZE_def)
  show ?thesis
    using assms m' copy_from_user_ok [OF writable_readable [OF assms(4)]]
    by (simp add: xp_dma_mem_access_def Let_def with_entry_def new_entry_def asked_len_def PAGE_SIZE_def)
qed

lemma dma_wf_areas: "dma_wf priv \<Longrightarrow> set (dma_areas priv) = area_of ` set (xp_mem_list_head priv)"
  unfolding dma_wf_def by (metis set_map set_mset_mset)

lemma dma_wf_add:
  assumes "dma_wf priv" "alloc_fresh v priv" "dma_result v = Some (mem, dma)" "unat len \<le> 0xFFFFF000"
    "unat (mem_index priv) < 2 ^ 32 - 1"
  shows "dma_wf ((with_entry priv len mem dma)\<lparr>mem_index := mem_index priv + 1\<rparr>)"
proof -
  have fresh: "dma \<notin> ml_paddr ` set (xp_mem_list_head priv)"
    using assms(2,3) dma_wf_areas [OF assms(1)] by (auto simp: alloc_fresh_def area_of_def image_iff)
  have "unat (mem_index priv + 1) = Suc (unat (mem_index priv))"
    using assms(5) by (simp add: unat_word_ariths)
  then have below: "i < mem_index priv + 1" if "i \<le> mem_index priv" for i
    using that by (simp add: word_less_nat_alt word_le_nat_alt)
  show ?thesis
    using assms(1,4) fresh below
    by (auto simp: dma_wf_def with_entry_def new_entry_def area_of_def mem_area_fits image_iff less_imp_le)
qed

subsection \<open>Release\<close>

lemma dma_release_ok:
  assumes "mset (dma_areas priv) = add_mset (area_of e) R"
  shows "\<exists>xs. dma_release (ml_len e) (ml_addr e) (ml_paddr e) priv = Some (priv\<lparr>dma_areas := xs\<rparr>) \<and> mset xs = R"
proof -
  have "area_of e \<in> set (dma_areas priv)"
    using assms by (metis add_mset_remove_trivial_eq set_mset_mset union_single_eq_member add_mset_add_single)
  then show ?thesis
    using assms by (intro exI [of _ "remove1 (area_of e) (dma_areas priv)"]) (simp add: dma_release_def area_of_def)
qed

lemma mem_free_loop_ok:
  assumes "mset (dma_areas priv) = mset (map area_of es) + R"
  shows "\<exists>xs. mem_free_loop pa priv es = Some (filter (\<lambda>e. ml_paddr e \<noteq> pa) es, priv\<lparr>dma_areas := xs\<rparr>) \<and>
    mset xs = mset (map area_of (filter (\<lambda>e. ml_paddr e \<noteq> pa) es)) + R"
  using assms
proof (induction es arbitrary: priv R)
  case Nil
  then show ?case
    by (auto intro: exI [of _ "dma_areas priv"])
next
  case (Cons e es)
  show ?case
  proof (cases "ml_paddr e = pa")
    case True
    obtain xs where xs: "dma_release (ml_len e) (ml_addr e) (ml_paddr e) priv = Some (priv\<lparr>dma_areas := xs\<rparr>)"
        "mset xs = mset (map area_of es) + R"
      using dma_release_ok [of priv e "mset (map area_of es) + R"] Cons.prems by auto
    then show ?thesis
      using True Cons.IH [of "priv\<lparr>dma_areas := xs\<rparr>" R] by auto
  next
    case False
    obtain xs where "mem_free_loop pa priv es = Some (filter (\<lambda>e. ml_paddr e \<noteq> pa) es, priv\<lparr>dma_areas := xs\<rparr>)"
        "mset xs = mset (map area_of (filter (\<lambda>e. ml_paddr e \<noteq> pa) es)) + add_mset (area_of e) R"
      using Cons.IH [of priv "add_mset (area_of e) R"] Cons.prems by auto
    then show ?thesis
      using False by auto
  qed
qed

lemma mem_cleanup_loop_ok:
  assumes "mset (dma_areas priv) = mset (map area_of es) + R"
  shows "\<exists>xs. mem_cleanup_loop priv es = Some (priv\<lparr>dma_areas := xs, xp_mem_list_head := []\<rparr>) \<and> mset xs = R"
  using assms
proof (induction es arbitrary: priv)
  case Nil
  then show ?case
    by (auto intro: exI [of _ "dma_areas priv"])
next
  case (Cons e es)
  obtain xs where "dma_release (ml_len e) (ml_addr e) (ml_paddr e) priv = Some (priv\<lparr>dma_areas := xs\<rparr>)"
      "mset xs = mset (map area_of es) + R"
    using dma_release_ok [of priv e "mset (map area_of es) + R"] Cons.prems by auto
  then show ?case
    using Cons.IH [of "priv\<lparr>dma_areas := xs\<rparr>"] by simp
qed

lemma mem_free_ok:
  assumes "dma_wf priv" "kmalloc_user_ok v" "readable m argp MEM_USER_SIZE"
  shows "\<exists>priv'. xp_dma_mem_free v m argp priv = Some (0, priv') \<and> dma_wf priv' \<and>
    xp_mem_list_head priv' =
      filter (\<lambda>e. ml_paddr e \<noteq> mu_paddr (mem_user_of_bytes (ubytes m argp MEM_USER_SIZE))) (xp_mem_list_head priv) \<and>
    mem_index priv' = mem_index priv \<and> coherent_dma_mask priv' = coherent_dma_mask priv"
proof -
  let ?pa = "mu_paddr (mem_user_of_bytes (ubytes m argp MEM_USER_SIZE))"
  let ?es = "filter (\<lambda>e. ml_paddr e \<noteq> ?pa) (xp_mem_list_head priv)"
  obtain xs where "mem_free_loop ?pa priv (xp_mem_list_head priv) = Some (?es, priv\<lparr>dma_areas := xs\<rparr>)"
      "mset xs = mset (map area_of ?es)"
    using mem_free_loop_ok [of priv "xp_mem_list_head priv" "{#}" ?pa] assms(1) by (auto simp: dma_wf_def)
  then show ?thesis
    using assms copy_from_user_ok [OF assms(3)]
    by (simp add: xp_dma_mem_free_def dma_wf_def distinct_map_filter)
qed

lemma mem_cleanup_ok:
  assumes "mset (dma_areas priv) = mset (map area_of (xp_mem_list_head priv)) + R"
  shows "\<exists>xs. xp_dma_mem_cleanup priv = Some (0, priv\<lparr>dma_areas := xs, xp_mem_list_head := [], mem_index := 0\<rparr>) \<and> mset xs = R"
  using mem_cleanup_loop_ok [OF assms] by (auto simp: xp_dma_mem_cleanup_def)

subsection \<open>Mapping\<close>

text \<open>The first entry with an offset decides; under the invariant it is the only one.\<close>

lemma mem_at_offset_first:
  assumes "xp_mem_list_head priv = es @ e # fs" "ml_offset e \<notin> ml_offset ` set es"
  shows "mem_at_offset priv (ucast (ml_offset e)) = (ml_len e, ml_addr e)"
proof -
  have eq: "(ucast (ml_offset x) = (ucast (ml_offset e) :: u64)) = (ml_offset x = ml_offset e)" for x
    by (auto simp: word_unat_eq_iff unsigned_ucast_eq take_bit_nat_eq_self [OF less_trans [OF unsigned_less]])
  have "find (\<lambda>x. ml_offset x = ml_offset e) (es @ e # fs) = Some e"
    using assms(2) by (induction es) auto
  then show ?thesis
    by (simp add: mem_at_offset_def eq assms(1))
qed

lemma dma_wf_index_new: "dma_wf priv \<Longrightarrow> mem_index priv \<notin> ml_offset ` set (xp_mem_list_head priv)"
  by (auto simp: dma_wf_def)

lemma with_entry_at:
  assumes "mem_index priv \<notin> ml_offset ` set (xp_mem_list_head priv)"
  shows "mem_at_offset ((with_entry priv len mem dma)\<lparr>mem_index := i\<rparr>) (ucast (mem_index priv)) = (ucast (mem_area len), mem)"
proof -
  let ?e = "new_entry priv len mem dma"
  have "mem_at_offset ((with_entry priv len mem dma)\<lparr>mem_index := i\<rparr>) (ucast (ml_offset ?e)) = (ml_len ?e, ml_addr ?e)"
    by (rule mem_at_offset_first [of _ "xp_mem_list_head priv" _ "[]"]) (use assms in \<open>simp_all add: with_entry_def new_entry_def\<close>)
  then show ?thesis
    by (simp add: new_entry_def)
qed

lemma mmap_at:
  assumes "mem_at_offset priv off = (len, mem)" "off < ucast (mem_index priv)"
    "unat len < 2 ^ 31" "unat (vm_end - vm_start) \<le> unat len"
  shows "xp_dma_mmap virt_to_phys priv vm_start vm_end off = Inr (drop_bit PAGE_SHIFT (virt_to_phys mem), vm_end - vm_start)"
proof -
  have "sint len = int (unat len)"
    using assms(3) by (intro sint_nonneg) simp
  moreover have "sint (vm_end - vm_start) = int (unat (vm_end - vm_start))"
    using assms(3,4) by (intro sint_nonneg) simp
  ultimately have "\<not> sint len < sint (vm_end - vm_start)"
    using assms(4) by (simp only: of_nat_less_iff not_less)
  then show ?thesis
    using assms(1,2) by (simp add: xp_dma_mmap_def Let_def not_le)
qed

text \<open>The offset handed to user space comes back through \<open>mmap\<close> as the index it was made from.\<close>

lemma offset_index: "unat i < 2 ^ 20 \<Longrightarrow> drop_bit 12 (i * 4096 :: u32) = i"
  by (simp add: word_unat_eq_iff unat_drop_bit_eq drop_bit_eq_div unat_word_ariths)

lemma dma_ioctl_cmds [simp]:
  "PHY_MEM_ALLOC \<noteq> GET_DRIVER_VERSION" "PHY_MEM_FREE \<noteq> GET_DRIVER_VERSION" "PHY_MEM_FREE \<noteq> PHY_MEM_ALLOC"
  "DMA_CLEAN_UP \<noteq> GET_DRIVER_VERSION" "DMA_CLEAN_UP \<noteq> PHY_MEM_ALLOC" "DMA_CLEAN_UP \<noteq> PHY_MEM_FREE"
  using ioctl_cmds_distinct by auto

subsection \<open>A concrete device\<close>

text \<open>One area is allocated; the caller's structure at \<open>0x1000\<close> asks for 5000 bytes.\<close>

definition sample_mem_dev :: xp_dma_private where
  "sample_mem_dev =
     \<lparr>mem_index = 1, coherent_dma_mask = 0xFFFFFFFF,
      xp_mem_list_head = [\<lparr>ml_addr = 0x100000, ml_paddr = 0x200000, ml_len = 4096, ml_offset = 0\<rparr>],
      dma_areas = [(4096, 0x100000, 0x200000)]\<rparr>"

definition sample_umem :: "bool \<Rightarrow> umem" where
  "sample_umem w = (\<lambda>a. Some (if a = 0x1010 then 0x88 else if a = 0x1011 then 0x13 else 0, w))"

definition sample_env :: "bool \<Rightarrow> u64 \<Rightarrow> u64 \<Rightarrow> mem_env" where
  "sample_env ok mem dma = \<lparr>kmalloc_user_ok = True, dma_result = Some (mem, dma), kmalloc_list_ok = ok\<rparr>"

lemma sample_mem_dev_wf: "dma_wf sample_mem_dev"
  by (simp add: dma_wf_def sample_mem_dev_def area_of_def)

lemma sample_mem_dev_fields:
  "coherent_dma_mask sample_mem_dev = 0xFFFFFFFF" "mem_index sample_mem_dev = 1" "dma_areas sample_mem_dev = [(4096, 0x100000, 0x200000)]"
  "xp_mem_list_head sample_mem_dev = [\<lparr>ml_addr = 0x100000, ml_paddr = 0x200000, ml_len = 4096, ml_offset = 0\<rparr>]"
  by (simp_all add: sample_mem_dev_def)

lemma sample_env_fields [simp]:
  "kmalloc_user_ok (sample_env ok mem dma)" "kmalloc_list_ok (sample_env ok mem dma) = ok"
  "dma_result (sample_env ok mem dma) = Some (mem, dma)"
  by (simp_all add: sample_env_def)

lemma sample_fresh: "dma \<noteq> 0x200000 \<Longrightarrow> alloc_fresh (sample_env ok mem dma) sample_mem_dev"
  by (simp add: alloc_fresh_def sample_mem_dev_fields)

lemma sample_readable [simp]: "readable (sample_umem w) a n"
  by (simp add: readable_def sample_umem_def)

lemma sample_writable [simp]: "writable (sample_umem w) a n \<longleftrightarrow> w \<or> n = 0"
  by (auto simp: writable_def can_write_def sample_umem_def)

lemma sample_len [simp]: "asked_len (sample_umem w) 0x1000 = 5000"
  unfolding asked_len_def sample_umem_def by (cases w) code_simp+

subsection \<open>Properties\<close>

text \<open>
  C14: Asking for DMA memory succeeds when the kernel has it: the caller finds the addresses
  and the length, rounded up to pages, in its structure, the invariant holds again, and mapping
  at most that length at the offset it was given maps exactly the new memory.
\<close>

theorem dma_alloc_then_mmap:
  assumes "dma_wf priv" "alloc_fresh v priv" "coherent_dma_mask priv \<noteq> 0" "kmalloc_user_ok v" "kmalloc_list_ok v"
    "dma_result v = Some (mem, dma)" "writable m argp MEM_USER_SIZE" "unat (asked_len m argp) \<le> 0x7FFFF000"
    "unat (mem_index priv) < 2 ^ 20"
  shows "\<exists>m' priv' u. xp_dma_ioctl v m priv PHY_MEM_ALLOC argp = Some (0, m', priv') \<and> dma_wf priv' \<and>
    u = mem_user_of_bytes (ubytes m' argp MEM_USER_SIZE) \<and> mu_addr u = mem \<and> mu_paddr u = dma \<and>
    unat (mu_len u) = (unat (asked_len m argp) + 4095) div 4096 * 4096 \<and>
    (\<forall>vm_start vm_end. unat (vm_end - vm_start) \<le> unat (mu_len u) \<longrightarrow>
       xp_dma_mmap virt_to_phys priv' vm_start vm_end (ucast (drop_bit 12 (mu_offset u))) =
         Inr (drop_bit PAGE_SHIFT (virt_to_phys mem), vm_end - vm_start))"
proof -
  let ?n = "asked_len m argp" and ?i = "mem_index priv"
  let ?priv' = "(with_entry priv ?n mem dma)\<lparr>mem_index := ?i + 1\<rparr>"
  obtain m' where acc: "xp_dma_mem_access v m argp priv = (0, m', ?priv')"
      "mem_user_of_bytes (ubytes m' argp MEM_USER_SIZE) =
        \<lparr>mu_addr = mem, mu_paddr = dma, mu_len = ucast (mem_area ?n), mu_offset = ?i * 4096\<rparr>"
    using mem_access_ok [OF assms(4,5,6,7), of priv] by blast
  have wf: "dma_wf ?priv'"
    using assms by (intro dma_wf_add [of _ v]) auto
  have len: "unat (ucast (mem_area ?n) :: u32) = (unat ?n + 4095) div 4096 * 4096"
    using assms(8) by (intro mem_area_len) simp
  have at: "mem_at_offset ?priv' (ucast ?i) = (ucast (mem_area ?n), mem)"
    using with_entry_at [OF dma_wf_index_new [OF assms(1)], where len = ?n and mem = mem and dma = dma] by simp
  have idx: "ucast ?i < (ucast (mem_index ?priv') :: u64)"
    using assms(9) by (simp add: word_less_nat_alt unsigned_ucast_eq unat_word_ariths take_bit_nat_eq_self)
  have "unat (ucast (mem_area ?n) :: u32) < 2 ^ 31"
    unfolding len using assms(8) div_times_less_eq_dividend [of "unat ?n + 4095" 4096] by simp
  note map = mmap_at [OF at idx this]
  have "xp_dma_ioctl v m priv PHY_MEM_ALLOC argp = Some (0, m', ?priv')"
    using assms(3) acc(1) by (simp add: xp_dma_ioctl_def)
  then show ?thesis
    using wf acc(2) len map offset_index [OF assms(9)] by auto
qed

theorem dma_alloc_then_mmap_witness:
  "\<exists>m' priv'. xp_dma_ioctl (sample_env True 0x300000 0x400000) (sample_umem True) sample_mem_dev PHY_MEM_ALLOC 0x1000 =
      Some (0, m', priv') \<and> dma_wf priv' \<and>
    (\<exists>off. xp_dma_mmap (\<lambda>a. a) priv' 0x7000 0x9000 off = Inr (0x300, 0x2000))"
proof -
  let ?v = "sample_env True 0x300000 0x400000" and ?m = "sample_umem True"
  have pre: "alloc_fresh ?v sample_mem_dev" "coherent_dma_mask sample_mem_dev \<noteq> 0" "kmalloc_user_ok ?v" "kmalloc_list_ok ?v"
      "dma_result ?v = Some (0x300000, 0x400000)" "writable ?m 0x1000 MEM_USER_SIZE" "unat (asked_len ?m 0x1000) \<le> 0x7FFFF000"
      "unat (mem_index sample_mem_dev) < 2 ^ 20"
    by (simp_all add: sample_mem_dev_fields sample_fresh)
  obtain m' priv' and u :: xp_mem_user where r: "xp_dma_ioctl ?v ?m sample_mem_dev PHY_MEM_ALLOC 0x1000 = Some (0, m', priv')" "dma_wf priv'"
        "unat (mu_len u) = (unat (asked_len ?m 0x1000) + 4095) div 4096 * 4096"
      and map: "\<forall>vm_start vm_end. unat (vm_end - vm_start) \<le> unat (mu_len u) \<longrightarrow>
        xp_dma_mmap (\<lambda>a. a) priv' vm_start vm_end (ucast (drop_bit 12 (mu_offset u))) =
          Inr (drop_bit PAGE_SHIFT 0x300000, vm_end - vm_start)"
    using dma_alloc_then_mmap [OF sample_mem_dev_wf pre, of "\<lambda>a. a"] by blast
  have "xp_dma_mmap (\<lambda>a. a) priv' 0x7000 0x9000 (ucast (drop_bit 12 (mu_offset u))) = Inr (0x300, 0x2000)"
    using map [rule_format, of "0x9000" "0x7000"] r(3) by (simp add: PAGE_SHIFT_def drop_bit_eq_div)
  then show ?thesis
    using r(1,2) by blast
qed

text \<open>
  C15: Giving the memory back with the structure that the allocation filled in restores the
  driver's list, and the allocator has the same areas as before.
\<close>

theorem dma_free_undoes_alloc:
  assumes "dma_wf priv" "alloc_fresh v priv" "coherent_dma_mask priv \<noteq> 0" "kmalloc_user_ok v" "kmalloc_list_ok v"
    "dma_result v = Some (mem, dma)" "writable m argp MEM_USER_SIZE" "unat (asked_len m argp) \<le> 0xFFFFF000"
    "unat (mem_index priv) < 2 ^ 32 - 1" "kmalloc_user_ok v'"
    "xp_dma_ioctl v m priv PHY_MEM_ALLOC argp = Some (rc, m', priv')"
  shows "rc = 0 \<and> (\<exists>priv''. xp_dma_ioctl v' m' priv' PHY_MEM_FREE argp = Some (0, m', priv'') \<and> dma_wf priv'' \<and>
    xp_mem_list_head priv'' = xp_mem_list_head priv \<and> mset (dma_areas priv'') = mset (dma_areas priv))"
proof -
  obtain m1 where acc: "xp_dma_mem_access v m argp priv =
        (0, m1, (with_entry priv (asked_len m argp) mem dma)\<lparr>mem_index := mem_index priv + 1\<rparr>)"
      "mu_paddr (mem_user_of_bytes (ubytes m1 argp MEM_USER_SIZE)) = dma" "can_write m1 = can_write m"
    using mem_access_ok [OF assms(4,5,6,7), of priv] by auto
  then have eq: "rc = 0" "m' = m1" "priv' = (with_entry priv (asked_len m argp) mem dma)\<lparr>mem_index := mem_index priv + 1\<rparr>"
    using assms(3,11) by (simp_all add: xp_dma_ioctl_def)
  have wf: "dma_wf priv'"
    unfolding eq using assms by (intro dma_wf_add [of _ v]) auto
  have "readable m' argp MEM_USER_SIZE"
    using assms(7) acc(3) eq(2) by (intro writable_readable) (simp add: writable_def)
  note free = mem_free_ok [OF wf assms(10) this]
  have "filter (\<lambda>e. ml_paddr e \<noteq> dma) (xp_mem_list_head priv') = xp_mem_list_head priv"
    using assms(2,6) dma_wf_areas [OF assms(1)]
    by (auto simp: eq with_entry_def new_entry_def alloc_fresh_def area_of_def image_iff intro!: filter_True)
  then show ?thesis
    using free acc(2) assms(1,3) by (auto simp: eq xp_dma_ioctl_def with_entry_def dma_wf_def)
qed

theorem dma_free_undoes_alloc_witness:
  "\<exists>m' priv' priv''. xp_dma_ioctl (sample_env True 0x300000 0x400000) (sample_umem True) sample_mem_dev PHY_MEM_ALLOC 0x1000 =
      Some (0, m', priv') \<and>
    xp_dma_ioctl (sample_env True 0 0) m' priv' PHY_MEM_FREE 0x1000 = Some (0, m', priv'') \<and>
    xp_mem_list_head priv'' = xp_mem_list_head sample_mem_dev"
proof -
  obtain rc m' priv' where "xp_dma_ioctl (sample_env True 0x300000 0x400000) (sample_umem True) sample_mem_dev PHY_MEM_ALLOC 0x1000 =
      Some (rc, m', priv')"
    by (cases "xp_dma_mem_access (sample_env True 0x300000 0x400000) (sample_umem True) 0x1000 sample_mem_dev")
      (simp add: xp_dma_ioctl_def sample_mem_dev_fields)
  then show ?thesis
    using dma_free_undoes_alloc [OF sample_mem_dev_wf sample_fresh, of "0x400000" True "0x300000" "0x300000" "0x400000" "sample_umem True"
        "0x1000" "sample_env True 0 0" rc m' priv']
    by (auto simp: sample_mem_dev_fields)
qed



text \<open>
  When the memory for the driver's own list entry is not available, the request fails but
  the DMA memory stays allocated: the list does not know it, and even the clean-up request
  leaves it behind.
\<close>

lemma dma_alloc_failure_leaks:
  assumes "dma_wf priv" "coherent_dma_mask priv \<noteq> 0" "kmalloc_user_ok v" "\<not> kmalloc_list_ok v"
    "dma_result v = Some (mem, dma)" "readable m argp MEM_USER_SIZE"
  shows "\<exists>priv' priv''. xp_dma_ioctl v m priv PHY_MEM_ALLOC argp = Some (- ENOMEM, m, priv') \<and>
    xp_mem_list_head priv' = xp_mem_list_head priv \<and>
    xp_dma_ioctl v m priv' DMA_CLEAN_UP argp = Some (0, m, priv'') \<and>
    dma_areas priv'' = [(mem_area (asked_len m argp), mem, dma)]"
proof -
  let ?a = "(mem_area (asked_len m argp), mem, dma)"
  let ?priv' = "priv\<lparr>dma_areas := ?a # dma_areas priv\<rparr>"
  have "xp_dma_ioctl v m priv PHY_MEM_ALLOC argp = Some (- ENOMEM, m, ?priv')"
    using assms copy_from_user_ok [OF assms(6)] by (simp add: xp_dma_ioctl_def xp_dma_mem_access_def asked_len_def Let_def)
  moreover obtain xs where "xp_dma_mem_cleanup ?priv' = Some (0, ?priv'\<lparr>dma_areas := xs, xp_mem_list_head := [], mem_index := 0\<rparr>)"
      "mset xs = {#?a#}"
    using mem_cleanup_ok [of ?priv' "{#?a#}"] assms(1) by (auto simp: dma_wf_def)
  ultimately show ?thesis
    using assms(2) by (auto simp: xp_dma_ioctl_def)
qed

text \<open>
  When the result cannot be copied out, the entry stays in the list but its index is used
  again: the next caller gets the addresses of its own memory, and its offset maps the memory
  of the failed request.
\<close>

lemma dma_copyout_failure_aliases:
  assumes "dma_wf priv" "coherent_dma_mask priv \<noteq> 0" "kmalloc_user_ok v1" "kmalloc_list_ok v1"
    "dma_result v1 = Some (mem1, dma1)" "readable m1 argp1 MEM_USER_SIZE" "\<not> writable m1 argp1 MEM_USER_SIZE"
    "kmalloc_user_ok v2" "kmalloc_list_ok v2" "dma_result v2 = Some (mem2, dma2)" "writable m2 argp2 MEM_USER_SIZE"
    "unat (asked_len m1 argp1) \<le> 0x7FFFF000" "unat (mem_index priv) < 2 ^ 20"
    "unat (vm_end - vm_start) \<le> unat (asked_len m1 argp1)"
  shows "\<exists>rc m1' priv1 m2' priv2 u. xp_dma_ioctl v1 m1 priv PHY_MEM_ALLOC argp1 = Some (rc, m1', priv1) \<and> rc \<noteq> 0 \<and>
    xp_dma_ioctl v2 m2 priv1 PHY_MEM_ALLOC argp2 = Some (0, m2', priv2) \<and>
    u = mem_user_of_bytes (ubytes m2' argp2 MEM_USER_SIZE) \<and> mu_addr u = mem2 \<and>
    xp_dma_mmap virt_to_phys priv2 vm_start vm_end (ucast (drop_bit 12 (mu_offset u))) =
      Inr (drop_bit PAGE_SHIFT (virt_to_phys mem1), vm_end - vm_start)"
proof -
  let ?n1 = "asked_len m1 argp1" and ?n2 = "asked_len m2 argp2" and ?i = "mem_index priv"
  let ?p1 = "with_entry priv ?n1 mem1 dma1"
  let ?p2 = "(with_entry ?p1 ?n2 mem2 dma2)\<lparr>mem_index := ?i + 1\<rparr>"
  let ?u = "\<lparr>mu_addr = mem1, mu_paddr = dma1, mu_len = ucast (mem_area ?n1), mu_offset = ?i * 4096\<rparr>"
  obtain rc m1' where c: "copy_to_user m1 argp1 (mem_user_bytes ?u) = (rc, m1')" "rc \<noteq> 0"
    using copy_to_user_zero [of m1 argp1 "mem_user_bytes ?u"] assms(7) by (cases "copy_to_user m1 argp1 (mem_user_bytes ?u)") auto
  have one: "xp_dma_ioctl v1 m1 priv PHY_MEM_ALLOC argp1 = Some (int rc, m1', ?p1)"
    using assms(2-5) c copy_from_user_ok [OF assms(6)]
    by (simp add: xp_dma_ioctl_def xp_dma_mem_access_def Let_def with_entry_def new_entry_def asked_len_def PAGE_SIZE_def)
  obtain m2' where two: "xp_dma_ioctl v2 m2 ?p1 PHY_MEM_ALLOC argp2 = Some (0, m2', ?p2)"
      "mem_user_of_bytes (ubytes m2' argp2 MEM_USER_SIZE) =
        \<lparr>mu_addr = mem2, mu_paddr = dma2, mu_len = ucast (mem_area ?n2), mu_offset = ?i * 4096\<rparr>"
    using mem_access_ok [OF assms(8-11), of ?p1] assms(2) by (auto simp: xp_dma_ioctl_def with_entry_def)
  have "mem_at_offset ?p2 (ucast (ml_offset (new_entry priv ?n1 mem1 dma1))) =
      (ml_len (new_entry priv ?n1 mem1 dma1), ml_addr (new_entry priv ?n1 mem1 dma1))"
    using dma_wf_index_new [OF assms(1)]
    by (intro mem_at_offset_first [of _ "xp_mem_list_head priv" _ "[new_entry ?p1 ?n2 mem2 dma2]"])
      (simp_all add: with_entry_def new_entry_def)
  then have at: "mem_at_offset ?p2 (ucast ?i) = (ucast (mem_area ?n1), mem1)"
    by (simp add: new_entry_def)
  have len: "unat (ucast (mem_area ?n1) :: u32) = (unat ?n1 + 4095) div 4096 * 4096"
    using assms(12) by (intro mem_area_len) simp
  have b: "ucast ?i < (ucast (mem_index ?p2) :: u64)"
    using assms(13) by (simp add: word_less_nat_alt unsigned_ucast_eq unat_word_ariths take_bit_nat_eq_self)
  have l: "unat (ucast (mem_area ?n1) :: u32) < 2 ^ 31"
    unfolding len using assms(12) div_times_less_eq_dividend [of "unat ?n1 + 4095" 4096] by simp
  have v: "unat (vm_end - vm_start) \<le> unat (ucast (mem_area ?n1) :: u32)"
    unfolding len using assms(14) by linarith
  show ?thesis
    using one two c(2) mmap_at [OF at b l v] offset_index [OF assms(13)] by auto
qed

end
