(* ===== verification/Control_Props.thy ===== *)
theory Control_Props
  imports Netlink_Msg
begin

text \<open>
  Properties of the control plane: the invariant of every reachable state, the refinement of the
  message handlers to an abstract table of interfaces, the encoding of messages, the routing
  table, and two faults the model shows.
\<close>

text \<open>What each message does to the table of interfaces, by interface id.\<close>

fun spec_msg :: "bool \<Rightarrow> nl_msg \<Rightarrow> (u32 \<rightharpoonup> xp_netdev_priv) \<Rightarrow> (u32 \<rightharpoonup> xp_netdev_priv)" where
  "spec_msg reg (XP_NL_MSG_INTF_ADD m) A = spec_create reg (im_intf_id m) A"
| "spec_msg reg (XP_NL_MSG_INTF_DEL m) A = A(im_intf_id m := None)"
| "spec_msg reg (XP_NL_MSG_LINK_ADD m) A = spec_link (lm_intf_id m) (lm_vif m) A"
| "spec_msg reg (XP_NL_MSG_LINK_DEL m) A = spec_update (lm_intf_id m) (\<lambda>e. e\<lparr>vif := XP_NO_VIF\<rparr>) A"
| "spec_msg reg (XP_NL_MSG_TX_HDR_SET m) A = spec_update (hm_intf_id m) (set_header m) A"
| "spec_msg reg (XP_NL_MSG_TRAP_SET m) A = A"
| "spec_msg reg (XP_NL_MSG_CB_FD_SET m) A = A"
| "spec_msg reg (XP_NL_MSG_MIRROR_SET m) A = A"

subsection \<open>Concrete states\<close>

text \<open>The state after set-up, and with interface 1 created and linked to port 5 or not linked.\<close>

definition sample_intf :: xp_intf where
  "sample_intf =
     \<lparr>xp_netdev_list = [], nd_heap = Map.empty, htable = (\<lambda>_. []), list_lock = False, netlink_mutex = False, irqs_on = True,
      trap_table = snd (xp_trap_init True), cb_sock_ptr = Some 7, packet_mirroring_enable = False, nd_next = 0,
      alloc_ok = (\<lambda>_. True), register_ok = (\<lambda>_. True), kmalloc_ok = True, skb_ok = (\<lambda>_. True), skb_calls = 0,
      sockfd_lookup = (\<lambda>_. (None, - 9)), events = []\<rparr>"

definition sample_intf1 :: xp_intf where
  "sample_intf1 = sample_intf\<lparr>xp_netdev_list := [0], nd_heap := [0 \<mapsto> fresh_intf 1], nd_next := 1\<rparr>"

lemma sample_intf_reach: "nl_reach hash sample_intf"
  by (rule nl_reach.init) (simp add: intf_init_def sample_intf_def)

lemma sample_intf_wf [simp]: "nd_wf hash sample_intf"
  using nl_reach_wf [OF sample_intf_reach] by simp

lemma sample_intf1_wf [simp]: "nd_wf hash sample_intf1"
proof -
  have "trap_table sample_intf1 = trap_table sample_intf" "\<not> list_lock sample_intf1"
    by (simp_all add: sample_intf1_def sample_intf_def)
  moreover have "heap_ok sample_intf1"
    by (auto simp: heap_ok_def sample_intf1_def fresh_intf_def xp_netdev_setup_def TX_HDR_LEN_def split: if_splits)
  moreover have "hash_ok hash sample_intf1"
    by (auto simp: hash_ok_def sample_intf1_def sample_intf_def fresh_intf_def split: if_splits)
  ultimately show ?thesis
    using sample_intf_wf [of hash] by (simp add: nd_wf_def)
qed

lemma sample_intf_fields [simp]:
  "irqs_on sample_intf1" "alloc_ok sample_intf p" "alloc_ok sample_intf1 p" "\<not> netlink_mutex sample_intf" "\<not> netlink_mutex sample_intf1"
  "skb_ok sample_intf k" "nd_heap sample_intf1 = [0 \<mapsto> fresh_intf 1]"
  by (simp_all add: sample_intf1_def sample_intf_def)

lemma sample_intf1_has [simp]: "intf_of sample_intf1 1 = Some (fresh_intf 1)"
  by (simp add: intf_of_def sample_intf1_def fresh_intf_def)

subsection \<open>Properties\<close>

text \<open>
  C5: In every state that netlink traffic can lead to, whatever bytes arrive, the list and the
  heap of interfaces agree, interface ids are unique, the hash table holds exactly the linked
  interfaces in their buckets, the trap table is well-formed, and no lock is held.
\<close>

theorem control_state_invariant:
  assumes "nl_reach hash s"
  shows "heap_ok s \<and> hash_ok hash s \<and> (\<exists>t. trap_table s = Some t \<and> trap_wf t) \<and> \<not> list_lock s \<and> \<not> netlink_mutex s"
  using nl_reach_wf [OF assms] by (auto simp: nd_wf_def)

theorem control_state_invariant_witness: "heap_ok sample_intf \<and> hash_ok (\<lambda>_. 0) sample_intf"
  using control_state_invariant [OF sample_intf_reach, of "\<lambda>_. 0"] by simp

text \<open>
  C6: Every handler implements its abstract operation on the table of interfaces: with the
  invariant and memory for a new interface, each message is handled, the invariant holds again
  and the table of interfaces by id changes exactly as specified.
\<close>

theorem handlers_refine_spec:
  assumes "nd_wf hash s" "msg_ok m" "\<And>p. alloc_ok s p"
  shows "\<exists>s'. nl_handle hash s m = Some s' \<and> nd_wf hash s' \<and>
    intf_of s' = spec_msg (register_ok s (nd_next s)) m (intf_of s)"
proof (cases m)
  case (XP_NL_MSG_INTF_ADD x)
  then show ?thesis
    using if_create_ok [OF assms(1), of x] assms(3) by auto
next
  case (XP_NL_MSG_INTF_DEL x)
  then show ?thesis
    using if_delete_ok [OF assms(1), of x] by auto
next
  case (XP_NL_MSG_LINK_ADD x)
  then show ?thesis
    using if_link_ok [OF assms(1), of x] by auto
next
  case (XP_NL_MSG_LINK_DEL x)
  then show ?thesis
    using if_unlink_ok [OF assms(1), of x] by auto
next
  case (XP_NL_MSG_TX_HDR_SET x)
  then show ?thesis
    using tx_header_ok [OF assms(1), of x] assms(2) by auto
next
  case (XP_NL_MSG_TRAP_SET x)
  then show ?thesis
    using nl_trap_ok [OF assms(1), of x] by auto
next
  case (XP_NL_MSG_CB_FD_SET x)
  then show ?thesis
    using nl_cb_fd_ok [OF assms(1), of x] by auto
next
  case (XP_NL_MSG_MIRROR_SET x)
  then show ?thesis
    using nl_mirror_ok [OF assms(1), of x] by auto
qed

theorem handlers_refine_spec_witness:
  "\<exists>s'. nl_handle (\<lambda>_. 0) sample_intf1 (XP_NL_MSG_LINK_ADD \<lparr>lm_intf_id = 1, lm_vif = 5\<rparr>) = Some s' \<and>
    intf_of s' 1 = Some ((fresh_intf 1)\<lparr>netdev_type := XP_FP_NETDEV, vif := 5\<rparr>)"
proof -
  have "spec_msg r (XP_NL_MSG_LINK_ADD \<lparr>lm_intf_id = 1, lm_vif = 5\<rparr>) (intf_of sample_intf1) 1 =
      Some ((fresh_intf 1)\<lparr>netdev_type := XP_FP_NETDEV, vif := 5\<rparr>)" for r
    by (simp add: spec_link_def link_type_def, simp add: fresh_intf_def)
  then show ?thesis
    using handlers_refine_spec [of "\<lambda>_. 0" sample_intf1 "XP_NL_MSG_LINK_ADD \<lparr>lm_intf_id = 1, lm_vif = 5\<rparr>"] by auto
qed

text \<open>
  C20: A netlink packet that carries one message in the documented layout is decoded to that
  message: receiving it does what the handler of the message does, under the netlink mutex.
\<close>

theorem netlink_message_roundtrip:
  assumes "msg_ok m" "length h = NLMSG_HDRLEN" "\<not> netlink_mutex s"
  shows "xp_netlink_rcv hash s (h @ nl_packet [m]) =
    map_option (\<lambda>s. s\<lparr>netlink_mutex := False\<rparr>) (nl_handle hash (s\<lparr>netlink_mutex := True\<rparr>) m)"
  using assms nl_process_single [OF assms(1), of hash "s\<lparr>netlink_mutex := True\<rparr>"]
  by (cases "nl_handle hash (s\<lparr>netlink_mutex := True\<rparr>) m") (simp_all add: xp_netlink_rcv_def)

theorem netlink_message_roundtrip_witness:
  "xp_netlink_rcv (\<lambda>_. 0) sample_intf (replicate 16 0 @ nl_packet [XP_NL_MSG_MIRROR_SET \<lparr>mm_operation = 2\<rparr>]) =
     Some (sample_intf\<lparr>packet_mirroring_enable := True, netlink_mutex := False\<rparr>)"
  using netlink_message_roundtrip [of "XP_NL_MSG_MIRROR_SET \<lparr>mm_operation = 2\<rparr>" "replicate 16 0" sample_intf "\<lambda>_. 0"]
  by (simp add: NLMSG_HDRLEN_def xp_nl_msg_mirror_def XP_NL_OPERATION_ENABLE_def)

text \<open>
  C36: A packet with two messages, both of which the driver can handle, makes the decoding loop
  read on past the end of the packet: after each message it subtracts the whole offset reached
  so far from the remaining length.
\<close>

theorem two_messages_overrun:
  assumes "nd_wf hash s" "msg_ok m1" "msg_ok m2" "nl_handle hash s m1 = Some s1" "nl_handle hash s1 m2 = Some s2"
  shows "nd_wf hash s2 \<and> xp_nl_msg_process hash s (nl_packet [m1, m2]) = None"
  using nl_process_two [OF assms(2-5)] nl_handle_wf [OF nl_handle_wf [OF assms(1,2,4)] assms(3,5)] by blast

theorem two_messages_overrun_witness:
  "xp_nl_msg_process (\<lambda>_. 0) sample_intf
     (nl_packet [XP_NL_MSG_MIRROR_SET \<lparr>mm_operation = 2\<rparr>, XP_NL_MSG_MIRROR_SET \<lparr>mm_operation = 3\<rparr>]) = None"
  using two_messages_overrun [of "\<lambda>_. 0" sample_intf "XP_NL_MSG_MIRROR_SET \<lparr>mm_operation = 2\<rparr>" "XP_NL_MSG_MIRROR_SET \<lparr>mm_operation = 3\<rparr>"]
  by (simp add: xp_nl_msg_mirror_def)

text \<open>
  C37: Setting or removing the TX header of an interface that exists leaves the interrupts of the
  processor disabled: the inner lock saves the interrupt state into the variable of the outer
  one.
\<close>

theorem tx_header_leaves_irqs_off:
  assumes "nd_wf hash s" "irqs_on s" "length (hm_tx_header msg) = TX_HDR_LEN" "intf_of s (hm_intf_id msg) = Some e"
  shows "\<exists>s'. xp_nl_msg_tx_header s msg = Some (0, s') \<and> intf_of s' (hm_intf_id msg) = Some (set_header msg e) \<and> \<not> irqs_on s'"
  using tx_header_ok [OF assms(1,3)] assms(2,4) by (auto simp: spec_update_def)

theorem tx_header_leaves_irqs_off_witness:
  "\<exists>s'. xp_nl_msg_tx_header sample_intf1 \<lparr>hm_intf_id = 1, hm_operation = 0, hm_tx_header = replicate 24 1\<rparr> = Some (0, s') \<and>
    irqs_on sample_intf1 \<and> \<not> irqs_on s'"
  using tx_header_leaves_irqs_off [of "\<lambda>_. 0" sample_intf1 "\<lparr>hm_intf_id = 1, hm_operation = 0, hm_tx_header = replicate 24 1\<rparr>" "fresh_intf 1"]
  by (auto simp: TX_HDR_LEN_def)

text \<open>
  C21: Registering a trap routes its reason code to it, keeps the route of every reason code that
  does not use the same trap id, and removing the trap ends the route; the table stays
  well-formed.
\<close>

theorem trap_add_routes_remove_ends:
  assumes "trap_wf t" "cfg_ok c"
  shows "\<exists>t1 t2. xp_trap_id_entry_add True t c = Some (0, t1) \<and> trap_wf t1 \<and> route t1 (tc_rc c) = Some c \<and>
    (\<forall>k. k \<noteq> tc_rc c \<and> xp_trap_id_get t k \<noteq> Some (tc_trap_id c) \<longrightarrow> route t1 k = route t k) \<and>
    xp_trap_id_entry_remove t1 (tc_trap_id c) = Some (0, t2) \<and> trap_wf t2 \<and> route t2 (tc_rc c) = None"
proof -
  obtain t1 where t1: "trap_put t c = Some t1" "trap_wf t1"
    using traps.add_total [OF assms] by blast
  have i: "unat (tc_trap_id c) \<le> XP_MAX_TRAP_ID"
    using assms(2) by (simp add: cfg_ok_def)
  obtain t2 where t2: "trap_drop t1 (tc_trap_id c) = Some t2" "trap_wf t2"
    using traps.remove_total [OF t1(2) i] by blast
  show ?thesis
    using t1 t2 traps.add_lookup [OF assms t1(1)] traps.add_other [OF assms t1(1)] traps.add_remove_lookup [OF assms i t1(1) t2(1)]
    by (auto simp: trap_put_Some [OF assms] trap_drop_Some [OF t1(2) i])
qed

definition sample_trap :: "u32 \<Rightarrow> u32 \<Rightarrow> xp_trap_config" where
  "sample_trap rc trap_id =
     \<lparr>tc_fd = 0, tc_rc = rc, tc_trap_id = trap_id, tc_rx_count = 0, tc_sock_ptr = None, tc_ch = XP_NL_HOSTIF_TRAP_NETDEV\<rparr>"

lemma sample_trap_ok: "cfg_ok (sample_trap 10 3)" "cfg_ok (sample_trap 11 3)"
  by (simp_all add: cfg_ok_def sample_trap_def XP_MAX_TRAP_ID_def XP_MAX_REASON_CODE_def)

lemma sample_table_wf: "trap_wf (the (snd (xp_trap_init True)))"
  using sample_intf_wf [of "\<lambda>_. 0"] by (auto simp: nd_wf_def sample_intf_def)

theorem trap_add_routes_remove_ends_witness:
  "\<exists>t1 t2. xp_trap_id_entry_add True (the (snd (xp_trap_init True))) (sample_trap 10 3) = Some (0, t1) \<and>
    route t1 10 = Some (sample_trap 10 3) \<and> xp_trap_id_entry_remove t1 3 = Some (0, t2) \<and> route t2 10 = None"
  using trap_add_routes_remove_ends [OF sample_table_wf sample_trap_ok(1)] by (simp add: sample_trap_def) blast

text \<open>
  A removed trap is not forgotten completely: its reason code still points at its trap id, so
  registering the id for a different reason code sends the packets of the removed one there.
\<close>

lemma removed_trap_revived:
  assumes "trap_wf t" "cfg_ok c" "cfg_ok d" "tc_trap_id d = tc_trap_id c"
    "xp_trap_id_entry_add True t c = Some (0, t1)" "xp_trap_id_entry_remove t1 (tc_trap_id c) = Some (0, t2)"
    "xp_trap_id_entry_add True t2 d = Some (0, t3)"
  shows "route t2 (tc_rc c) = None \<and> route t3 (tc_rc c) = Some d"
proof -
  have i: "unat (tc_trap_id c) \<le> XP_MAX_TRAP_ID"
    using assms(2) by (simp add: cfg_ok_def)
  have s: "trap_put t c = Some t1" "trap_drop t1 (tc_trap_id c) = Some t2" "trap_put t2 d = Some t3"
    using assms(5-7) by (simp_all add: trap_put_def trap_drop_def)
  show ?thesis
    using traps.add_remove_lookup [OF assms(1,2) i s(1,2)] traps.removed_key_follows_id [OF assms(1,2) i assms(3,4) s] by simp
qed

end
