(* ===== verification/Path_Props.thy ===== *)
theory Path_Props
  imports Control_Props Samples Netdev_Init
begin

text \<open>
  Properties of the packet paths and of the device's life cycle: reception from a ring to
  sockets and interfaces, transmission from an interface, set-up and tear-down.
\<close>

subsection \<open>Concrete states\<close>

text \<open>A B0 device whose RX rings hold one finished packet of 64 bytes; everything else is with the chip.\<close>

definition rx_done :: xpnet_descriptor where
  "rx_done = zero_desc\<lparr>qword1 := push_bit 16 64\<rparr>"

definition rx_one :: xpnet_queue_struct where
  "rx_one = sample_ring XPNET_QUEUE_TYPE_RX 16384 0 0 (rx_done # replicate 9 (zero_desc\<lparr>qword0 := own_bit\<rparr>))"

abbreviation (input) rx_sample :: xpnet_private where
  "rx_sample \<equiv> sample_net XP_B0_COMPRESSED rx_one tx_idle"

lemma rx_done_fields [simp]: "qword0 rx_done = 0" "\<not> hw_owns rx_done" "rx_pkt_size XP_B0_COMPRESSED rx_done = 64"
  by (simp_all add: rx_done_def zero_desc_def rx_pkt_size_def push_bit_eq_mult drop_bit_eq_div hw_owns_bit)

lemma rx_one_desc [simp]:
  "j < 10 \<Longrightarrow> desc_get rx_one j = Some (if j = 0 then rx_done else zero_desc\<lparr>qword0 := own_bit\<rparr>)"
  by (simp add: rx_one_def nth_Cons')

lemma rx_one_fields [simp]:
  "q_tail rx_one = 0" "shard_va (buf_sta (xpq_desc_meta rx_one ! 0)) = Some (replicate 16384 0)"
  by (simp_all add: rx_one_def sample_ring_def sample_meta_def)

lemma rx_one_ok: "rx_ring_ok rx_one" "rx_sized XP_B0_COMPRESSED rx_one"
proof -
  show "rx_ring_ok rx_one"
    by (simp add: rx_ring_ok_def rx_one_def ring_wf_sample XPNET_MAX_PACKET_SIZE_def)
  show "rx_sized XP_B0_COMPRESSED rx_one"
    by (auto simp: rx_sized_def desc_sized_def RX_HDR_LEN_def)
qed

lemma rx_sample_ok [simp]: "rx_state_ok hash rx_sample sample_intf"
  using rx_one_ok by (simp add: rx_state_ok_def rx_net_ok_def XPNET_RX_NUM_QUEUES_def)

subsection \<open>Reception\<close>

text \<open>
  C3: A finished packet at the tail of an RX ring is delivered: the bytes the chip wrote, put into
  the driver's byte order, go to exactly the sockets and interfaces that the reason code, the
  port and the router interface in its header select, in order; its descriptor is back with the
  chip and the tail has moved on.
\<close>

theorem rx_delivers_packet:
  assumes "rx_state_ok hash net s" "i < 64" "desc_get (rx_queue net ! i) (unat (q_tail (rx_queue net ! i))) = Some v"
    "qword0 v \<noteq> 1" "\<not> hw_owns v" "unat (rx_pkt_size (mode (pci_priv net)) v) \<le> XPNET_MAX_PACKET_SIZE" "\<And>k. skb_ok s k"
    "shard_va (buf_sta (xpq_desc_meta (rx_queue net ! i) ! unat (q_tail (rx_queue net ! i)))) = Some va"
    "skb = rx_skb (mode (pci_priv net)) (rx_pkt_size (mode (pci_priv net)) v) va"
  shows "\<exists>info net' s'. xp_rx_skb_info_get skb = Some info \<and> xpnet_rx_queue_process hash net s i 1 = Some (net', s') \<and>
    events s' = events s @ rx_events hash s info (skb_data skb) \<and> rx_state_ok hash net' s' \<and>
    q_tail (rx_queue net' ! i) = xpnet_add_and_wrap (q_tail (rx_queue net ! i)) 1 10 \<and>
    (\<exists>w. desc_get (rx_queue net' ! i) (unat (q_tail (rx_queue net ! i))) = Some w \<and> hw_owns w)"
proof -
  obtain info net' s' where *: "xp_rx_skb_info_get skb = Some info"
      "\<forall>k. rx_process_loop hash net s i (Suc k) = rx_process_loop hash net' s' i k" "rx_state_ok hash net' s'"
      "events s' = events s @ rx_events hash s info (skb_data skb)"
      "q_tail (rx_queue net' ! i) = xpnet_add_and_wrap (q_tail (rx_queue net ! i)) 1 10"
      "\<exists>w. desc_get (rx_queue net' ! i) (unat (q_tail (rx_queue net ! i))) = Some w \<and> hw_owns w"
    using rx_packet_step [OF assms(1-6) _ assms(8,9)] assms(7) by blast
  have "xpnet_rx_queue_process hash net s i 1 = Some (net', s')"
    using *(2) [rule_format, of 0] by (simp add: xpnet_rx_queue_process_def)
  then show ?thesis
    using * by blast
qed

theorem rx_delivers_packet_witness:
  "\<exists>net' s'. xpnet_rx_queue_process (\<lambda>_. 0) rx_sample sample_intf 3 1 = Some (net', s') \<and>
    q_tail (rx_queue net' ! 3) = 1 \<and> (\<exists>info. events s' = events sample_intf @ rx_events (\<lambda>_. 0) sample_intf info (replicate 64 0))"
proof -
  have d: "skb_data (rx_skb XP_B0_COMPRESSED 64 (replicate 16384 0)) = replicate 64 0"
    by (simp add: rx_skb_def chip_view_def)
  have w: "xpnet_add_and_wrap 0 1 10 = 1"
    by (simp add: xpnet_add_and_wrap_def)
  show ?thesis
    using rx_delivers_packet [of "\<lambda>_. 0" rx_sample sample_intf 3 rx_done "replicate 16384 0"
        "rx_skb XP_B0_COMPRESSED 64 (replicate 16384 0)"]
    by (simp add: XPNET_MAX_PACKET_SIZE_def d w) blast
qed

text \<open>
  C22: The lookup in the hash table that reception uses agrees with the interfaces that exist: it
  finds nothing exactly when no interface is linked to the number, and what it finds is linked
  to it.
\<close>

theorem hash_lookup_finds_link:
  assumes "nd_wf hash s" "v \<noteq> XP_NO_VIF"
  shows "hlist_find (nd_heap s) (htable s (hash v)) v \<noteq> None \<and>
    (linked hash s v = None \<longleftrightarrow> (\<forall>p e. nd_heap s p = Some e \<longrightarrow> vif e \<noteq> v)) \<and>
    (\<forall>p. linked hash s v = Some p \<longrightarrow> (\<exists>e. nd_heap s p = Some e \<and> vif e = v))"
  using hash_lookup [OF assms] linked_iff [OF assms] by auto

theorem hash_lookup_finds_link_witness: "linked (\<lambda>_. 0) sample_intf1 5 = None"
  using hash_lookup_finds_link [of "\<lambda>_. 0" sample_intf1 5]
  by (simp add: XP_NO_VIF_def fresh_intf_def)

text \<open>
  C4: The receive handler returns on every state of the rings and of the interfaces that keeps
  the invariants, whatever packets the chip has left, as long as none is shorter than the
  header; it keeps the invariants, so it can be run again and again.
\<close>

theorem rx_handler_safe:
  assumes "rx_state_ok hash net s"
  shows "\<exists>delay net' s'. xpnet_rxtx_handler HZ hash net s = Some (delay, net', s') \<and> rx_state_ok hash net' s'"
  by (rule rxtx_handler_safe [OF assms])

theorem rx_handler_safe_witness:
  "\<exists>delay net' s'. xpnet_rxtx_handler 250 (\<lambda>_. 0) rx_sample sample_intf = Some (delay, net', s')"
  using rx_handler_safe [of "\<lambda>_. 0" rx_sample sample_intf 250] by auto

end
