(* ===== verification/Life_Props.thy ===== *)
theory Life_Props
  imports Path_Props Irq
begin

text \<open>
  Properties of the device as a whole: it comes up completely or not at all and goes down again,
  what happens without DMA memory, transmission through an interface, and the interrupts that
  are reported to the application.
\<close>

subsection \<open>Up and down\<close>

definition dma_rich :: dma_env where
  "dma_rich = \<lparr>dma_res = (\<lambda>i. Some (of_nat (0x10000 * (i + 1)))), dma_fill = (\<lambda>_ _. 0), dma_calls = 0, dma_live = []\<rparr>"

definition sample_down :: "dma_env \<Rightarrow> init_state" where
  "sample_down e =
     \<lparr>xpnet = None, g_net_priv = False, is_pci = sample_priv XP_A0_UNCOMPRESSED,
      is_mode = \<lparr>mo_intf = sample_intf, nl_registered = False, client_socket = False\<rparr>, is_dma = e, is_jiffies = 0,
      is_wqueue = False, is_dwork = None, is_proc = zero_proc, is_fs = \<lparr>pf_res = (\<lambda>_. True), pf_calls = 0, pf_live = []\<rparr>\<rparr>"

definition granted_env :: "bool \<Rightarrow> init_env" where
  "granted_env wq = \<lparr>ie_kzalloc = True, ie_mode = \<lparr>me_kmalloc = True, me_pernet = 0, me_sock_create = 0, me_bind = 0\<rparr>,
     ie_workqueue = wq, ie_HZ = 250\<rparr>"

lemma sample_down_ok [simp]:
  "net_down (sample_down e)" "is_dma (sample_down e) = e" "dma_res dma_rich i \<noteq> None" "mode_granted (ie_mode (granted_env wq))"
  "ie_kzalloc (granted_env wq)" "ie_workqueue (granted_env wq) = wq" "dma_live dma_rich = []" "ie_HZ (granted_env wq) = 250"
  by (simp_all add: net_down_def sample_down_def mode_off_def sample_intf_def dma_rich_def mode_granted_def granted_env_def)



text \<open>
  C8: Taking down a device right after it was brought up succeeds and gives everything back: all
  DMA memory, the trap table, the sockets, the interfaces, the work queue and the files, so that
  it can be brought up again.
\<close>

theorem netdev_deinit_undoes_init:
  assumes "net_down st" "\<forall>c. dma_res (is_dma st) c \<noteq> None" "xp_netdev_init v st = Some (0, st1)"
  shows "\<exists>st2. xp_netdev_deinit st1 = Some st2 \<and> net_down st2 \<and> mset (dma_live (is_dma st2)) = mset (dma_live (is_dma st)) \<and>
    trap_table (mo_intf (is_mode st2)) = None"
  using assms(1) assms(2) [rule_format]
proof (cases rule: init_cases [where v = v and hash = "\<lambda>_. 0"])
  case (up st')
  then show ?thesis
    using deinit_down [OF up(5)] assms(3) by simp
next
  case (down rc st')
  then show ?thesis
    using assms(3) by simp
qed

theorem netdev_deinit_undoes_init_witness:
  "\<exists>st1 st2. xp_netdev_init (granted_env True) (sample_down dma_rich) = Some (0, st1) \<and> xp_netdev_deinit st1 = Some st2 \<and>
     xpnet st2 = None \<and> dma_live (is_dma st2) = []"
proof -
  have d: "net_down (sample_down dma_rich)" "\<And>c. dma_res (is_dma (sample_down dma_rich)) c \<noteq> None"
    by simp_all
  obtain st1 where st1: "xp_netdev_init (granted_env True) (sample_down dma_rich) = Some (0, st1)"
    using d by (cases rule: init_cases [where v = "granted_env True" and hash = "\<lambda>_. 0"]) auto
  then show ?thesis
    using netdev_deinit_undoes_init [OF d(1) _ st1] by (auto simp: net_down_def)
qed



subsection \<open>Transmission through an interface\<close>

text \<open>
  C12: A packet sent through an interface that is up reaches the transmit path with the interface's
  TX header in front and its bytes unchanged, whether or not its buffer had room for the header;
  the caller's buffer is freed exactly when the packet was taken, and a copy is always freed.
\<close>

theorem interface_xmit_adds_header:
  assumes "nd_up dev" "dev_ok dev" "room_wf skb" "expand_ok expand"
    "skb_headroom skb < TX_HDR_LEN \<longrightarrow> expand skb \<noteq> None" "tx_net_ok net" "chip_ok chip"
  shows "\<exists>s r. xp_ndo_start_xmit expand chip stale skb dev net = Some r \<and>
    packet_bytes s = tx_header dev @ packet_bytes (room_skb skb) \<and>
    xpnet_start_xmit chip stale (Some s) net = Some (xr_rc r, xr_rc r = NETDEV_TX_OK, xr_net r) \<and>
    orig_frees r = (if xr_rc r = NETDEV_TX_OK then 1 else 0) \<and>
    copy_frees r = (if skb_headroom skb < TX_HDR_LEN then Some 1 else None) \<and>
    xr_dev r = (if xr_rc r = NETDEV_TX_OK then dev\<lparr>nd_tx_packets := nd_tx_packets dev + 1\<rparr> else dev\<lparr>nd_stopped := True\<rparr>)"
  using ndo_start_xmit_ok [OF assms(1-4) assms(5) [rule_format] assms(6,7)] by blast

definition sample_dev :: xp_netdev_priv where
  "sample_dev = (fresh_intf 1)\<lparr>nd_up := True\<rparr>"

definition sample_room :: "nat \<Rightarrow> skb_room" where
  "sample_room n = \<lparr>skb_head = replicate n 0, room_skb = sample_skb 64\<rparr>"

lemma sample_dev_ok [simp]: "nd_up sample_dev" "dev_ok sample_dev" "room_wf (sample_room n)" "skb_headroom (sample_room n) = n" "skb_len (room_skb (sample_room n)) = 64"
  "expand_ok (\<lambda>_. None)" "chip_ok (\<lambda>t area. area)" "tx_net_ok (sample_net XP_B0_UNCOMPRESSED rx tx_idle)"
  by (simp_all add: sample_dev_def dev_ok_def fresh_intf_def xp_netdev_setup_def TX_HDR_LEN_def room_wf_def sample_room_def sample_skb_def
      skb_headroom_def expand_ok_def chip_ok_def tx_net_ok_def tx_q_ok_def tx_idle_def ring_wf_sample PAGE_SIZE_def)

theorem interface_xmit_adds_header_witness:
  "\<exists>s r. xp_ndo_start_xmit (\<lambda>_. None) (\<lambda>t area. area) (\<lambda>_. 0) (sample_room 32) sample_dev (sample_net XP_B0_UNCOMPRESSED rx_idle tx_idle) = Some r \<and>
     packet_bytes s = tx_header sample_dev @ packet_bytes (sample_skb 64)"
proof -
  have "nd_up sample_dev" "dev_ok sample_dev" "room_wf (sample_room 32)" "expand_ok (\<lambda>_. None)"
    "skb_headroom (sample_room 32) < TX_HDR_LEN \<longrightarrow> (None :: skb_room option) \<noteq> None"
    "tx_net_ok (sample_net XP_B0_UNCOMPRESSED rx_idle tx_idle)" "chip_ok (\<lambda>t area. area)"
    by (simp_all add: TX_HDR_LEN_def)
  from interface_xmit_adds_header [OF this, of "\<lambda>_. 0"] show ?thesis
    by (auto simp: sample_room_def)
qed

text \<open>
  C40: When the rings are busy the header stays in front of the caller's packet, so the kernel's
  next attempt with the same buffer sends the header twice.
\<close>

theorem busy_retry_doubles_header:
  assumes "nd_up dev" "dev_ok dev" "room_wf skb" "unat (skb_len (room_skb skb)) < 2 ^ 31 - 24" "2 * TX_HDR_LEN \<le> skb_headroom skb"
    "tx_net_ok net" "tx_net_ok net'" "chip_ok chip" "expand_ok expand"
    "xp_ndo_start_xmit expand chip stale skb dev net = Some r" "xr_rc r = NETDEV_TX_BUSY"
  shows "\<exists>s r'. xp_ndo_start_xmit expand chip stale (orig_after r) dev net' = Some r' \<and>
    packet_bytes s = tx_header dev @ tx_header dev @ packet_bytes (room_skb skb) \<and>
    xpnet_start_xmit chip stale (Some s) net' = Some (xr_rc r', xr_rc r' = NETDEV_TX_OK, xr_net r')"
  by (rule busy_retry [OF assms])

text \<open>A device whose TX rings are full answers busy.\<close>

definition tx_full :: xpnet_queue_struct where
  "tx_full = sample_ring XPNET_QUEUE_TYPE_TX 4096 0 0 (replicate 10 zero_desc)"

definition busy_net :: xpnet_private where
  "busy_net = sample_net XP_B0_UNCOMPRESSED rx_idle tx_full"

lemma busy_net_ok [simp]: "tx_net_ok busy_net"
  by (simp add: busy_net_def tx_net_ok_def tx_q_ok_def tx_full_def ring_wf_sample PAGE_SIZE_def)

lemma busy_net_busy: "\<exists>net. xpnet_start_xmit chip stale (Some s) busy_net = Some (NETDEV_TX_BUSY, False, net)"
proof -
  have "xpnet_get_free_desc tx_full = 0"
    by (simp add: tx_full_def xpnet_get_free_desc_def xpnet_get_busy_desc_def)
  then show ?thesis
    by (simp add: busy_net_def xpnet_start_xmit_def xpnet_hard_start_xmit_def sample_net_def, simp add: tx_full_def)
qed

theorem busy_retry_doubles_header_witness:
  "\<exists>r s r'. xp_ndo_start_xmit (\<lambda>_. None) (\<lambda>t area. area) (\<lambda>_. 0) (sample_room 64) sample_dev busy_net = Some r \<and>
     xp_ndo_start_xmit (\<lambda>_. None) (\<lambda>t area. area) (\<lambda>_. 0) (orig_after r) sample_dev
       (sample_net XP_B0_UNCOMPRESSED rx_idle tx_idle) = Some r' \<and>
     packet_bytes s = tx_header sample_dev @ tx_header sample_dev @ packet_bytes (sample_skb 64)"
proof -
  have p: "nd_up sample_dev" "dev_ok sample_dev" "room_wf (sample_room 64)" "unat (skb_len (room_skb (sample_room 64))) < 2 ^ 31 - 24"
    "2 * TX_HDR_LEN \<le> skb_headroom (sample_room 64)" "tx_net_ok busy_net" "tx_net_ok (sample_net XP_B0_UNCOMPRESSED rx_idle tx_idle)"
    "chip_ok (\<lambda>t area. area)" "expand_ok (\<lambda>_. None)"
    by (simp_all add: TX_HDR_LEN_def)
  obtain r s where r: "xp_ndo_start_xmit (\<lambda>_. None) (\<lambda>t area. area) (\<lambda>_. 0) (sample_room 64) sample_dev busy_net = Some r"
      "xpnet_start_xmit (\<lambda>t area. area) (\<lambda>_. 0) (Some s) busy_net = Some (xr_rc r, xr_rc r = NETDEV_TX_OK, xr_net r)"
    using ndo_start_xmit_ok [of sample_dev "sample_room 64" "\<lambda>_. None" busy_net "\<lambda>t area. area" "\<lambda>_. 0"] p
    by (auto simp: TX_HDR_LEN_def)
  have "xr_rc r = NETDEV_TX_BUSY"
    using r(2) busy_net_busy [of "\<lambda>t area. area" "\<lambda>_. 0" s] by auto
  then show ?thesis
    using busy_retry_doubles_header [OF p r(1)] r(1) by (auto simp: sample_room_def)
qed

subsection \<open>Interrupts\<close>




lemma summary_zero: "summary (sample_priv m) r 4 = [0, 0, 0, 0]"
  by (simp add: summary_def eval_nat_numeral word_at_def le32_def)


text \<open>
  C17: When DMA queues have interrupts pending, the management handler reports the first of them:
  bits from the start position on stand for RX queues 0 to 63 and then TX queues 0 to 63. The
  signal carries the queue's type, number and status, and the interrupt is acknowledged at the
  queue and in the source register.
\<close>

theorem dma_interrupt_reports_queue:
  assumes "priv_wf p" "\<not> tx_dma_read_lock p" "w_queue p = Some ws" "k < 128"
    "n = DMA0_INTR_START_BIT_POS (mode p) + k" "reg_bit (summary p HIGH_INTR_SOURCE_REG_ADDR 5) n"
    "\<forall>m. DMA0_INTR_START_BIT_POS (mode p) \<le> m \<and> m < n \<longrightarrow> \<not> reg_bit (summary p HIGH_INTR_SOURCE_REG_ADDR 5) m"
    "q = (if k < 64 then (1, of_nat k) else (0, of_nat (k - 64)))"
  shows "xp_irq_mgmt_handler True p =
    Some (0, p\<lparr>w_queue := Some (ws @ [queue_work_item p q]),
               vma := put_word ((vma p)(unat (status_reg_addr (mode p) q) := 7))
                        (unat (XP_GET_PCI_BASE_OFFSET_FROM_REG_NAME HIGH_INTR_SOURCE_REG_ADDR (mode p)) + 4 * (n div 32))
                        (push_bit (n mod 32) 1)\<rparr>)"
proof -
  have n: "DMA0_INTR_START_BIT_POS (mode p) \<le> n" "n < DMA0_INTR_START_BIT_POS (mode p) + 128" "n < 160"
    using assms(4,5) by (auto simp: DMA0_INTR_START_BIT_POS_def)
  have "xp_irq_mgmt_handler True p = mgmt_loop True p 0 5"
    by (simp add: xp_irq_mgmt_handler_def HIGH_INTR_SRC_REG_SIZE_def)
  also have "\<dots> = mgmt_event True p (n div 32) (n mod 32)"
    using assms(7) by (intro mgmt_loop_first [OF assms(1,2) n(1,3) assms(6)]) auto
  finally have event: "xp_irq_mgmt_handler True p = mgmt_event True p (n div 32) (n mod 32)" .
  have "q = queue_of_bit (mode p) n"
    using queue_of_bit_valid(1) [OF n(1,2)] assms(5,8) by (simp add: Let_def)
  moreover have "n div 32 * 32 + n mod 32 = n" "n div 32 < 5"
    using n(3) by auto
  ultimately show ?thesis
    unfolding event using queue_of_bit_valid(2) [OF n(1,2)] by (intro mgmt_event_ok [OF assms(1-3)]) simp_all
qed

definition irq_priv :: xp_private where
  "irq_priv = (sample_priv XP_A0_UNCOMPRESSED)
     \<lparr>vma := put_word (\<lambda>_. 0) (unat (XP_GET_PCI_BASE_OFFSET_FROM_REG_NAME HIGH_INTR_SOURCE_REG_ADDR XP_A0_UNCOMPRESSED)) 0x100\<rparr>"

lemma irq_priv_bit: "reg_bit (summary irq_priv HIGH_INTR_SOURCE_REG_ADDR 5) 8"
proof -
  have "summary irq_priv HIGH_INTR_SOURCE_REG_ADDR 5 ! 0 = 0x100"
    by (simp add: summary_def irq_priv_def eval_nat_numeral word_at_put_word)
  then show ?thesis
    by (simp add: reg_bit_def bit_iff_odd)
qed

theorem dma_interrupt_reports_queue_witness:
  "\<exists>p. xp_irq_mgmt_handler True irq_priv = Some (0, p) \<and> w_queue p = Some [queue_work_item irq_priv (1, 0)]"
proof -
  have m: "mode irq_priv = XP_A0_UNCOMPRESSED" "priv_wf irq_priv" "\<not> tx_dma_read_lock irq_priv" "w_queue irq_priv = Some []"
    "DMA0_INTR_START_BIT_POS XP_A0_UNCOMPRESSED = 8"
    by (simp_all add: irq_priv_def DMA0_INTR_START_BIT_POS_def) (simp add: sample_priv_def)
  have none: "\<forall>m. 8 \<le> m \<and> m < 8 \<longrightarrow> \<not> reg_bit (summary irq_priv HIGH_INTR_SOURCE_REG_ADDR 5) m"
    by auto
  show ?thesis
    using dma_interrupt_reports_queue [OF m(2-4), of 0 8 "(1, 0)"] irq_priv_bit m none by simp
qed

end
