(* ===== verification/Reg_Dev.thy ===== *)
theory Reg_Dev
  imports User_Mem Reg_Access
begin

text \<open>
  The two requests of the register device that move data (\<open>xp_dev_reg_access\<close> and
  \<open>xp_pci_conf_get\<close>, \<open>xp_pcie_slave.c\<close>): user space reads and writes registers and reads the
  configuration space.

  Register values travel between user memory and the kernel buffer \<open>tmp_value\<close> in chunks of 1024
  bytes, counted by a \<open>u8\<close>. \<open>tmp_junk\<close> is what the freshly allocated buffer holds.
\<close>

subsection \<open>Register access\<close>

record xp_reg_rw =
  rw_reg_address :: u32
  rw_direction :: u8
  rw_size :: u32
  rw_value :: u64

definition REG_RW_SIZE :: nat where "REG_RW_SIZE = 17"

definition reg_rw_of_bytes :: "u8 list \<Rightarrow> xp_reg_rw" where
  "reg_rw_of_bytes b = \<lparr>rw_reg_address = le32_at b 0, rw_direction = b ! 4, rw_size = le32_at b 5, rw_value = le64_at b 9\<rparr>"

definition reg_rw_bytes :: "xp_reg_rw \<Rightarrow> u8 list" where
  "reg_rw_bytes w = le32_bytes (rw_reg_address w) @ [rw_direction w] @ le32_bytes (rw_size w) @ le64_bytes (rw_value w)"

definition GET_REG :: u8 where "GET_REG = 1"
definition SET_REG :: u8 where "SET_REG = 0"
definition XP_MAX_BYTES_FOR_COPY :: nat where "XP_MAX_BYTES_FOR_COPY = 1024"

text \<open>A buffer of bytes read as an array of \<open>u32\<close>, and back.\<close>

fun words_of :: "u8 list \<Rightarrow> u32 list" where
  "words_of (a # b # c # d # bs) = le32 a b c d # words_of bs"
| "words_of bs = []"

definition bytes_of :: "u32 list \<Rightarrow> u8 list" where
  "bytes_of ws = concat (map le32_bytes ws)"

record dev_env =
  kmalloc_rw :: bool
  kmalloc_tmp :: bool
  tmp_junk :: "nat \<Rightarrow> u8"

text \<open>How many accesses of which width a request of \<open>size\<close> bytes is.\<close>

definition rw_shape :: "u32 \<Rightarrow> u32 \<times> u8" where
  "rw_shape sz =
     (if sz mod 4 = 0 then (sz div 4, DWORD_SIZE)
      else if sz = 2 then (1, WORD_SIZE)
      else (sz, BYTE_SIZE))"

text \<open>The two copying loops, from the chunk \<open>idx\<close> on with \<open>cv\<close> bytes left.\<close>

function copy_in_loop :: "umem \<Rightarrow> u64 \<Rightarrow> u8 list \<Rightarrow> u8 \<Rightarrow> u32 \<Rightarrow> (rc \<times> u8 list) option" where
  "copy_in_loop m val tmp idx cv =
     (let off = unat idx * XP_MAX_BYTES_FOR_COPY; n = min (unat cv) XP_MAX_BYTES_FOR_COPY; cv' = cv - of_nat n in
      case copy_from_user m (val + of_nat off) n of (r, bs) \<Rightarrow>
        if r \<noteq> 0 then Some (- EFAULT, tmp)
        else do { tmp \<leftarrow> buf_write tmp off bs;
                  if cv' = 0 then Some (0, tmp) else copy_in_loop m val tmp (idx + 1) cv' })"
  by pat_completeness auto

lemma chunk_left:
  assumes "cv - of_nat (min (unat cv) XP_MAX_BYTES_FOR_COPY) \<noteq> (0 :: u32)"
  shows "1024 < unat cv" "unat (cv - of_nat (min (unat cv) XP_MAX_BYTES_FOR_COPY)) = unat cv - 1024"
proof -
  show gt: "1024 < unat cv"
    using assms by (cases "unat cv \<le> 1024") (auto simp: XP_MAX_BYTES_FOR_COPY_def)
  then have "(of_nat (min (unat cv) XP_MAX_BYTES_FOR_COPY) :: u32) = 1024"
    by (simp add: XP_MAX_BYTES_FOR_COPY_def)
  then show "unat (cv - of_nat (min (unat cv) XP_MAX_BYTES_FOR_COPY)) = unat cv - 1024"
    using gt by (simp add: unat_sub word_le_nat_alt)
qed

lemma chunk_less: "cv \<noteq> of_nat (min (unat cv) XP_MAX_BYTES_FOR_COPY) \<Longrightarrow>
   unat (cv - of_nat (min (unat cv) XP_MAX_BYTES_FOR_COPY) :: u32) < unat cv"
  using chunk_left [of cv] by simp

termination copy_in_loop
  by (relation "measure (\<lambda>(m, v, t, i, cv). unat cv)") (auto intro: chunk_less)

function copy_out_loop :: "umem \<Rightarrow> u64 \<Rightarrow> u8 list \<Rightarrow> u8 \<Rightarrow> u32 \<Rightarrow> rc \<Rightarrow> (rc \<times> umem) option" where
  "copy_out_loop m val tmp idx cv rc =
     (let off = unat idx * XP_MAX_BYTES_FOR_COPY; n = min (unat cv) XP_MAX_BYTES_FOR_COPY; cv' = cv - of_nat n in
      do { bs \<leftarrow> buf_read tmp off n;
           let (r, m) = copy_to_user m (val + of_nat off) bs;
           let rc = (if r \<noteq> 0 then - EFAULT else rc);
           if cv' = 0 then Some (rc, m) else copy_out_loop m val tmp (idx + 1) cv' rc })"
  by pat_completeness auto

termination copy_out_loop
  by (relation "measure (\<lambda>(m, v, t, i, cv, r). unat cv)") (auto intro: chunk_less)

declare copy_in_loop.simps [simp del] copy_out_loop.simps [simp del]

definition xp_dev_reg_access :: "dev_env \<Rightarrow> umem \<Rightarrow> u64 \<Rightarrow> xp_private \<Rightarrow> (rc \<times> umem \<times> xp_private) option" where
  "xp_dev_reg_access v m argp p =
     (if \<not> kmalloc_rw v then Some (- ENOMEM, m, p)
      else
        case copy_from_user m argp REG_RW_SIZE of (r, b) \<Rightarrow>
          if r \<noteq> 0 then Some (int r, m, p)
          else
            let rw = reg_rw_of_bytes b in
            case rw_shape (rw_size rw) of (count, reg_size) \<Rightarrow>
              if count = 0 then Some (- EINVAL, m, p)
              else if \<not> kmalloc_tmp v then Some (- ENOMEM, m, p)
              else
                let tmp = map (tmp_junk v) [0..<4 * unat count] in
                if rw_direction rw = SET_REG then
                  do { (rc, tmp) \<leftarrow> copy_in_loop m (rw_value rw) tmp 0 (count * ucast reg_size);
                       if rc \<noteq> 0 then Some (rc, m, p)
                       else do { (rc, p) \<leftarrow> xp_dev_reg_write (words_of tmp) (rw_reg_address rw) reg_size p count;
                                 Some (if rc \<noteq> 0 then - EFAULT else 0, m, p) } }
                else if rw_direction rw = GET_REG then
                  do { (rc, vs) \<leftarrow> xp_dev_reg_read (words_of tmp) (rw_reg_address rw) reg_size p count;
                       if rc \<noteq> 0 then Some (- EFAULT, m, p)
                       else do { (rc, m) \<leftarrow> copy_out_loop m (rw_value rw) (bytes_of vs) 0 (count * 4) 0;
                                 Some (rc, m, p) } }
                else Some (- EINVAL, m, p))"

subsection \<open>The configuration space\<close>

record xp_pcie_config =
  cf_offset :: u16
  cf_size :: u8
  cf_value :: u64

definition PCIE_CONFIG_SIZE :: nat where "PCIE_CONFIG_SIZE = 11"
definition PCI_CONFIG_SPACE_SIZE :: nat where "PCI_CONFIG_SPACE_SIZE = 256"

definition pcie_config_of_bytes :: "u8 list \<Rightarrow> xp_pcie_config" where
  "pcie_config_of_bytes b = \<lparr>cf_offset = ucast (le32 (b ! 0) (b ! 1) 0 0), cf_size = b ! 2, cf_value = le64_at b 3\<rparr>"

text \<open>The loop over \<open>pci_read_config_byte\<close>; \<open>conf\<close> is the configuration space of the device.\<close>

fun conf_read_loop :: "(u16 \<Rightarrow> u8) \<Rightarrow> u16 \<Rightarrow> nat \<Rightarrow> u8 list" where
  "conf_read_loop conf offset 0 = []"
| "conf_read_loop conf offset (Suc n) = conf offset # conf_read_loop conf (offset + 1) n"

definition xp_pci_conf_get :: "dev_env \<Rightarrow> (u16 \<Rightarrow> u8) \<Rightarrow> umem \<Rightarrow> u64 \<Rightarrow> rc \<times> umem" where
  "xp_pci_conf_get v conf m argp =
     (if \<not> kmalloc_rw v then (- ENOMEM, m)
      else
        case copy_from_user m argp PCIE_CONFIG_SIZE of (r, b) \<Rightarrow>
          if r \<noteq> 0 then (int r, m)
          else
            let c = pcie_config_of_bytes b in
            if cf_size c = 0 then (- EINVAL, m)
            else if unat (cf_offset c) + unat (cf_size c) > PCI_CONFIG_SPACE_SIZE then (- EINVAL, m)
            else if \<not> kmalloc_tmp v then (- ENOMEM, m)
            else
              case copy_to_user m (cf_value c) (conf_read_loop conf (cf_offset c) (unat (cf_size c))) of (r, m) \<Rightarrow>
                (if r \<noteq> 0 then - EFAULT else 0, m))"

subsection \<open>Chunks\<close>

lemma length_words_of: "length (words_of bs) = length bs div 4"
  by (induction bs rule: words_of.induct) auto

lemma bytes_of_words_of: "length bs mod 4 = 0 \<Longrightarrow> bytes_of (words_of bs) = bs"
  by (induction bs rule: words_of.induct) (auto simp: bytes_of_def le32_bytes_def byte_of32_le32)

lemma words_of_bytes_of [simp]: "words_of (bytes_of ws) = ws"
proof (induction ws)
  case (Cons w ws)
  then show ?case
    by (simp add: bytes_of_def le32_bytes_def le32_byte_of32)
qed (simp add: bytes_of_def)

lemma length_bytes_of [simp]: "length (bytes_of ws) = 4 * length ws"
  by (induction ws) (simp_all add: bytes_of_def)

lemma ubytes_append: "ubytes m a (n + k) = ubytes m a n @ ubytes m (a + of_nat n) k"
proof (induction n arbitrary: a)
  case (Suc n)
  then show ?case
    using Suc.IH [of "a + 1"] by (simp add: ubytes_Suc add.assoc)
qed (simp add: ubytes_def)

lemma readable_add: "readable m a (n + k) \<longleftrightarrow> readable m a n \<and> readable m (a + of_nat n) k"
proof (induction n arbitrary: a)
  case (Suc n)
  then show ?case
    using Suc.IH [of "a + 1"] by (simp add: readable_Suc add.assoc)
qed (simp add: readable_def)

lemma copy_in_loop_ok:
  assumes "unat idx * 1024 + unat cv \<le> length tmp" "unat idx * 1024 + unat cv \<le> 256 * 1024"
    "readable m (val + of_nat (unat idx * 1024)) (unat cv)"
  shows "copy_in_loop m val tmp idx cv =
    Some (0, take (unat idx * 1024) tmp @ ubytes m (val + of_nat (unat idx * 1024)) (unat cv) @ drop (unat idx * 1024 + unat cv) tmp)"
  using assms
proof (induction m val tmp idx cv rule: copy_in_loop.induct)
  case (1 m val tmp idx cv)
  let ?off = "unat idx * 1024" and ?n = "min (unat cv) XP_MAX_BYTES_FOR_COPY"
  show ?case
  proof (cases "cv - of_nat ?n = 0")
    case True
    have "unat cv \<le> 1024"
    proof (rule ccontr)
      assume gt: "\<not> unat cv \<le> 1024"
      then have "?n = 1024"
        by (simp add: XP_MAX_BYTES_FOR_COPY_def)
      then show False
        using True gt by simp
    qed
    then have n: "?n = unat cv"
      by (simp add: XP_MAX_BYTES_FOR_COPY_def)
    show ?thesis
      using 1(2-4) n by (subst copy_in_loop.simps) (simp add: Let_def XP_MAX_BYTES_FOR_COPY_def copy_from_user_ok buf_write_def)
  next
    case False
    note left = chunk_left [OF False]
    have n: "?n = 1024"
      using left(1) by (simp add: XP_MAX_BYTES_FOR_COPY_def)
    have idx: "unat (idx + 1) = unat idx + 1"
      using 1(3) left(1) by (simp add: unat_word_ariths)
    have "readable m (val + of_nat ?off) (1024 + (unat cv - 1024))"
      using 1(4) left(1) by simp
    then have r: "readable m (val + of_nat ?off) 1024" "readable m (val + of_nat (unat (idx + 1) * 1024)) (unat cv - 1024)"
      unfolding readable_add idx by (simp_all add: algebra_simps)
    let ?tmp = "take ?off tmp @ ubytes m (val + of_nat ?off) 1024 @ drop (?off + 1024) tmp"
    have cp: "copy_from_user m (val + of_nat (unat idx * XP_MAX_BYTES_FOR_COPY)) ?n = (0, ubytes m (val + of_nat ?off) 1024)"
      unfolding n using copy_from_user_ok [OF r(1)] by (simp add: XP_MAX_BYTES_FOR_COPY_def)
    have bw: "buf_write tmp (unat idx * XP_MAX_BYTES_FOR_COPY) (ubytes m (val + of_nat ?off) 1024) = Some ?tmp"
      using 1(2) left(1) by (simp add: buf_write_def XP_MAX_BYTES_FOR_COPY_def)
    have o: "unat (idx + 1) * 1024 = ?off + 1024"
      using idx by simp
    have "copy_in_loop m val ?tmp (idx + 1) (cv - of_nat ?n) =
        Some (0, take (unat (idx + 1) * 1024) ?tmp @ ubytes m (val + of_nat (unat (idx + 1) * 1024)) (unat (cv - of_nat ?n)) @
          drop (unat (idx + 1) * 1024 + unat (cv - of_nat ?n)) ?tmp)"
      using 1(2,3) left r(2) by (intro 1(1) [OF refl refl refl cp [symmetric] _ bw False]) (simp_all add: o del: of_nat_mult)
    then have "copy_in_loop m val tmp idx cv =
        Some (0, take (?off + 1024) ?tmp @ ubytes m (val + of_nat (?off + 1024)) (unat cv - 1024) @ drop (?off + unat cv) ?tmp)"
      unfolding o left(2) using cp bw False left(1)
      by (subst copy_in_loop.simps) (simp add: Let_def del: of_nat_mult)
    moreover have "ubytes m (val + of_nat ?off) (unat cv) =
        ubytes m (val + of_nat ?off) 1024 @ ubytes m (val + of_nat (?off + 1024)) (unat cv - 1024)"
      using ubytes_append [of m "val + of_nat ?off" 1024 "unat cv - 1024"] left(1) by (simp add: add.assoc)
    ultimately show ?thesis
      using 1(2) left(1) by (simp add: add.commute)
  qed
qed

lemma copy_to_user_append:
  "copy_to_user m a (xs @ ys) =
     (case copy_to_user m a xs of (r, m') \<Rightarrow>
        if r = 0 then copy_to_user m' (a + of_nat (length xs)) ys else (r + length ys, m'))"
proof (induction xs arbitrary: m a)
  case (Cons x xs)
  have "copy_to_user (m(a \<mapsto> (x, True))) (a + 1) (xs @ ys) =
     (case copy_to_user (m(a \<mapsto> (x, True))) (a + 1) xs of (r, m') \<Rightarrow>
        if r = 0 then copy_to_user m' (a + 1 + of_nat (length xs)) ys else (r + length ys, m'))"
    by (rule Cons.IH)
  then show ?case
    by (auto simp: copy_to_user_step add.assoc split: prod.splits)
qed simp

lemma writable_add: "writable m a (n + k) \<longleftrightarrow> writable m a n \<and> writable m (a + of_nat n) k"
proof (induction n arbitrary: a)
  case (Suc n)
  then show ?case
    using Suc.IH [of "a + 1"] by (simp add: writable_Suc add.assoc)
qed (simp add: writable_def)

lemma chunk_all:
  assumes "cv - of_nat (min (unat cv) XP_MAX_BYTES_FOR_COPY) = (0 :: u32)"
  shows "min (unat cv) XP_MAX_BYTES_FOR_COPY = unat cv"
proof (rule ccontr)
  assume "min (unat cv) XP_MAX_BYTES_FOR_COPY \<noteq> unat cv"
  then have gt: "1024 < unat cv"
    by (simp add: XP_MAX_BYTES_FOR_COPY_def min_def split: if_splits)
  then have "min (unat cv) XP_MAX_BYTES_FOR_COPY = 1024"
    by (simp add: XP_MAX_BYTES_FOR_COPY_def)
  then show False
    using assms gt by simp
qed

lemma copy_out_loop_ok:
  assumes "unat idx * 1024 + unat cv \<le> length tmp" "unat idx * 1024 + unat cv \<le> 256 * 1024"
    "writable m (val + of_nat (unat idx * 1024)) (unat cv)"
  shows "copy_out_loop m val tmp idx cv rc =
    Some (rc, snd (copy_to_user m (val + of_nat (unat idx * 1024)) (take (unat cv) (drop (unat idx * 1024) tmp))))"
  using assms
proof (induction m val tmp idx cv rc rule: copy_out_loop.induct)
  case (1 m val tmp idx cv rc)
  let ?off = "unat idx * 1024" and ?n = "min (unat cv) XP_MAX_BYTES_FOR_COPY"
  let ?a = "val + of_nat ?off"
  show ?case
  proof (cases "cv - of_nat ?n = 0")
    case True
    note n = chunk_all [OF True]
    have "fst (copy_to_user m ?a (take (unat cv) (drop ?off tmp))) = 0"
      using 1(2,4) by (simp add: copy_to_user_zero)
    then obtain m1 where "copy_to_user m ?a (take (unat cv) (drop ?off tmp)) = (0, m1)"
      by (metis fst_eqD prod.collapse)
    moreover have "buf_read tmp (unat idx * XP_MAX_BYTES_FOR_COPY) ?n = Some (take (unat cv) (drop ?off tmp))"
      unfolding n using 1(2) by (simp add: buf_read_def XP_MAX_BYTES_FOR_COPY_def)
    ultimately show ?thesis
      using True by (subst copy_out_loop.simps) (simp add: Let_def XP_MAX_BYTES_FOR_COPY_def)
  next
    case False
    note left = chunk_left [OF False]
    have n: "?n = 1024"
      using left(1) by (simp add: XP_MAX_BYTES_FOR_COPY_def)
    have idx: "unat (idx + 1) = unat idx + 1"
      using 1(3) left(1) by (simp add: unat_word_ariths)
    let ?bs = "take 1024 (drop ?off tmp)"
    have br: "buf_read tmp (unat idx * XP_MAX_BYTES_FOR_COPY) ?n = Some ?bs"
      unfolding n using 1(2) left(1) by (simp add: buf_read_def XP_MAX_BYTES_FOR_COPY_def)
    have len: "length ?bs = 1024"
      using 1(2) left(1) by simp
    have "writable m ?a (1024 + (unat cv - 1024))"
      using 1(4) left(1) by simp
    then have w: "writable m ?a 1024" "writable m (val + of_nat (unat (idx + 1) * 1024)) (unat cv - 1024)"
      unfolding writable_add idx by (simp_all add: algebra_simps)
    obtain m' where m': "copy_to_user m ?a ?bs = (0, m')" "can_write m' = can_write m"
      using copy_to_user_ok [of m ?a ?bs] w(1) len by auto
    have cp: "copy_to_user m (val + of_nat (unat idx * XP_MAX_BYTES_FOR_COPY)) ?bs = (0, m')"
      using m'(1) by (simp add: XP_MAX_BYTES_FOR_COPY_def)
    have o: "unat (idx + 1) * 1024 = ?off + 1024"
      using idx by simp
    have rec: "copy_out_loop m' val tmp (idx + 1) (cv - of_nat ?n) rc =
        Some (rc, snd (copy_to_user m' (val + of_nat (unat (idx + 1) * 1024)) (take (unat (cv - of_nat ?n)) (drop (unat (idx + 1) * 1024) tmp))))"
      using 1(2,3) left w(2) m'(2)
      by (intro 1(1) [OF refl refl refl br refl cp [symmetric] _ False]) (simp_all add: o writable_def del: of_nat_mult)
    have split: "take (unat cv) (drop ?off tmp) = ?bs @ take (unat cv - 1024) (drop (?off + 1024) tmp)"
      using take_add [of 1024 "unat cv - 1024" "drop ?off tmp"] left(1) by (simp add: add.commute)
    have "copy_to_user m ?a (take (unat cv) (drop ?off tmp)) =
        copy_to_user m' (val + of_nat (?off + 1024)) (take (unat cv - 1024) (drop (?off + 1024) tmp))"
      unfolding split copy_to_user_append m'(1) len by (simp add: add.assoc del: of_nat_mult)
    then show ?thesis
      using rec unfolding o left(2) using br cp False
      by (subst copy_out_loop.simps) (simp add: Let_def del: of_nat_mult)
  qed
qed

subsection \<open>Whole double words\<close>

text \<open>
  The request in user memory: \<open>k\<close> double words at a register address inside the BAR, at most
  the 256 KB that the chunk counter can reach.
\<close>

definition rw_request :: "umem \<Rightarrow> u64 \<Rightarrow> xp_reg_rw \<Rightarrow> bool" where
  "rw_request m argp rw \<longleftrightarrow> readable m argp REG_RW_SIZE \<and> reg_rw_of_bytes (ubytes m argp REG_RW_SIZE) = rw"

definition dword_request :: "xp_private \<Rightarrow> xp_reg_rw \<Rightarrow> nat \<Rightarrow> bool" where
  "dword_request p rw k \<longleftrightarrow>
     unat (rw_size rw) = 4 * k \<and> 0 < k \<and> k \<le> 65536 \<and> unat (rw_reg_address rw) + 4 * k \<le> mmio_len p \<and> mmio_len p < 2 ^ 32 \<and>
     \<not> tx_dma_read_lock p"

lemma dword_shape:
  assumes "dword_request p rw k"
  shows "rw_shape (rw_size rw) = (of_nat k, DWORD_SIZE)" "unat (of_nat k :: u32) = k" "(of_nat k :: u32) \<noteq> 0"
    "unat (of_nat k * 4 :: u32) = 4 * k"
proof -
  have k: "unat (rw_size rw) = 4 * k" "0 < k" "k \<le> 65536"
    using assms by (simp_all add: dword_request_def)
  show u: "unat (of_nat k :: u32) = k"
    using k(3) by (simp add: unat_of_nat)
  then show "(of_nat k :: u32) \<noteq> 0" "unat (of_nat k * 4 :: u32) = 4 * k"
    using k by (auto simp: unat_word_ariths)
  have "rw_size rw mod 4 = 0" "rw_size rw div 4 = of_nat k"
    using k u by (simp_all add: word_unat_eq_iff unat_mod unat_div)
  then show "rw_shape (rw_size rw) = (of_nat k, DWORD_SIZE)"
    by (simp add: rw_shape_def)
qed

lemma reg_access_set:
  assumes "kmalloc_rw v" "kmalloc_tmp v" "rw_request m argp rw" "dword_request p rw k" "rw_direction rw = SET_REG"
    "readable m (rw_value rw) (4 * k)"
  shows "xp_dev_reg_access v m argp p =
    Some (0, m, p\<lparr>vma := put_words (vma p) (unat (rw_reg_address rw)) (words_of (ubytes m (rw_value rw) (4 * k)))\<rparr>)"
proof -
  note sh = dword_shape [OF assms(4)]
  let ?tmp = "map (tmp_junk v) [0..<4 * k]" and ?bs = "ubytes m (rw_value rw) (4 * k)"
  have k: "k \<le> 65536" "unat (rw_reg_address rw) + 4 * k \<le> mmio_len p" "mmio_len p < 2 ^ 32" "\<not> tx_dma_read_lock p"
    using assms(4) by (simp_all add: dword_request_def)
  have cin: "copy_in_loop m (rw_value rw) ?tmp 0 (of_nat k * 4) = Some (0, ?bs)"
    using copy_in_loop_ok [of 0 "of_nat k * 4" ?tmp m "rw_value rw"] k(1) assms(6) by (simp add: sh(4))
  have "reg_write_loop io_store32 p 4 0 k (rw_reg_address rw) (words_of ?bs) =
      Some (p\<lparr>vma := put_words (vma p) (unat (rw_reg_address rw)) (words_of ?bs)\<rparr>)"
    using reg_write_loop_dword [OF k(3,2), of 0 "words_of ?bs"] by (simp add: length_words_of)
  then have wr: "xp_dev_reg_write (words_of ?bs) (rw_reg_address rw) 4 p (of_nat k) =
      Some (0, p\<lparr>vma := put_words (vma p) (unat (rw_reg_address rw)) (words_of ?bs)\<rparr>)"
    using k(4) sh(2) by (simp add: xp_dev_reg_write_def BYTE_SIZE_def WORD_SIZE_def DWORD_SIZE_def)
  show ?thesis
    using assms(1-3,5) sh(1-3) cin wr
    by (simp add: xp_dev_reg_access_def rw_request_def copy_from_user_ok Let_def DWORD_SIZE_def)
qed

lemma reg_access_get:
  assumes "kmalloc_rw v" "kmalloc_tmp v" "rw_request m argp rw" "dword_request p rw k" "rw_direction rw = GET_REG"
    "writable m (rw_value rw) (4 * k)"
  shows "\<exists>m'. xp_dev_reg_access v m argp p = Some (0, m', p) \<and>
    ubytes m' (rw_value rw) (4 * k) = bytes_of (words_at (vma p) (unat (rw_reg_address rw)) k) \<and>
    (\<forall>x. (\<forall>j<4 * k. x \<noteq> rw_value rw + of_nat j) \<longrightarrow> m' x = m x)"
proof -
  note sh = dword_shape [OF assms(4)]
  let ?tmp = "words_of (map (tmp_junk v) [0..<4 * k])" and ?ws = "words_at (vma p) (unat (rw_reg_address rw)) k"
  have k: "k \<le> 65536" "unat (rw_reg_address rw) + 4 * k \<le> mmio_len p" "mmio_len p < 2 ^ 32" "\<not> tx_dma_read_lock p"
    using assms(4) by (simp_all add: dword_request_def)
  have "reg_read_loop io_load32 p 4 0 k (rw_reg_address rw) ?tmp = Some ?ws"
    using reg_read_loop_dword [OF k(3,2), of 0 ?tmp] by (simp add: length_words_of)
  then have rd: "xp_dev_reg_read ?tmp (rw_reg_address rw) 4 p (of_nat k) = Some (0, ?ws)"
    using k(4) sh(2) by (simp add: xp_dev_reg_read_def BYTE_SIZE_def WORD_SIZE_def DWORD_SIZE_def)
  let ?m' = "snd (copy_to_user m (rw_value rw) (bytes_of ?ws))"
  have "copy_out_loop m (rw_value rw) (bytes_of ?ws) 0 (of_nat k * 4) 0 = Some (0, ?m')"
    using copy_out_loop_ok [of 0 "of_nat k * 4" "bytes_of ?ws" m "rw_value rw" 0] k(1) assms(6) by (simp add: sh(4))
  then have "xp_dev_reg_access v m argp p = Some (0, ?m', p)"
    using assms(1-3,5) sh(1-3) rd
    by (simp add: xp_dev_reg_access_def rw_request_def copy_from_user_ok Let_def DWORD_SIZE_def SET_REG_def GET_REG_def)
  moreover have "ubytes ?m' (rw_value rw) (4 * k) = bytes_of ?ws"
    using copy_to_user_bytes [of m "rw_value rw" "bytes_of ?ws"] assms(6) k(1) by simp
  moreover have "?m' x = m x" if "\<forall>j<4 * k. x \<noteq> rw_value rw + of_nat j" for x
    using copy_to_user_other [of "bytes_of ?ws" x "rw_value rw" m] that by simp
  ultimately show ?thesis
    by blast
qed

end
