(* ===== verification/Pci_Dev.thy ===== *)
theory Pci_Dev
  imports Reg_Dev Netdev_Init
begin

text \<open>
  The file operations of a device node (\<open>xp_dev_fops\<close>) and the functions that the driver exports
  to other kernel modules (end of \<open>xp_pcie_slave.c\<close>).

  The state of a device is \<open>init_state\<close>. Its registers are those of the network structure while
  there is one.
\<close>

definition dev_priv :: "init_state \<Rightarrow> xp_private" where
  "dev_priv st = (case xpnet st of None \<Rightarrow> is_pci st | Some net \<Rightarrow> pci_priv net)"

definition set_dev_priv :: "xp_private \<Rightarrow> init_state \<Rightarrow> init_state" where
  "set_dev_priv p st = st\<lparr>xpnet := map_option (\<lambda>net. net\<lparr>pci_priv := p\<rparr>) (xpnet st), is_pci := p\<rparr>"

subsection \<open>File operations\<close>

text \<open>\<open>filp->private_data\<close> after opening and closing the node.\<close>

definition xp_dev_open :: "init_state \<Rightarrow> rc \<times> init_state option" where
  "xp_dev_open cdev = (0, Some cdev)"

definition xp_dev_close :: "init_state option \<Rightarrow> rc \<times> init_state option" where
  "xp_dev_close private_data = (0, None)"

definition XP_MAX_IO_MEM :: nat where "XP_MAX_IO_MEM = 256 * 1024 * 1024"

text \<open>
  \<open>mmap\<close>: an error, or the arguments of \<open>io_remap_pfn_range\<close>: the user address, the page frame and
  the length, which is an \<open>unsigned int\<close>.
\<close>

definition xp_dev_mmap :: "u64 \<Rightarrow> u64 \<Rightarrow> u64 \<Rightarrow> rc + (u64 \<times> u64 \<times> u32)" where
  "xp_dev_mmap bar0_start vm_start vm_end =
     (let vsize = ucast (vm_end - vm_start) :: u32 in
      if unat vsize > XP_MAX_IO_MEM then Inl (- EINVAL) else Inr (vm_start, drop_bit 12 bar0_start, vsize))"

record ioctl_env =
  io_dev :: dev_env
  io_init :: init_env
  io_conf :: "u16 \<Rightarrow> u8"
  io_pid :: u32

definition xp_dev_ioctl :: "ioctl_env \<Rightarrow> umem \<Rightarrow> u32 \<Rightarrow> u64 \<Rightarrow> init_state \<Rightarrow> (rc \<times> umem \<times> init_state) option" where
  "xp_dev_ioctl v m cmd arg st =
     (if cmd = PCIE_REG_CMD then
        do { (rc, m, p) \<leftarrow> xp_dev_reg_access (io_dev v) m arg (dev_priv st); Some (rc, m, set_dev_priv p st) }
      else if cmd = REGISTER_PID then Some (0, m, set_dev_priv ((dev_priv st)\<lparr>app_pid := io_pid v\<rparr>) st)
      else if cmd = INIT_NETDEV then do { (rc, st) \<leftarrow> xp_netdev_init (io_init v) st; Some (rc, m, st) }
      else if cmd = DEINIT_NETDEV then do { st \<leftarrow> xp_netdev_deinit st; Some (0, m, st) }
      else if cmd = PCIE_CONFIG_READ_CMD then
        (case xp_pci_conf_get (io_dev v) (io_conf v) m arg of (rc, m) \<Rightarrow> Some (rc, m, st))
      else Some (- EINVAL, m, st))"

text \<open>The entry point for 32-bit processes repeats the dispatch.\<close>

definition xp_dev_compat_ioctl :: "ioctl_env \<Rightarrow> umem \<Rightarrow> u32 \<Rightarrow> u64 \<Rightarrow> init_state \<Rightarrow> (rc \<times> umem \<times> init_state) option" where
  "xp_dev_compat_ioctl v m cmd arg st =
     (if cmd = PCIE_REG_CMD then
        do { (rc, m, p) \<leftarrow> xp_dev_reg_access (io_dev v) m arg (dev_priv st); Some (rc, m, set_dev_priv p st) }
      else if cmd = REGISTER_PID then Some (0, m, set_dev_priv ((dev_priv st)\<lparr>app_pid := io_pid v\<rparr>) st)
      else if cmd = INIT_NETDEV then do { (rc, st) \<leftarrow> xp_netdev_init (io_init v) st; Some (rc, m, st) }
      else if cmd = DEINIT_NETDEV then do { st \<leftarrow> xp_netdev_deinit st; Some (0, m, st) }
      else if cmd = PCIE_CONFIG_READ_CMD then
        (case xp_pci_conf_get (io_dev v) (io_conf v) m arg of (rc, m) \<Rightarrow> Some (rc, m, st))
      else Some (- EINVAL, m, st))"

subsection \<open>Exported functions\<close>

text \<open>
  \<open>xp_pcie_dev_ptr\<close>: the devices by minor number, \<open>None\<close> for a slot that holds NULL. The index is
  an \<open>int\<close> and only its upper bound is tested.
\<close>

definition MAX_DEV_SUPPORTED :: int where "MAX_DEV_SUPPORTED = 8"

type_synonym devs = "init_state option list"

definition dev_slot :: "devs \<Rightarrow> int \<Rightarrow> init_state option option" where
  "dev_slot devs dev = (if dev < 0 then None else arr_get devs (nat dev))"

definition xp_pci_drv_write_reg :: "devs \<Rightarrow> int \<Rightarrow> u32 \<Rightarrow> u32 \<Rightarrow> u8 \<Rightarrow> (rc \<times> devs) option" where
  "xp_pci_drv_write_reg devs dev val reg_addr reg_size =
     (if dev \<ge> MAX_DEV_SUPPORTED then Some (- 1, devs)
      else do { s \<leftarrow> dev_slot devs dev;
        case s of
          None \<Rightarrow> Some (- 1, devs)
        | Some st \<Rightarrow>
            do { (rc, p) \<leftarrow> xp_dev_reg_write [val] reg_addr reg_size (dev_priv st) 1;
                 Some (rc, devs[nat dev := Some (set_dev_priv p st)]) } })"

definition xp_pci_drv_read_reg :: "devs \<Rightarrow> int \<Rightarrow> u32 \<Rightarrow> u32 \<Rightarrow> u8 \<Rightarrow> (rc \<times> u32) option" where
  "xp_pci_drv_read_reg devs dev val reg_addr reg_size =
     (if dev \<ge> MAX_DEV_SUPPORTED then Some (- 1, val)
      else do { s \<leftarrow> dev_slot devs dev;
        case s of
          None \<Rightarrow> Some (- 1, val)
        | Some st \<Rightarrow>
            do { (rc, vs) \<leftarrow> xp_dev_reg_read [val] reg_addr reg_size (dev_priv st) 1; Some (rc, hd vs) } })"

definition xp_get_reg_addr_by_id :: "devs \<Rightarrow> int \<Rightarrow> xp_register \<Rightarrow> u32 option" where
  "xp_get_reg_addr_by_id devs dev reg_id =
     (if dev \<ge> MAX_DEV_SUPPORTED then Some (- 1)
      else do { s \<leftarrow> dev_slot devs dev;
        case s of
          None \<Rightarrow> Some (- 1)
        | Some st \<Rightarrow> Some (XP_GET_PCI_BASE_OFFSET_FROM_REG_NAME reg_id (mode (dev_priv st))) })"

text \<open>
  \<open>xp_packet_send\<close> of \<open>xp_pcie_slave.c\<close>: the network device is brought up on demand; \<open>freed\<close> says
  what became of the packet.
\<close>

definition xp_pci_packet_send ::
  "init_env \<Rightarrow> (nat \<Rightarrow> xpnet_descriptor list \<Rightarrow> xpnet_descriptor list) \<Rightarrow> (sk_buff \<Rightarrow> u32) \<Rightarrow> devs \<Rightarrow> int \<Rightarrow> sk_buff \<Rightarrow>
   (rc \<times> bool \<times> devs) option"
where
  "xp_pci_packet_send v chip stale devs dev skb =
     (if dev \<ge> MAX_DEV_SUPPORTED then Some (- 1, False, devs)
      else do { s \<leftarrow> dev_slot devs dev;
        case s of
          None \<Rightarrow> Some (- 1, False, devs)
        | Some st \<Rightarrow>
            do { st \<leftarrow> (if xpnet st = None then map_option snd (xp_netdev_init v st) else Some st);
                 case xpnet st of
                   None \<Rightarrow> Some (- 1, False, devs[nat dev := Some st])
                 | Some net \<Rightarrow>
                     do { (rc, freed, net) \<leftarrow> xpnet_start_xmit chip stale (Some skb) net;
                          Some (if rc \<noteq> NETDEV_TX_OK then - 1 else 0, freed,
                                devs[nat dev := Some (st\<lparr>xpnet := Some net, is_pci := pci_priv net\<rparr>)]) } } })"

subsection \<open>Lemmas\<close>

lemma dev_priv_set [simp]: "dev_priv (set_dev_priv p st) = p"
  by (cases "xpnet st") (simp_all add: dev_priv_def set_dev_priv_def)

lemma set_dev_priv_set [simp]: "set_dev_priv p (set_dev_priv q st) = set_dev_priv p st"
  by (cases "xpnet st") (simp_all add: set_dev_priv_def)

lemma compat_ioctl_eq: "xp_dev_compat_ioctl v m cmd arg st = xp_dev_ioctl v m cmd arg st"
  by (simp add: xp_dev_ioctl_def xp_dev_compat_ioctl_def)

text \<open>A packet sent on demand through a device that was down.\<close>

lemma packet_send_starts_device:
  assumes "length devs = 8" "0 \<le> dev" "dev < 8" "devs ! nat dev = Some st" "net_down st" "\<And>c. dma_res (is_dma st) c \<noteq> None"
    "ie_kzalloc v" "mode_granted (ie_mode v)" "ie_workqueue v" "chip_ok chip" "skb_wf skb"
  shows "\<exists>rc freed devs' st' net'. xp_pci_packet_send v chip stale devs dev skb = Some (rc, freed, devs') \<and> (rc = 0 \<longleftrightarrow> freed) \<and>
    devs' = devs[nat dev := Some st'] \<and> xpnet st' = Some net' \<and> tx_q_ok (tx_queue net' ! 0)"
proof -
  from assms(5,6) obtain st1 where i: "xp_netdev_init v st = Some (0, st1)" "net_up (\<lambda>_. 0) st1 (mset (dma_live (is_dma st)))"
    by (cases rule: init_cases [where v = v and hash = "\<lambda>_. 0"]) (use assms(7-9) in auto)
  obtain net where n: "xpnet st1 = Some net" "tx_net_ok net"
    using net_up_serves [OF i(2)] by blast
  have q0: "txqno net = 0"
    using i(2) n(1) by (auto simp: net_up_def rings_built_def)
  obtain rc net' q' where x: "xpnet_start_xmit chip stale (Some skb) net = Some (rc, rc = NETDEV_TX_OK, net')"
      "tx_queue net' = (tx_queue net)[0 := q']" "tx_q_ok q'" "0 < length (tx_queue net)"
    using start_xmit_ok [of chip net "Some skb" stale] assms(10,11) n(2) q0 by (auto simp: tx_net_ok_def)
  have "xpnet st = None"
    using assms(5) by (simp add: net_down_def)
  moreover have "dev_slot devs dev = Some (Some st)"
    using assms(1-4) by (simp add: dev_slot_def arr_get_def)
  ultimately show ?thesis
    using i(1) n(1) x assms(3) by (simp add: xp_pci_packet_send_def MAX_DEV_SUPPORTED_def) auto
qed

end
