(* ===== verification/Pci_Probe.thy ===== *)
theory Pci_Probe
  imports Pci_Dev Dma_Mem
begin

text \<open>
  The life of the driver in the PCI subsystem: \<open>xp_pci_probe\<close> and \<open>xp_pci_remove\<close> for one device,
  \<open>xp_module_init\<close> and \<open>xp_module_exit\<close> for the module (\<open>xp_pcie_slave.c\<close>).

  What a call acquires is a field of \<open>pci_res\<close> or \<open>mod_res\<close>, true while it is held; what the kernel
  answers to the calls is an argument. The labels at the end of the functions are definitions
  of their own, each ending in the next.
\<close>

subsection \<open>One device\<close>

record pci_env =
  pe_kzalloc :: bool
  pe_enable :: rc
  pe_regions :: rc
  pe_mask64 :: rc
  pe_cmask64 :: rc
  pe_mask32 :: rc
  pe_cmask32 :: rc
  pe_coherent :: u64
  pe_is_pcie :: bool
  pe_save_state :: rc
  pe_msi :: "int \<Rightarrow> rc"
  pe_workqueue :: bool
  pe_irq_high :: rc
  pe_irq_low :: rc
  pe_mmio_len :: u32
  pe_iomap :: bool
  pe_bar :: "nat \<Rightarrow> u8"
  pe_dev_id :: u16
  pe_cdev_add :: rc
  pe_device_create :: bool
  pe_proc :: bool
  pe_pid :: u32

text \<open>
  \<open>pci_request_regions\<close> takes all BARs of the device: \<open>pr_bar0\<close> and \<open>pr_other\<close>. The last two fields
  are the ones of \<open>xp_private_t\<close> that \<open>xp_pci_remove\<close> goes by.
\<close>

record pci_res =
  pr_priv :: bool
  pr_enabled :: bool
  pr_bar0 :: bool
  pr_other :: bool
  pr_msi :: bool
  pr_irq_high :: bool
  pr_irq_low :: bool
  pr_wqueue :: bool
  pr_mapped :: bool
  pr_cdev :: bool
  pr_device :: bool
  pr_proc :: bool
  pr_msi_fail :: bool
  pr_msi_count :: int

definition no_res :: pci_res where
  "no_res = \<lparr>pr_priv = False, pr_enabled = False, pr_bar0 = False, pr_other = False, pr_msi = False, pr_irq_high = False,
     pr_irq_low = False, pr_wqueue = False, pr_mapped = False, pr_cdev = False, pr_device = False, pr_proc = False,
     pr_msi_fail = False, pr_msi_count = 0\<rparr>"

text \<open>The static and global variables: \<open>minor\<close>, \<open>xp_pcie_dev_ptr\<close>, the mask of the DMA device, \<open>isr_enable\<close>.\<close>

record xp_module =
  next_minor :: nat
  xp_pcie_dev_ptr :: devs
  dma_dev_mask :: u64
  isr_enable :: bool

text \<open>The labels. \<open>release_region\<close> at \<open>cleanup_ports\<close> names an I/O port range that was never requested.\<close>

definition err_free_memory :: "pci_res \<Rightarrow> pci_res" where
  "err_free_memory r = (if pr_priv r \<and> pr_wqueue r then r\<lparr>pr_wqueue := False, pr_priv := False\<rparr> else r)"

definition err_req_region :: "pci_res \<Rightarrow> pci_res" where
  "err_req_region r = err_free_memory (r\<lparr>pr_enabled := False\<rparr>)"

definition cleanup_ports :: "pci_res \<Rightarrow> pci_res" where
  "cleanup_ports r = err_req_region r"

definition err_pci_iomap :: "pci_res \<Rightarrow> pci_res" where
  "err_pci_iomap r = cleanup_ports (r\<lparr>pr_bar0 := False\<rparr>)"

definition err_cdev_add :: "pci_res \<Rightarrow> pci_res" where
  "err_cdev_add r = err_pci_iomap (r\<lparr>pr_mapped := False\<rparr>)"

definition err_device_create :: "pci_res \<Rightarrow> pci_res" where
  "err_device_create r = err_cdev_add (r\<lparr>pr_cdev := False\<rparr>)"

definition CNX88091_A0 :: u16 where "CNX88091_A0 = 0xF000"
definition CNX88091_B0 :: u16 where "CNX88091_B0 = 0xF008"
definition CNX88072_B0 :: u16 where "CNX88072_B0 = 0xF009"
definition CNX88071_B0 :: u16 where "CNX88071_B0 = 0xF00A"
definition CNX88061_B0 :: u16 where "CNX88061_B0 = 0xF00B"

text \<open>The DMA masks: when neither mask can be set the code goes on.\<close>

definition probe_dma_mask :: "pci_env \<Rightarrow> rc" where
  "probe_dma_mask v =
     (if pe_mask64 v = 0 then pe_cmask64 v else if pe_mask32 v = 0 then pe_cmask32 v else 0)"

definition INTR_COUNT :: int where "INTR_COUNT = 2"

definition probe_msi :: "pci_env \<Rightarrow> bool \<Rightarrow> pci_res \<Rightarrow> rc \<times> pci_res" where
  "probe_msi v isr r =
     (if \<not> isr then (0, r)
      else
        let msi_count = pe_msi v INTR_COUNT;
            fail = (msi_count < 0 \<or> msi_count \<noteq> 0 \<and> msi_count < INTR_COUNT \<and> pe_msi v msi_count < 0);
            r = r\<lparr>pr_msi_fail := fail, pr_msi := \<not> fail\<rparr>
        in if fail then (0, r)
           else
             let r = r\<lparr>pr_msi_count := msi_count, pr_wqueue := pe_workqueue v\<rparr> in
             if pe_irq_high v \<noteq> 0 then (- ENODEV, r)
             else
               let r = r\<lparr>pr_irq_high := True\<rparr> in
               if msi_count = 0 then (0, r\<lparr>pr_irq_low := (pe_irq_low v = 0)\<rparr>) else (0, r))"

definition probe_mode :: "u16 \<Rightarrow> u32 \<Rightarrow> xp_address_mode option" where
  "probe_mode dev len =
     (if dev = CNX88091_A0 then Some XP_A0_UNCOMPRESSED
      else if dev = CNX88091_B0 \<or> dev = CNX88072_B0 then
        (if unat len div (1024 * 1024) = 64 then Some XP_B0_COMPRESSED else Some XP_B0_UNCOMPRESSED)
      else None)"

definition probed_priv :: "pci_env \<Rightarrow> xp_address_mode \<Rightarrow> nat \<Rightarrow> pci_res \<Rightarrow> xp_private" where
  "probed_priv v md minor r =
     \<lparr>mode = md, vma = pe_bar v, mmio_len = unat (pe_mmio_len v), tx_dma_read_lock = False, cdev_minor = of_nat minor,
      app_pid = pe_pid v, w_queue = (if pr_wqueue r then Some [] else None)\<rparr>"

text \<open>
  \<open>base\<close> is the rest of the driver's state that a new device starts from. \<open>probe_finish\<close> is the
  function from the registration of the character device on.
\<close>

definition probe_finish ::
  "pci_env \<Rightarrow> xp_address_mode \<Rightarrow> init_state \<Rightarrow> pci_res \<Rightarrow> xp_module \<Rightarrow> rc \<times> pci_res \<times> init_state option \<times> xp_module"
where
  "probe_finish v md base r mo =
     (if pe_cdev_add v \<noteq> 0 then (pe_cdev_add v, err_cdev_add r, None, mo)
      else let r = r\<lparr>pr_cdev := True\<rparr> in
      if \<not> pe_device_create v then (0, err_device_create r, None, mo)
      else
        let r = r\<lparr>pr_device := True, pr_proc := pe_proc v\<rparr>;
            minor = next_minor mo;
            st = base\<lparr>xpnet := None, is_pci := probed_priv v md minor r\<rparr>
        in (0, r, Some st,
            mo\<lparr>next_minor := minor + 1,
               xp_pcie_dev_ptr := (if minor < 8 then (xp_pcie_dev_ptr mo)[minor := Some st] else xp_pcie_dev_ptr mo)\<rparr>))"

definition xp_pci_probe :: "pci_env \<Rightarrow> init_state \<Rightarrow> xp_module \<Rightarrow> rc \<times> pci_res \<times> init_state option \<times> xp_module" where
  "xp_pci_probe v base mo =
     (if next_minor mo > 1048574 then (- EINVAL, no_res, None, mo)
      else if \<not> pe_kzalloc v then (- ENOMEM, no_res, None, mo)
      else let r = no_res\<lparr>pr_priv := True\<rparr> in
      if pe_enable v \<noteq> 0 then (- EFAULT, err_free_memory r, None, mo)
      else let r = r\<lparr>pr_enabled := True\<rparr> in
      if pe_regions v \<noteq> 0 then (- ENOMEM, err_req_region r, None, mo)
      else let r = r\<lparr>pr_bar0 := True, pr_other := True\<rparr> in
      if probe_dma_mask v \<noteq> 0 then (probe_dma_mask v, err_req_region r, None, mo)
      else let mo = (if dma_dev_mask mo = 0 then mo\<lparr>dma_dev_mask := pe_coherent v\<rparr> else mo) in
      if \<not> pe_is_pcie v then (- EFAULT, err_free_memory r, None, mo)
      else if pe_save_state v \<noteq> 0 then (- EFAULT, err_free_memory r, None, mo)
      else case probe_msi v (isr_enable mo) r of (rc, r) \<Rightarrow>
      if rc \<noteq> 0 then (rc, err_free_memory r, None, mo)
      else if pe_mmio_len v = 0 then (- ENOMEM, cleanup_ports r, None, mo)
      else if \<not> pe_iomap v then (- ENOMEM, err_pci_iomap r, None, mo)
      else let r = r\<lparr>pr_mapped := True\<rparr> in
      case probe_mode (pe_dev_id v) (pe_mmio_len v) of
        None \<Rightarrow> (- EFAULT, err_free_memory r, None, mo)
      | Some md \<Rightarrow>
          probe_finish v md base r mo)"

text \<open>
  \<open>xp_pci_remove\<close>. The work queue is flushed and destroyed without a test, although the probe goes
  on without one: \<open>None\<close> is that access through a null pointer. \<open>unregister_chrdev\<close> names the 256
  minors of the major number, which is not the range the module registered, and finds nothing.
\<close>

definition xp_pci_remove :: "pci_res \<Rightarrow> init_state \<Rightarrow> xp_module \<Rightarrow> (pci_res \<times> init_state \<times> xp_module) option" where
  "xp_pci_remove r st mo =
     do { let minor = unat (cdev_minor (dev_priv st));
          st \<leftarrow> xp_netdev_deinit st;
          let r = r\<lparr>pr_device := False, pr_cdev := False, pr_mapped := False, pr_bar0 := False\<rparr>;
          r \<leftarrow> (if isr_enable mo \<and> \<not> pr_msi_fail r
               then if pr_wqueue r
                    then Some (r\<lparr>pr_irq_high := False, pr_irq_low := (if pr_msi_count r = 0 then False else pr_irq_low r),
                                 pr_msi := False, pr_wqueue := False\<rparr>)
                    else None
               else Some r);
          let r = r\<lparr>pr_proc := False, pr_priv := False, pr_enabled := False\<rparr>;
          Some (r, st, mo\<lparr>xp_pcie_dev_ptr := (if minor < 8 then (xp_pcie_dev_ptr mo)[minor := None] else xp_pcie_dev_ptr mo)\<rparr>) }"

subsection \<open>The module\<close>

record mod_env =
  ve_class :: bool
  ve_chrdev :: bool
  ve_dma_priv :: bool
  ve_cdev_add :: bool
  ve_device :: bool
  ve_dma_mask :: bool
  ve_dma_parms :: bool
  ve_register :: rc

record mod_res =
  mr_class :: bool
  mr_chrdev :: bool
  mr_dma_priv :: bool
  mr_cdev :: bool
  mr_device :: bool
  mr_dma_mask :: bool
  mr_dma_parms :: bool
  mr_driver :: bool

definition no_mod :: mod_res where
  "no_mod = \<lparr>mr_class = False, mr_chrdev = False, mr_dma_priv = False, mr_cdev = False, mr_device = False,
     mr_dma_mask = False, mr_dma_parms = False, mr_driver = False\<rparr>"

text \<open>The device table: vendor and device id of the entries before the terminating one.\<close>

definition VENDOR_ID :: u32 where "VENDOR_ID = 0x177D"
definition SUPPORTED_DEVICE_IDS :: nat where "SUPPORTED_DEVICE_IDS = 5"

definition xp_pci_ids :: "(u32 \<times> u32) list" where
  "xp_pci_ids =
     [(VENDOR_ID, ucast CNX88091_A0), (VENDOR_ID, ucast CNX88091_B0), (VENDOR_ID, ucast CNX88072_B0),
      (VENDOR_ID, ucast CNX88061_B0), (VENDOR_ID, ucast CNX88071_B0), (VENDOR_ID, 0), (0, 0)]"

fun id_check_loop :: "(u32 \<times> u32) list \<Rightarrow> u32 \<Rightarrow> bool \<Rightarrow> nat \<Rightarrow> nat \<Rightarrow> bool" where
  "id_check_loop ids dyn upd i 0 = upd"
| "id_check_loop ids dyn upd i (Suc k) = id_check_loop ids dyn (if snd (ids ! i) = dyn then False else upd) (Suc i) k"

definition pci_ids_update :: "u32 \<Rightarrow> (u32 \<times> u32) list \<Rightarrow> (u32 \<times> u32) list" where
  "pci_ids_update dyn ids =
     (let upd = (dyn \<noteq> 0 \<and> id_check_loop ids dyn True 0 SUPPORTED_DEVICE_IDS) in
      if upd then ids[SUPPORTED_DEVICE_IDS := (fst (ids ! SUPPORTED_DEVICE_IDS), dyn)]
      else ids[SUPPORTED_DEVICE_IDS := (0, 0)])"

text \<open>The labels of \<open>xp_module_init\<close>, from the last acquisition back to the first.\<close>

definition err_alloc_chrdev :: "mod_res \<Rightarrow> mod_res" where
  "err_alloc_chrdev r = r\<lparr>mr_class := False\<rparr>"

definition err_dma_prv_alloc :: "mod_res \<Rightarrow> mod_res" where
  "err_dma_prv_alloc r = err_alloc_chrdev (r\<lparr>mr_chrdev := False\<rparr>)"

definition err_cdev_dma_add :: "mod_res \<Rightarrow> mod_res" where
  "err_cdev_dma_add r = err_dma_prv_alloc (r\<lparr>mr_dma_priv := False\<rparr>)"

definition err_device_create_dma :: "mod_res \<Rightarrow> mod_res" where
  "err_device_create_dma r = err_cdev_dma_add (r\<lparr>mr_cdev := False\<rparr>)"

definition err_dma_mask_alloc :: "mod_res \<Rightarrow> mod_res" where
  "err_dma_mask_alloc r = err_device_create_dma (r\<lparr>mr_device := False\<rparr>)"

definition err_dma_parms_alloc :: "mod_res \<Rightarrow> mod_res" where
  "err_dma_parms_alloc r = err_dma_mask_alloc (r\<lparr>mr_dma_mask := False\<rparr>)"

definition err_pci_driver_register :: "mod_res \<Rightarrow> mod_res" where
  "err_pci_driver_register r = err_dma_parms_alloc (r\<lparr>mr_dma_parms := False\<rparr>)"

definition xp_module_init :: "mod_env \<Rightarrow> u32 \<Rightarrow> rc \<times> mod_res \<times> (u32 \<times> u32) list" where
  "xp_module_init v dyn =
     (let rc = 0; r = no_mod; ids = xp_pci_ids in
      if \<not> ve_class v then (- ENOMEM, r, ids)
      else let r = r\<lparr>mr_class := True\<rparr> in
      if \<not> ve_chrdev v then (- EBUSY, err_alloc_chrdev r, ids)
      else let r = r\<lparr>mr_chrdev := True\<rparr> in
      if \<not> ve_dma_priv v then (rc, err_dma_prv_alloc r, ids)
      else let r = r\<lparr>mr_dma_priv := True\<rparr> in
      if \<not> ve_cdev_add v then (rc, err_cdev_dma_add r, ids)
      else let r = r\<lparr>mr_cdev := True\<rparr> in
      if \<not> ve_device v then (rc, err_device_create_dma r, ids)
      else let r = r\<lparr>mr_device := True\<rparr> in
      if \<not> ve_dma_mask v then (rc, err_dma_mask_alloc r, ids)
      else let r = r\<lparr>mr_dma_mask := True\<rparr> in
      if \<not> ve_dma_parms v then (rc, err_dma_parms_alloc r, ids)
      else let r = r\<lparr>mr_dma_parms := True\<rparr>; ids = pci_ids_update dyn ids in
      if ve_register v < 0 then (ve_register v, err_pci_driver_register r, ids)
      else (0, r\<lparr>mr_driver := True\<rparr>, ids))"

definition xp_module_exit :: "mod_res \<Rightarrow> xp_dma_private \<Rightarrow> (mod_res \<times> xp_dma_private) option" where
  "xp_module_exit r priv =
     (if \<not> mr_dma_priv r then Some (r, priv)
      else
        do { priv \<leftarrow> (if coherent_dma_mask priv \<noteq> 0 then map_option snd (xp_dma_mem_cleanup priv) else Some priv);
             Some (r\<lparr>mr_dma_mask := False, mr_dma_parms := False, mr_device := False, mr_cdev := False, mr_dma_priv := False,
                     mr_driver := False, mr_chrdev := False, mr_class := False\<rparr>, priv) })"

end
