(* ===== verification/Pci_Props.thy ===== *)
theory Pci_Props
  imports Pci_Probe Life_Props
begin

text \<open>
  Properties of the device nodes and of the driver in the PCI subsystem: registers through
  \<open>ioctl\<close>, the configuration space, probing and removing a device, loading and unloading the
  module, and the errors on those paths.
\<close>

subsection \<open>Registers through the device node\<close>

text \<open>
  C16: What user space writes to consecutive registers through the device node is what it reads
  back from them: for whole double words inside the BAR, up to 256 KB at a time, the read fills
  the buffer of the second request with exactly the bytes of the first and changes no other user
  memory.
\<close>

theorem reg_ioctl_write_then_read:
  assumes "kmalloc_rw (io_dev v)" "kmalloc_tmp (io_dev v)" "rw_request m argp rw" "dword_request (dev_priv st) rw k"
    "rw_direction rw = SET_REG" "readable m (rw_value rw) (4 * k)"
    "rw_request m argp2 rw2" "rw_size rw2 = rw_size rw" "rw_reg_address rw2 = rw_reg_address rw" "rw_direction rw2 = GET_REG"
    "writable m (rw_value rw2) (4 * k)"
  shows "\<exists>st1 m2 st2. xp_dev_ioctl v m PCIE_REG_CMD argp st = Some (0, m, st1) \<and>
    xp_dev_ioctl v m PCIE_REG_CMD argp2 st1 = Some (0, m2, st2) \<and>
    ubytes m2 (rw_value rw2) (4 * k) = ubytes m (rw_value rw) (4 * k) \<and>
    (\<forall>x. (\<forall>j<4 * k. x \<noteq> rw_value rw2 + of_nat j) \<longrightarrow> m2 x = m x)"
proof -
  let ?p = "dev_priv st" and ?bs = "ubytes m (rw_value rw) (4 * k)" and ?a = "unat (rw_reg_address rw)"
  let ?p1 = "?p\<lparr>vma := put_words (vma ?p) ?a (words_of ?bs)\<rparr>"
  have w: "xp_dev_ioctl v m PCIE_REG_CMD argp st = Some (0, m, set_dev_priv ?p1 st)"
    using reg_access_set [OF assms(1-6)] by (simp add: xp_dev_ioctl_def)
  have r2: "dword_request ?p1 rw2 k"
    using assms(4,8,9) by (simp add: dword_request_def)
  obtain m2 where m2: "xp_dev_reg_access (io_dev v) m argp2 ?p1 = Some (0, m2, ?p1)"
      "ubytes m2 (rw_value rw2) (4 * k) = bytes_of (words_at (vma ?p1) ?a k)"
      "\<forall>x. (\<forall>j<4 * k. x \<noteq> rw_value rw2 + of_nat j) \<longrightarrow> m2 x = m x"
    using reg_access_get [OF assms(1,2,7) r2 assms(10,11)] unfolding assms(9) by blast
  have "words_at (vma ?p1) ?a k = words_of ?bs"
    using words_at_put_words [of "vma ?p" ?a "words_of ?bs"] by (simp add: length_words_of)
  then have "bytes_of (words_at (vma ?p1) ?a k) = ?bs"
    by (simp add: bytes_of_words_of)
  then show ?thesis
    using w m2 by (simp add: xp_dev_ioctl_def)
qed

text \<open>Two requests in user memory: two double words from 0x200 to register 0x1000, and back to 0x300.\<close>

definition sample_rw :: "u8 \<Rightarrow> u32 \<Rightarrow> u64 \<Rightarrow> xp_reg_rw" where
  "sample_rw d n a = \<lparr>rw_reg_address = 0x1000, rw_direction = d, rw_size = n, rw_value = a\<rparr>"

definition rw_umem :: "xp_reg_rw \<Rightarrow> xp_reg_rw \<Rightarrow> umem" where
  "rw_umem w1 w2 =
     snd (copy_to_user (snd (copy_to_user (\<lambda>_. Some (7, True)) 0 (reg_rw_bytes w1))) 0x100 (reg_rw_bytes w2))"

lemma reg_rw_roundtrip: "reg_rw_of_bytes (reg_rw_bytes w) = w" "length (reg_rw_bytes w) = 17"
  by (simp_all add: reg_rw_of_bytes_def reg_rw_bytes_def le64_at_def le32_at_def le32_bytes_def le64_bytes_def
      le32_byte_of32 join64_halves)

lemma rw_umem_ok: "writable (rw_umem w1 w2) a n" "readable (rw_umem w1 w2) a n"
  "rw_request (rw_umem w1 w2) 0 w1" "rw_request (rw_umem w1 w2) 0x100 w2"
proof -
  have cw: "can_write (rw_umem w1 w2) a" for a
    by (simp add: rw_umem_def copy_to_user_can_write) (simp add: can_write_def)
  then show w: "writable (rw_umem w1 w2) a n" for a n
    by (simp add: writable_def)
  then show r: "readable (rw_umem w1 w2) a n" for a n
    by (rule writable_readable)
  let ?m1 = "snd (copy_to_user (\<lambda>_. Some (7, True)) 0 (reg_rw_bytes w1))"
  have "writable (\<lambda>_. Some (7, True)) 0 17" "writable ?m1 0x100 17"
    by (simp_all add: writable_def copy_to_user_can_write) (simp_all add: can_write_def)
  then have b: "ubytes ?m1 0 17 = reg_rw_bytes w1" "ubytes (rw_umem w1 w2) 0x100 17 = reg_rw_bytes w2"
    using copy_to_user_bytes [of "\<lambda>_. Some (7, True)" 0 "reg_rw_bytes w1"] copy_to_user_bytes [of ?m1 "0x100" "reg_rw_bytes w2"]
    by (simp_all add: reg_rw_roundtrip rw_umem_def)
  have "rw_umem w1 w2 (of_nat k) = ?m1 (of_nat k)" if "k < 17" for k
    unfolding rw_umem_def
    by (rule copy_to_user_other) (use that in \<open>simp add: reg_rw_roundtrip word_unat_eq_iff unat_of_nat unat_word_ariths\<close>)
  then have "ubytes (rw_umem w1 w2) 0 17 = ubytes ?m1 0 17"
    by (auto simp: ubytes_def intro!: map_cong)
  then have "ubytes (rw_umem w1 w2) 0 17 = reg_rw_bytes w1"
    using b(1) by simp
  then show "rw_request (rw_umem w1 w2) 0 w1" "rw_request (rw_umem w1 w2) 0x100 w2"
    using b(2) r by (simp_all add: rw_request_def REG_RW_SIZE_def reg_rw_roundtrip)
qed

definition sample_io :: "(nat \<Rightarrow> u8) \<Rightarrow> ioctl_env" where
  "sample_io junk = \<lparr>io_dev = \<lparr>kmalloc_rw = True, kmalloc_tmp = True, tmp_junk = junk\<rparr>, io_init = granted_env True,
     io_conf = (\<lambda>i. ucast i), io_pid = 1\<rparr>"

lemma sample_io_fields [simp]: "kmalloc_rw (io_dev (sample_io j))" "kmalloc_tmp (io_dev (sample_io j))" "tmp_junk (io_dev (sample_io j)) = j"
  by (simp_all add: sample_io_def)

lemma dev_priv_down [simp]: "dev_priv (sample_down e) = sample_priv XP_A0_UNCOMPRESSED"
  by (simp add: dev_priv_def sample_down_def)

theorem reg_ioctl_write_then_read_witness:
  "\<exists>st1 m2 st2.
     xp_dev_ioctl (sample_io (\<lambda>_. 0)) (rw_umem (sample_rw SET_REG 8 0x200) (sample_rw GET_REG 8 0x300)) PCIE_REG_CMD 0 (sample_down dma_rich) =
       Some (0, rw_umem (sample_rw SET_REG 8 0x200) (sample_rw GET_REG 8 0x300), st1) \<and>
     xp_dev_ioctl (sample_io (\<lambda>_. 0)) (rw_umem (sample_rw SET_REG 8 0x200) (sample_rw GET_REG 8 0x300)) PCIE_REG_CMD 0x100 st1 =
       Some (0, m2, st2)"
proof -
  let ?w = "sample_rw SET_REG 8 0x200" and ?r = "sample_rw GET_REG 8 0x300"
  have "dword_request (dev_priv (sample_down dma_rich)) ?w 2"
    by (simp add: dword_request_def sample_rw_def) (simp add: sample_priv_def)
  moreover have "rw_direction ?w = SET_REG" "rw_size ?r = rw_size ?w" "rw_reg_address ?r = rw_reg_address ?w" "rw_direction ?r = GET_REG"
    by (simp_all add: sample_rw_def)
  ultimately show ?thesis
    using reg_ioctl_write_then_read [OF sample_io_fields(1,2) rw_umem_ok(3) _ _ rw_umem_ok(2) rw_umem_ok(4) _ _ _ rw_umem_ok(1)]
    by blast
qed

text \<open>
  C35: A write of three bytes copies them next to each other but takes every register byte from a
  double word of its own, so two of the three bytes that reach the chip are what the kernel's
  buffer happened to hold.
\<close>

theorem three_byte_write_takes_kernel_memory:
  assumes "kmalloc_rw v" "kmalloc_tmp v" "rw_request m argp rw" "rw_size rw = 3" "rw_direction rw = SET_REG"
    "readable m (rw_value rw) 3" "unat (rw_reg_address rw) + 6 \<le> mmio_len p" "mmio_len p < 2 ^ 32" "\<not> tx_dma_read_lock p"
  shows "xp_dev_reg_access v m argp p =
    Some (0, m, p\<lparr>vma := (vma p)(unat (rw_reg_address rw) := ubytes m (rw_value rw) 3 ! 0,
      unat (rw_reg_address rw) + 1 := tmp_junk v 4, unat (rw_reg_address rw) + 2 := tmp_junk v 8)\<rparr>)"
proof -
  let ?a = "rw_reg_address rw" and ?tmp = "map (tmp_junk v) [0..<12]"
  let ?ws = "[le32 (ubytes m (rw_value rw) 3 ! 0) (ubytes m (rw_value rw) 3 ! 1) (ubytes m (rw_value rw) 3 ! 2) (tmp_junk v 3),
    le32 (tmp_junk v 4) (tmp_junk v 5) (tmp_junk v 6) (tmp_junk v 7),
    le32 (tmp_junk v 8) (tmp_junk v 9) (tmp_junk v 10) (tmp_junk v 11)]"
  have shape: "rw_shape (3 :: u32) = (3, BYTE_SIZE)"
    by (simp add: rw_shape_def)
  have "copy_in_loop m (rw_value rw) ?tmp 0 3 = Some (0, ubytes m (rw_value rw) 3 @ drop 3 ?tmp)"
    using copy_in_loop_ok [of 0 3 ?tmp m "rw_value rw"] assms(6) by simp
  moreover have "words_of (ubytes m (rw_value rw) 3 @ drop 3 ?tmp) = ?ws"
    by (simp add: eval_nat_numeral ubytes_def)
  moreover
  have u: "unat (?a + 1) = unat ?a + 1" "unat (?a + 2) = unat ?a + 2"
    using assms(7,8) by (simp_all add: unat_word_ariths)
  have "reg_write_loop (store_masked BYTE_MASK) p 1 0 (Suc (Suc (Suc 0))) ?a ?ws =
      Some (p\<lparr>vma := (vma p)(unat ?a := ubytes m (rw_value rw) 3 ! 0, unat ?a + 1 := tmp_junk v 4, unat ?a + 2 := tmp_junk v 8)\<rparr>)"
    using assms(7) u by (simp add: store_masked_byte byte_of32_le32 add.assoc arr_get_def)
  then have "reg_write_loop (store_masked BYTE_MASK) p 1 0 3 ?a ?ws =
      Some (p\<lparr>vma := (vma p)(unat ?a := ubytes m (rw_value rw) 3 ! 0, unat ?a + 1 := tmp_junk v 4, unat ?a + 2 := tmp_junk v 8)\<rparr>)"
    by (simp only: numeral_3_eq_3)
  then have "xp_dev_reg_write ?ws ?a BYTE_SIZE p 3 =
      Some (0, p\<lparr>vma := (vma p)(unat ?a := ubytes m (rw_value rw) 3 ! 0, unat ?a + 1 := tmp_junk v 4, unat ?a + 2 := tmp_junk v 8)\<rparr>)"
    using assms(9) by (simp add: xp_dev_reg_write_def BYTE_SIZE_def del: reg_write_loop.simps)
  ultimately show ?thesis
    using assms(1-5) shape
    by (simp add: xp_dev_reg_access_def rw_request_def copy_from_user_ok Let_def BYTE_SIZE_def)
qed

theorem three_byte_write_takes_kernel_memory_witness:
  "\<exists>m p. xp_dev_reg_access (io_dev (sample_io (\<lambda>i. of_nat i))) m 0 (sample_priv XP_A0_UNCOMPRESSED) = Some (0, m, p) \<and>
     vma p 0x1001 = 4 \<and> vma p 0x1002 = 8"
proof -
  let ?w = "sample_rw SET_REG 3 0x200"
  have "rw_size ?w = 3" "rw_direction ?w = SET_REG" "unat (rw_reg_address ?w) + 6 \<le> mmio_len (sample_priv XP_A0_UNCOMPRESSED)"
    "mmio_len (sample_priv XP_A0_UNCOMPRESSED) < 2 ^ 32" "\<not> tx_dma_read_lock (sample_priv XP_A0_UNCOMPRESSED)" "unat (rw_reg_address ?w) = 0x1000"
    by (simp_all add: sample_rw_def sample_priv_def)
  then show ?thesis
    using three_byte_write_takes_kernel_memory [OF sample_io_fields(1,2) rw_umem_ok(3) _ _ rw_umem_ok(2)] by fastforce
qed

subsection \<open>The configuration space\<close>


lemma nth_ubytes: "k < n \<Longrightarrow> ubytes m a n ! k = fst (the (m (a + of_nat k)))"
  by (simp add: ubytes_def)

definition conf_umem :: umem where
  "conf_umem a = Some (if a = 2 then 4 else 0, True)"


subsection \<open>Probing and removing\<close>

text \<open>The kernel grants what the probe asks for.\<close>

definition pci_granted :: "pci_env \<Rightarrow> bool" where
  "pci_granted v \<longleftrightarrow>
     pe_kzalloc v \<and> pe_enable v = 0 \<and> pe_regions v = 0 \<and> probe_dma_mask v = 0 \<and> pe_is_pcie v \<and> pe_save_state v = 0 \<and>
     pe_workqueue v \<and> pe_irq_high v = 0 \<and> pe_iomap v \<and> pe_mmio_len v \<noteq> 0 \<and> pe_cdev_add v = 0"

text \<open>The rest of the driver's state is that of a driver without network device.\<close>

definition base_down :: "init_state \<Rightarrow> bool" where
  "base_down b \<longleftrightarrow> mode_off (is_mode b) \<and> \<not> is_wqueue b \<and> is_dwork b = None \<and> pf_live (is_fs b) = []"

definition granted_res :: pci_res where
  "granted_res = no_res\<lparr>pr_priv := True, pr_enabled := True, pr_bar0 := True, pr_other := True\<rparr>"

definition masked_module :: "pci_env \<Rightarrow> xp_module \<Rightarrow> xp_module" where
  "masked_module v mo = (if dma_dev_mask mo = 0 then mo\<lparr>dma_dev_mask := pe_coherent v\<rparr> else mo)"

lemma masked_module_fields [simp]:
  "next_minor (masked_module v mo) = next_minor mo" "xp_pcie_dev_ptr (masked_module v mo) = xp_pcie_dev_ptr mo"
  "isr_enable (masked_module v mo) = isr_enable mo"
  by (simp_all add: masked_module_def)

lemma probe_granted:
  assumes "pci_granted v" "next_minor mo \<le> 1048574"
  obtains r where "probe_msi v (isr_enable mo) granted_res = (0, r)"
    "xp_pci_probe v base mo =
       (case probe_mode (pe_dev_id v) (pe_mmio_len v) of
          None \<Rightarrow> (- EFAULT, err_free_memory (r\<lparr>pr_mapped := True\<rparr>), None, masked_module v mo)
        | Some md \<Rightarrow> probe_finish v md base (r\<lparr>pr_mapped := True\<rparr>) (masked_module v mo))"
proof -
  have "fst (probe_msi v (isr_enable mo) granted_res) = 0"
    using assms(1) by (simp add: probe_msi_def pci_granted_def Let_def)
  then obtain r where r: "probe_msi v (isr_enable mo) granted_res = (0, r)"
    by (metis prod.collapse)
  have "xp_pci_probe v base mo =
       (case probe_mode (pe_dev_id v) (pe_mmio_len v) of
          None \<Rightarrow> (- EFAULT, err_free_memory (r\<lparr>pr_mapped := True\<rparr>), None, masked_module v mo)
        | Some md \<Rightarrow> probe_finish v md base (r\<lparr>pr_mapped := True\<rparr>) (masked_module v mo))"
    using assms r
    by (cases "probe_mode (pe_dev_id v) (pe_mmio_len v)")
      (simp_all add: xp_pci_probe_def pci_granted_def Let_def granted_res_def masked_module_def)
  then show ?thesis
    by (rule that [OF r])
qed

lemma probe_working:
  assumes "pci_granted v" "pe_device_create v" "next_minor mo < 8" "length (xp_pcie_dev_ptr mo) = 8"
    "probe_mode (pe_dev_id v) (pe_mmio_len v) = Some md" "bar0_size md \<le> unat (pe_mmio_len v)" "base_down base"
  shows "\<exists>r st mo'. xp_pci_probe v base mo = (0, r, Some st, mo') \<and> net_down st \<and> mode (dev_priv st) = md \<and>
    xp_pcie_dev_ptr mo' = (xp_pcie_dev_ptr mo)[next_minor mo := Some st] \<and> next_minor mo' = next_minor mo + 1 \<and>
    pr_mapped r \<and> pr_cdev r \<and> pr_device r"
proof -
  have "next_minor mo \<le> 1048574"
    using assms(3) by simp
  with assms(1) obtain r where p: "xp_pci_probe v base mo =
       (case probe_mode (pe_dev_id v) (pe_mmio_len v) of
          None \<Rightarrow> (- EFAULT, err_free_memory (r\<lparr>pr_mapped := True\<rparr>), None, masked_module v mo)
        | Some md \<Rightarrow> probe_finish v md base (r\<lparr>pr_mapped := True\<rparr>) (masked_module v mo))"
    by (rule probe_granted)
  have "unat (pe_mmio_len v) < 2 ^ 32"
    using unsigned_less [of "pe_mmio_len v"] by simp
  then have "priv_wf (probed_priv v md minor r)" for minor r
    using assms(6) by (simp add: priv_wf_def probed_priv_def)
  then show ?thesis
    using p assms(1-3,5,7)
    by (simp add: probe_finish_def pci_granted_def Let_def net_down_def base_down_def dev_priv_def) (simp add: probed_priv_def)
qed


definition sample_pci :: "u16 \<Rightarrow> bool \<Rightarrow> pci_env" where
  "sample_pci dev created =
     \<lparr>pe_kzalloc = True, pe_enable = 0, pe_regions = 0, pe_mask64 = 0, pe_cmask64 = 0, pe_mask32 = 0, pe_cmask32 = 0,
      pe_coherent = 0xFFFFFFFF, pe_is_pcie = True, pe_save_state = 0, pe_msi = (\<lambda>_. 0), pe_workqueue = True, pe_irq_high = 0,
      pe_irq_low = 0, pe_mmio_len = 0x10000000, pe_iomap = True, pe_bar = (\<lambda>_. 0), pe_dev_id = dev, pe_cdev_add = 0,
      pe_device_create = created, pe_proc = True, pe_pid = 1\<rparr>"

definition sample_module :: xp_module where
  "sample_module = \<lparr>next_minor = 0, xp_pcie_dev_ptr = replicate 8 None, dma_dev_mask = 0, isr_enable = True\<rparr>"

lemma sample_pci_ok [simp]: "pci_granted (sample_pci dev c)" "pe_device_create (sample_pci dev c) = c" "pe_dev_id (sample_pci dev c) = dev"
  "pe_mmio_len (sample_pci dev c) = 0x10000000" "pe_workqueue (sample_pci dev c)" "next_minor sample_module = 0" "length (xp_pcie_dev_ptr sample_module) = 8"
  "isr_enable sample_module" "pe_msi (sample_pci dev c) k = 0" "base_down (sample_down e)"
  by (simp_all add: sample_pci_def pci_granted_def probe_dma_mask_def sample_module_def base_down_def sample_down_def mode_off_def sample_intf_def)


text \<open>
  C28: Removing a device takes its network half down and gives back everything the probe acquired
  except for the BARs other than BAR 0: the probe requests all of them and the removal releases
  only one.
\<close>

theorem remove_leaves_other_bars:
  assumes "xp_pci_probe v base mo = (0, r, Some st, mo1)" "pe_workqueue v" "net_down st1 \<or> net_up hash st1 L"
  shows "\<exists>r2 st2 mo2. xp_pci_remove r st1 mo1 = Some (r2, st2, mo2) \<and> net_down st2 \<and>
    r2\<lparr>pr_msi_fail := False, pr_msi_count := 0\<rparr> = no_res\<lparr>pr_other := True\<rparr>"
proof -
  have acq: "pr_other r" "isr_enable mo1 = isr_enable mo"
      "if isr_enable mo \<and> \<not> pr_msi_fail r then pr_wqueue r \<and> (pr_msi_count r \<noteq> 0 \<longrightarrow> \<not> pr_irq_low r)
       else \<not> pr_msi r \<and> \<not> pr_irq_high r \<and> \<not> pr_irq_low r \<and> \<not> pr_wqueue r"
    using assms(1,2)
    by (auto simp: xp_pci_probe_def probe_finish_def probe_msi_def no_res_def Let_def split: if_splits option.splits)
  obtain st2 where "xp_netdev_deinit st1 = Some st2" "net_down st2"
    using assms(3) deinit_down [of hash st1 L] by (auto simp: xp_netdev_deinit_def net_down_def)
  then show ?thesis
    using acq by (cases r) (auto simp: xp_pci_remove_def Let_def no_res_def split: if_splits)
qed

theorem remove_leaves_other_bars_witness:
  "\<exists>r st mo1 r2 st2 mo2. xp_pci_probe (sample_pci CNX88091_B0 True) (sample_down dma_rich) sample_module = (0, r, Some st, mo1) \<and>
     xp_pci_remove r st mo1 = Some (r2, st2, mo2) \<and> pr_other r2 \<and> \<not> pr_enabled r2"
proof -
  let ?v = "sample_pci CNX88091_B0 True"
  have md: "probe_mode CNX88091_B0 0x10000000 = Some XP_B0_UNCOMPRESSED"
    by (simp add: probe_mode_def CNX88091_A0_def CNX88091_B0_def)
  obtain r st mo1 where p: "xp_pci_probe ?v (sample_down dma_rich) sample_module = (0, r, Some st, mo1)" "net_down st"
    using probe_working [of ?v sample_module XP_B0_UNCOMPRESSED "sample_down dma_rich"] md by (auto simp: bar0_size_def)
  obtain r2 st2 mo2 where "xp_pci_remove r st mo1 = Some (r2, st2, mo2)" "r2\<lparr>pr_msi_fail := False, pr_msi_count := 0\<rparr> = no_res\<lparr>pr_other := True\<rparr>"
    using remove_leaves_other_bars [OF p(1) _ disjI1 [OF p(2)]] by auto
  then show ?thesis
    using p(1) by (cases r2) (auto simp: no_res_def)
qed

text \<open>
  When the device node cannot be created, the probe undoes most of what it did and then
  returns 0, so the PCI core takes the device as bound to the driver.
\<close>

lemma probe_failure_returns_success:
  assumes "pci_granted v" "\<not> pe_device_create v" "next_minor mo \<le> 1048574" "probe_mode (pe_dev_id v) (pe_mmio_len v) = Some md"
  shows "\<exists>r mo'. xp_pci_probe v base mo = (0, r, None, mo') \<and> \<not> pr_cdev r \<and> \<not> pr_mapped r \<and> \<not> pr_enabled r \<and>
    xp_pcie_dev_ptr mo' = xp_pcie_dev_ptr mo"
proof -
  obtain r where "xp_pci_probe v base mo =
       (case probe_mode (pe_dev_id v) (pe_mmio_len v) of
          None \<Rightarrow> (- EFAULT, err_free_memory (r\<lparr>pr_mapped := True\<rparr>), None, masked_module v mo)
        | Some md \<Rightarrow> probe_finish v md base (r\<lparr>pr_mapped := True\<rparr>) (masked_module v mo))"
    by (rule probe_granted [OF assms(1,3)])
  then show ?thesis
    using assms(1,2,4)
    by (simp add: probe_finish_def pci_granted_def Let_def err_device_create_def err_cdev_add_def err_pci_iomap_def cleanup_ports_def
        err_req_region_def err_free_memory_def)
qed

text \<open>
  Two of the device ids that the driver offers to the PCI core are refused by its probe, which
  frees the private structure and leaves the interrupt handler registered with it, the device
  enabled and the BAR mapped.
\<close>

lemma listed_device_refused:
  assumes "pci_granted v" "next_minor mo \<le> 1048574" "isr_enable mo" "0 \<le> pe_msi v 2" "pe_msi v (pe_msi v 2) = 0"
    "pe_dev_id v = CNX88061_B0 \<or> pe_dev_id v = CNX88071_B0"
  shows "(VENDOR_ID, ucast (pe_dev_id v)) \<in> set xp_pci_ids \<and>
    (\<exists>r mo'. xp_pci_probe v base mo = (- EFAULT, r, None, mo') \<and> \<not> pr_priv r \<and> pr_irq_high r \<and> pr_enabled r \<and> pr_mapped r)"
proof -
  have md: "probe_mode (pe_dev_id v) (pe_mmio_len v) = None"
    using assms(6) by (auto simp: probe_mode_def CNX88091_A0_def CNX88091_B0_def CNX88072_B0_def CNX88061_B0_def CNX88071_B0_def)
  obtain r where r: "probe_msi v (isr_enable mo) granted_res = (0, r)" "xp_pci_probe v base mo =
       (case probe_mode (pe_dev_id v) (pe_mmio_len v) of
          None \<Rightarrow> (- EFAULT, err_free_memory (r\<lparr>pr_mapped := True\<rparr>), None, masked_module v mo)
        | Some md \<Rightarrow> probe_finish v md base (r\<lparr>pr_mapped := True\<rparr>) (masked_module v mo))"
    by (rule probe_granted [OF assms(1,2)])
  have "pr_priv r \<and> pr_irq_high r \<and> pr_enabled r \<and> pr_wqueue r"
    using r(1) assms(1,3-5) by (auto simp: probe_msi_def granted_res_def pci_granted_def INTR_COUNT_def Let_def split: if_splits)
  then show ?thesis
    using r(2) md assms(6) by (auto simp: err_free_memory_def xp_pci_ids_def)
qed

subsection \<open>The module\<close>

definition all_mod :: mod_res where
  "all_mod = \<lparr>mr_class = True, mr_chrdev = True, mr_dma_priv = True, mr_cdev = True, mr_device = True, mr_dma_mask = True,
     mr_dma_parms = True, mr_driver = True\<rparr>"



end
