(* ===== verification/Text_Fmt.thy ===== *)
theory Text_Fmt
  imports XpPrelude
begin

text \<open>
  Text as the driver writes and reads it: the conversions of the kernel's \<open>printf\<close> family and of
  \<open>sscanf\<close> that \<open>xp_pcie_slave.c\<close>, \<open>xp_netdev_proc.c\<close> and \<open>xp_netdev_intf.c\<close> use. A C string is its
  characters without the terminating zero.

  The main fact is the round trip: a number printed with \<open>%x\<close> is read back by \<open>%x\<close> when no further
  hexadecimal digit follows.
\<close>

subsection \<open>Printing\<close>

definition digit_char :: "nat \<Rightarrow> char" where
  "digit_char d = (if d < 10 then char_of (48 + d) else char_of (87 + d))"

fun fmt_base :: "nat \<Rightarrow> nat \<Rightarrow> string" where
  "fmt_base b n = (if n < b \<or> b < 2 then [digit_char n] else fmt_base b (n div b) @ [digit_char (n mod b)])"

declare fmt_base.simps [simp del]

text \<open>\<open>%x\<close>, \<open>%u\<close>, \<open>%d\<close>, and \<open>%#0wx\<close>, where the kernel puts the prefix before a zero as well.\<close>

definition fmt_x :: "nat \<Rightarrow> string" where "fmt_x n = fmt_base 16 n"
definition fmt_u :: "nat \<Rightarrow> string" where "fmt_u n = fmt_base 10 n"

definition fmt_d :: "int \<Rightarrow> string" where
  "fmt_d i = (if i < 0 then ''-'' @ fmt_u (nat (- i)) else fmt_u (nat i))"

definition pad_left :: "char \<Rightarrow> nat \<Rightarrow> string \<Rightarrow> string" where
  "pad_left c w s = replicate (w - length s) c @ s"

definition fmt_alt_x :: "nat \<Rightarrow> nat \<Rightarrow> string" where
  "fmt_alt_x w n = ''0x'' @ pad_left (CHR ''0'') (w - 2) (fmt_x n)"

text \<open>A field of a given width, filled with blanks.\<close>

abbreviation field :: "nat \<Rightarrow> string \<Rightarrow> string" where
  "field \<equiv> pad_left (CHR '' '')"

definition nl :: string where "nl = [CHR 0x0A]"
definition tab :: string where "tab = [CHR 0x09]"

text \<open>\<open>snprintf\<close> into a buffer of \<open>n\<close> bytes keeps \<open>n - 1\<close> characters.\<close>

definition snprintf :: "nat \<Rightarrow> string \<Rightarrow> string" where
  "snprintf n s = take (n - 1) s"

subsection \<open>Reading\<close>

definition isspace :: "char \<Rightarrow> bool" where
  "isspace c \<longleftrightarrow> c = CHR '' '' \<or> 9 \<le> (of_char c :: nat) \<and> (of_char c :: nat) \<le> 13"

definition skip_spaces :: "string \<Rightarrow> string" where
  "skip_spaces = dropWhile isspace"

definition to_lower :: "char \<Rightarrow> char" where
  "to_lower c = (if 65 \<le> (of_char c :: nat) \<and> (of_char c :: nat) \<le> 90 then char_of ((of_char c :: nat) + 32) else c)"

text \<open>The value of a digit in any base up to 16; other characters are no digits.\<close>

definition digit_val :: "char \<Rightarrow> nat" where
  "digit_val c =
     (let n = of_char (to_lower c) :: nat in
      if 48 \<le> n \<and> n \<le> 57 then n - 48 else if 97 \<le> n \<and> n \<le> 102 then n - 87 else 255)"

text \<open>\<open>simple_strtoull\<close>: an optional \<open>0x\<close> in base 16, then digits, accumulated in 64 bits.\<close>

fun parse_digits :: "nat \<Rightarrow> u64 \<Rightarrow> string \<Rightarrow> u64 \<times> string" where
  "parse_digits b acc [] = (acc, [])"
| "parse_digits b acc (c # cs) =
     (if digit_val c < b then parse_digits b (acc * of_nat b + of_nat (digit_val c)) cs else (acc, c # cs))"

definition strtoull :: "nat \<Rightarrow> string \<Rightarrow> u64 \<times> string" where
  "strtoull b s =
     (case s of
        c # d # r \<Rightarrow> parse_digits b 0 (if b = 16 \<and> c = CHR ''0'' \<and> to_lower d = CHR ''x'' then r else s)
      | _ \<Rightarrow> parse_digits b 0 s)"

text \<open>
  \<open>sscanf\<close> for formats of literal characters, white space, \<open>%x\<close> and \<open>%u\<close> into \<open>u32\<close> variables: the
  values that were stored. Their number is what the C function returns.
\<close>

fun sscanf :: "string \<Rightarrow> string \<Rightarrow> u32 list" where
  "sscanf [] s = []"
| "sscanf (f # fmt) s =
     (if isspace f then sscanf fmt (skip_spaces s)
      else if f = CHR ''%'' then
        (case fmt of
           [] \<Rightarrow> []
         | k # fmt' \<Rightarrow>
             let b = (if k = CHR ''x'' then 16 else 10); s = skip_spaces s in
             case s of
               [] \<Rightarrow> []
             | c # _ \<Rightarrow>
                 if digit_val c < b then (case strtoull b s of (v, r) \<Rightarrow> ucast v # sscanf fmt' r) else [])
      else case s of [] \<Rightarrow> [] | c # cs \<Rightarrow> if c = f then sscanf fmt cs else [])"

text \<open>\<open>!strnicmp(a, b, n)\<close>\<close>

definition strnicmp_eq :: "nat \<Rightarrow> string \<Rightarrow> string \<Rightarrow> bool" where
  "strnicmp_eq n a b \<longleftrightarrow> map to_lower (take n a) = map to_lower (take n b)"

subsection \<open>Round trip\<close>

lemma digit_val_digit_char: "d < 16 \<Longrightarrow> digit_val (digit_char d) = d"
  by (auto simp: digit_val_def digit_char_def to_lower_def Let_def)

lemma fmt_base_digits: "1 < b \<Longrightarrow> b \<le> 16 \<Longrightarrow> c \<in> set (fmt_base b n) \<Longrightarrow> digit_val c < b"
proof (induction b n rule: fmt_base.induct)
  case (1 b n)
  have m: "n mod b < b"
    using 1(2) by simp
  then have "digit_val (digit_char (n mod b)) < b"
    using 1(3) by (simp add: digit_val_digit_char)
  with 1 show ?case
    by (auto simp: fmt_base.simps [of b n] digit_val_digit_char split: if_splits)
qed

lemma fmt_base_not_empty [simp]: "fmt_base b n \<noteq> []"
  by (subst fmt_base.simps) simp

lemma parse_digits_append:
  "\<forall>c \<in> set s. digit_val c < b \<Longrightarrow> parse_digits b acc (s @ r) = parse_digits b (fst (parse_digits b acc s)) r"
  by (induction s arbitrary: acc) auto

lemma parse_digits_snoc:
  "\<forall>c \<in> set s. digit_val c < b \<Longrightarrow> digit_val c < b \<Longrightarrow>
   fst (parse_digits b acc (s @ [c])) = fst (parse_digits b acc s) * of_nat b + of_nat (digit_val c)"
  by (simp add: parse_digits_append)

lemma parse_fmt_base: "1 < b \<Longrightarrow> b \<le> 16 \<Longrightarrow> fst (parse_digits b 0 (fmt_base b n)) = of_nat n"
proof (induction b n rule: fmt_base.induct)
  case (1 b n)
  show ?case
  proof (cases "n < b")
    case True
    then show ?thesis
      using 1(2,3) by (simp add: fmt_base.simps [of b n] digit_val_digit_char)
  next
    case False
    then have f: "fmt_base b n = fmt_base b (n div b) @ [digit_char (n mod b)]"
      using 1(2) by (simp add: fmt_base.simps [of b n])
    have m: "n mod b < b"
      using 1(2) by simp
    then have d: "digit_val (digit_char (n mod b)) = n mod b"
      using 1(3) by (simp add: digit_val_digit_char)
    have "fst (parse_digits b 0 (fmt_base b n)) = of_nat (n div b) * of_nat b + (of_nat (n mod b) :: u64)"
      unfolding f using 1 False d m fmt_base_digits [OF 1(2,3)] by (subst parse_digits_snoc) auto
    also have "\<dots> = of_nat (n div b * b + n mod b)"
      by (simp only: of_nat_add of_nat_mult)
    finally show ?thesis
      by simp
  qed
qed

text \<open>White space ends a number.\<close>

definition num_end :: "string \<Rightarrow> bool" where
  "num_end r \<longleftrightarrow> (case r of [] \<Rightarrow> True | c # _ \<Rightarrow> isspace c)"

lemma isspace_no_digit: "isspace c \<Longrightarrow> digit_val c = 255 \<and> to_lower c \<noteq> CHR ''x''"
  by (auto simp: isspace_def digit_val_def to_lower_def)

lemma digit_not_x: "digit_val c < 16 \<Longrightarrow> to_lower c \<noteq> CHR ''x''"
  by (auto simp: digit_val_def)

lemma digit_not_space: "digit_val c < 16 \<Longrightarrow> \<not> isspace c"
  using isspace_no_digit by fastforce

lemma strtoull_no_prefix:
  assumes "length s < 2 \<or> to_lower (s ! 1) \<noteq> CHR ''x''"
  shows "strtoull b s = parse_digits b 0 s"
  using assms by (auto simp: strtoull_def split: list.split)

lemma strtoull_fmt_x:
  assumes "num_end r"
  shows "strtoull 16 (fmt_x n @ r) = (of_nat n, r)"
proof -
  have d: "digit_val c < 16" if "c \<in> set (fmt_x n)" for c
    using that fmt_base_digits [of 16] by (simp add: fmt_x_def)
  have "to_lower ((fmt_x n @ r) ! 1) \<noteq> CHR ''x''" if "2 \<le> length (fmt_x n @ r)"
  proof (cases "1 < length (fmt_x n)")
    case True
    then show ?thesis
      using d [of "fmt_x n ! 1"] by (simp add: nth_append digit_not_x)
  next
    case False
    then have "length (fmt_x n) = 1" "r \<noteq> []"
      using that fmt_base_not_empty [of 16 n] by (cases "fmt_x n"; auto simp: fmt_x_def)+
    then show ?thesis
      using assms isspace_no_digit by (auto simp: nth_append num_end_def split: list.splits)
  qed
  then have "strtoull 16 (fmt_x n @ r) = parse_digits 16 0 (fmt_x n @ r)"
    using not_le by (intro strtoull_no_prefix) blast
  also have "\<dots> = parse_digits 16 (of_nat n) r"
    using d parse_fmt_base [of 16 n] by (simp add: parse_digits_append fmt_x_def)
  also have "\<dots> = (of_nat n, r)"
    using assms isspace_no_digit by (cases r) (auto simp: num_end_def)
  finally show ?thesis .
qed

text \<open>The steps of \<open>sscanf\<close>: a literal character, white space, a hexadecimal number.\<close>

lemma sscanf_literal: "\<not> isspace f \<Longrightarrow> f \<noteq> CHR ''%'' \<Longrightarrow> sscanf (f # fmt) (f # s) = sscanf fmt s"
  by simp

lemma sscanf_mismatch: "\<not> isspace f \<Longrightarrow> f \<noteq> CHR ''%'' \<Longrightarrow> c \<noteq> f \<Longrightarrow> sscanf (f # fmt) (c # s) = []"
  by simp

lemma sscanf_blank: "\<not> isspace c \<Longrightarrow> sscanf (CHR '' '' # fmt) (CHR '' '' # c # s) = sscanf fmt (c # s)"
  by (simp add: isspace_def [of "CHR '' ''"] skip_spaces_def)

lemma sscanf_fmt_x:
  assumes "num_end r"
  shows "sscanf (CHR ''%'' # CHR ''x'' # fmt) (fmt_x n @ r) = of_nat n # sscanf fmt r"
proof -
  obtain c cs where f: "fmt_x n = c # cs"
    by (cases "fmt_x n") (auto simp: fmt_x_def)
  have "digit_val c < 16"
    using fmt_base_digits [of 16 c n] f by (simp add: fmt_x_def)
  then have "skip_spaces (fmt_x n @ r) = fmt_x n @ r" "digit_val c < 16"
    using f digit_not_space by (simp_all add: skip_spaces_def)
  moreover have "(ucast (of_nat n :: u64) :: u32) = of_nat n"
    by (simp add: unsigned_of_nat word_of_nat_eq_iff)
  ultimately show ?thesis
    using strtoull_fmt_x [OF assms, of n] f by (simp add: isspace_def [of "CHR ''%''"])
qed

declare sscanf.simps [simp del]

lemma length_fmt_base: "1 < b \<Longrightarrow> n < b ^ k \<Longrightarrow> 0 < k \<Longrightarrow> length (fmt_base b n) \<le> k"
proof (induction b n arbitrary: k rule: fmt_base.induct)
  case (1 b n)
  show ?case
  proof (cases "n < b")
    case True
    then show ?thesis
      using 1(4) by (simp add: fmt_base.simps [of b n])
  next
    case False
    then have k: "k \<noteq> 1"
      using 1(3) by auto
    then obtain j where j: "k = Suc j" "0 < j"
      using 1(4) by (cases k) auto
    have "n div b < b ^ j"
      using 1(3) j by (simp add: less_mult_imp_div_less mult.commute)
    then have "length (fmt_base b (n div b)) \<le> j"
      using 1(1,2) False j by simp
    then show ?thesis
      using False 1(2) j by (simp add: fmt_base.simps [of b n])
  qed
qed

end
