(* ===== verification/Reg_Proc.thy ===== *)
theory Reg_Proc
  imports Text_Fmt Samples
begin

text \<open>
  The text file \<open>/proc/xpregaccess<n>\<close> of a device (\<open>xp_pcie_slave.c\<close>): a command written to it reads
  or writes one register, and reading the file shows the result of the last command.

  \<open>buf\<close> is what the pointer of the caller shows as a C string; the code parses it without regard
  to \<open>bufsize\<close>. The result of the last command, \<open>reg_rw_status\<close>, is passed along with the device.
\<close>

definition REG_RW_STATUS_SIZE :: nat where "REG_RW_STATUS_SIZE = 200"
definition XPREG_PROC_FILE_PATH :: string where "XPREG_PROC_FILE_PATH = ''/proc/xpregaccess''"
definition NAME_STR_HELP :: string where "NAME_STR_HELP = ''help''"

definition reg_procfs_help :: "u32 \<Rightarrow> string \<Rightarrow> string" where
  "reg_procfs_help minor sf =
     (let f = XPREG_PROC_FILE_PATH @ fmt_d (sint minor) in
      sf @
      nl @ ''Usage: echo [OPTIONS] >'' @ f @ ''; cat '' @ f @ nl @ nl @
      ''1) To read register value.'' @ nl @
      tab @ ''echo r <regoffset> >'' @ f @ ''; cat '' @ f @
      nl @ tab @ ''ex1: echo r 0x25e82f4 >'' @ f @ ''; cat '' @ f @
      nl @ nl @ ''2) To write register value.'' @ nl @
      tab @ ''echo w <regoffset> <value> >'' @ f @ ''; cat '' @ f @
      nl @ tab @ ''ex1: echo w 0x25e82f4 0x12 >'' @ f @ ''; cat '' @ f @
      nl @ nl @ ''3) To print help.'' @ nl @
      tab @ ''echo help >'' @ f @ ''; cat '' @ f @ nl)"

definition xpreg_seq_show :: "u32 \<Rightarrow> string \<Rightarrow> string \<Rightarrow> string" where
  "xpreg_seq_show minor reg_rw_status sf =
     (if strnicmp_eq 4 reg_rw_status NAME_STR_HELP then reg_procfs_help minor sf
      else if length reg_rw_status < 1
        then reg_procfs_help minor (sf @ ''Invalid input. Please find help as below..'')
      else sf @ reg_rw_status @ nl)"

definition write_status :: "rc \<Rightarrow> u32 \<Rightarrow> u32 \<Rightarrow> string" where
  "write_status rc reg_index reg_value =
     snprintf (REG_RW_STATUS_SIZE - 1)
       (if rc = - EINVAL then ''Register write failed'' @ nl
        else ''Write register = 0x'' @ fmt_x (unat reg_index) @ '' value = 0x'' @ fmt_x (unat reg_value) @ nl)"

definition read_status :: "rc \<Rightarrow> u32 \<Rightarrow> u32 \<Rightarrow> string" where
  "read_status rc reg_index reg_value =
     snprintf (REG_RW_STATUS_SIZE - 1)
       (if rc = - EINVAL then ''Register read failed'' @ nl
        else ''Read register = 0x'' @ fmt_x (unat reg_index) @ '' value = 0x'' @ fmt_x (unat reg_value) @ nl)"

definition xpreg_proc_write :: "string \<Rightarrow> nat \<Rightarrow> xp_private \<Rightarrow> string \<Rightarrow> (nat \<times> xp_private \<times> string) option" where
  "xpreg_proc_write buf bufsize p reg_rw_status =
     (if bufsize = 0 then Some (bufsize, p, reg_rw_status)
      else
        case sscanf ''w 0x%x 0x%x'' buf of
          [reg_index, reg_value] \<Rightarrow>
            do { (rc, p) \<leftarrow> xp_dev_reg_write [reg_value] reg_index DWORD_SIZE p 1;
                 Some (bufsize, p, write_status rc reg_index reg_value) }
        | _ \<Rightarrow>
            (case sscanf ''r 0x%x'' buf of
               [reg_index] \<Rightarrow>
                 do { (rc, vs) \<leftarrow> xp_dev_reg_read [0] reg_index DWORD_SIZE p 1;
                      Some (bufsize, p, read_status rc reg_index (vs ! 0)) }
             | _ \<Rightarrow>
                 if strnicmp_eq 4 buf NAME_STR_HELP
                 then Some (bufsize, p, snprintf (REG_RW_STATUS_SIZE - 1) NAME_STR_HELP)
                 else Some (bufsize, p, [])))"

subsection \<open>Commands\<close>

definition w_command :: "u32 \<Rightarrow> u32 \<Rightarrow> string" where
  "w_command a v = ''w 0x'' @ fmt_x (unat a) @ '' 0x'' @ fmt_x (unat v) @ nl"

definition r_command :: "u32 \<Rightarrow> string" where
  "r_command a = ''r 0x'' @ fmt_x (unat a) @ nl"

lemma char_spaces [simp]:
  "\<not> isspace (CHR ''w'')" "\<not> isspace (CHR ''r'')" "\<not> isspace (CHR ''0'')" "\<not> isspace (CHR ''x'')"
  by (simp_all add: isspace_def)

lemma num_end_simps [simp]: "num_end nl" "num_end (CHR '' '' # s)"
  by (simp_all add: num_end_def nl_def isspace_def)

lemma scan_w_command: "sscanf ''w 0x%x 0x%x'' (w_command a v) = [a, v]"
  by (simp add: w_command_def sscanf_literal sscanf_blank sscanf_fmt_x)
    (simp add: sscanf.simps(1))

lemma scan_r_command: "sscanf ''w 0x%x 0x%x'' (r_command a) = []" "sscanf ''r 0x%x'' (r_command a) = [a]"
  by (simp_all add: r_command_def sscanf_mismatch sscanf_literal sscanf_blank sscanf_fmt_x sscanf.simps(1))

lemma status_fits:
  "read_status 0 a v = ''Read register = 0x'' @ fmt_x (unat a) @ '' value = 0x'' @ fmt_x (unat v) @ nl"
proof -
  have "length (fmt_x (unat w)) \<le> 8" for w :: u32
    using length_fmt_base [of 16 "unat w" 8] unsigned_less [of w] by (simp add: fmt_x_def)
  from this [of a] this [of v] show ?thesis
    by (simp add: read_status_def snprintf_def REG_RW_STATUS_SIZE_def nl_def)
qed

text \<open>
  C23: What is written to a register with \<open>echo w 0x<offset> 0x<value>\<close> is shown, by offset and value in
  hexadecimal, after \<open>echo r 0x<offset>\<close>; the second command does not change the device.
\<close>

theorem reg_file_write_then_read:
  assumes "\<not> tx_dma_read_lock p" "mmio_len p < 2 ^ 32" "unat a + 4 \<le> mmio_len p" "n \<noteq> 0" "k \<noteq> 0"
  shows "\<exists>p' st'. xpreg_proc_write (w_command a v) n p st = Some (n, p', st') \<and>
    (\<exists>st''. xpreg_proc_write (r_command a) k p' st' = Some (k, p', st'') \<and>
       xpreg_seq_show minor st'' [] =
         ''Read register = 0x'' @ fmt_x (unat a) @ '' value = 0x'' @ fmt_x (unat v) @ nl @ nl)"
proof -
  let ?p' = "p\<lparr>vma := put_words (vma p) (unat a) [v]\<rparr>"
  have "xp_dev_reg_write [v] a DWORD_SIZE p 1 = Some (0, ?p')"
    using reg_write_loop_dword [of p a 1 0 "[v]"] assms(1-3)
    by (simp add: xp_dev_reg_write_def BYTE_SIZE_def WORD_SIZE_def DWORD_SIZE_def)
  then have w: "xpreg_proc_write (w_command a v) n p st = Some (n, ?p', write_status 0 a v)"
    using assms(4) by (simp add: xpreg_proc_write_def scan_w_command)
  have "xp_dev_reg_read [0] a DWORD_SIZE ?p' 1 = Some (0, [v])"
    using reg_read_loop_dword [of ?p' a 1 0 "[0]"] assms(1-3) words_at_put_words [of "vma p" "unat a" "[v]"]
    by (simp add: xp_dev_reg_read_def BYTE_SIZE_def WORD_SIZE_def DWORD_SIZE_def)
  then have "xpreg_proc_write (r_command a) k ?p' st' = Some (k, ?p', read_status 0 a v)" for st'
    using assms(5) by (simp add: xpreg_proc_write_def scan_r_command)
  moreover have "xpreg_seq_show minor (read_status 0 a v) [] = read_status 0 a v @ nl"
    by (simp add: xpreg_seq_show_def status_fits strnicmp_eq_def NAME_STR_HELP_def to_lower_def)
  ultimately show ?thesis
    using w by (auto simp: status_fits)
qed

theorem reg_file_write_then_read_witness:
  "\<exists>p' st' st''. xpreg_proc_write (w_command 0x40 0x12) 12 (sample_priv XP_A0_UNCOMPRESSED) [] = Some (12, p', st') \<and>
     xpreg_proc_write (r_command 0x40) 7 p' st' = Some (7, p', st'') \<and>
     xpreg_seq_show 0 st'' [] = ''Read register = 0x'' @ fmt_x 0x40 @ '' value = 0x'' @ fmt_x 0x12 @ nl @ nl"
proof -
  let ?p = "sample_priv XP_A0_UNCOMPRESSED"
  have "\<not> tx_dma_read_lock ?p" "mmio_len ?p < 2 ^ 32" "unat (0x40 :: u32) + 4 \<le> mmio_len ?p" "(12 :: nat) \<noteq> 0" "(7 :: nat) \<noteq> 0"
    by (simp_all add: sample_priv_def)
  from reg_file_write_then_read [OF this, of "0x12" "[]" 0] show ?thesis
    by auto
qed

end
