(* ===== verification/Proc_Show.thy ===== *)
theory Proc_Show
  imports Text_Fmt Net_Priv Netdev_Intf
begin

text \<open>
  What the files under \<open>/proc/xpnet<n>\<close> show (\<open>xp_netdev_proc.c\<close> and the printing functions at the end
  of \<open>xp_netdev_intf.c\<close>), and the debug level that one of them sets.

  The text of a file is passed along and grows at its end. How the kernel prints a pointer and
  the names of the interfaces are arguments. Descriptors are formatted with \<open>sprintf\<close> in two fixed
  buffers: a text that does not fit has no meaning.
\<close>

record ptr_text =
  pt_desc :: "xpnet_queue_struct \<Rightarrow> nat \<Rightarrow> string"
  pt_va :: "xpnet_queue_struct \<Rightarrow> string"
  pt_sock :: "sock option \<Rightarrow> string"

definition DEBUG_BUF_SIZE :: nat where "DEBUG_BUF_SIZE = 256"

fun xpnet_enum_val :: "xpnet_enum \<Rightarrow> int" where
  "xpnet_enum_val XPNET_OK = 0"
| "xpnet_enum_val XPNET_QUEUE_TYPE_RX = 0x100"
| "xpnet_enum_val XPNET_QUEUE_TYPE_TX = 0x101"
| "xpnet_enum_val XPNET_REASON_TAILROOM = 0x102"
| "xpnet_enum_val XPNET_REASON_4KCROSS = 0x103"
| "xpnet_enum_val XPNET_REASON_SHORTPACKET = 0x104"
| "xpnet_enum_val XPNET_QUEUE_STOPPED = 0x105"
| "xpnet_enum_val XPNET_QUEUE_ACTIVE = 0x106"
| "xpnet_enum_val XPNET_QUEUE_RESET_PENDING = 0x107"
| "xpnet_enum_val XPNET_QUEUE_BUSY = 0x108"
| "xpnet_enum_val XPNET_QUEUE_ERROR = 0x109"
| "xpnet_enum_val XPNET_TYPE_MAX = 0x10A"

abbreviation fmt_i32 :: "u32 \<Rightarrow> string" where "fmt_i32 w \<equiv> fmt_d (sint w)"
abbreviation fmt_i64 :: "u64 \<Rightarrow> string" where "fmt_i64 w \<equiv> fmt_d (sint w)"

definition rule_line :: string where
  "rule_line = ''----------------------------------------------------'' @ nl"

subsection \<open>Descriptors\<close>

text \<open>\<open>sprintf(buf + chars, ...)\<close> when \<open>chars\<close> characters are there: the text and a zero must fit.\<close>

definition buf_print :: "nat \<Rightarrow> string \<Rightarrow> string \<Rightarrow> string option" where
  "buf_print cap s t = (if length s + length t < cap then Some (s @ t) else None)"

definition desc_word :: "xpnet_descriptor \<Rightarrow> nat \<Rightarrow> u64" where
  "desc_word v i = (if i = 0 then qword0 v else if i = 1 then qword1 v else if i = 2 then qword2 v else qword3 v)"

definition word_text :: "xpnet_descriptor \<Rightarrow> nat \<Rightarrow> string" where
  "word_text v i = ''['' @ fmt_u i @ '']='' @ fmt_alt_x 16 (unat (desc_word v i)) @ '' ''"

fun sprint_loop :: "nat \<Rightarrow> int \<Rightarrow> xpnet_descriptor \<Rightarrow> string \<Rightarrow> nat \<Rightarrow> nat \<Rightarrow> string option" where
  "sprint_loop cap bufsize v buf i 0 = Some buf"
| "sprint_loop cap bufsize v buf i (Suc k) =
     do { buf \<leftarrow> buf_print cap buf
            (if int (length buf) < bufsize - (23 + 1) then word_text v i else ''No space...'');
          sprint_loop cap bufsize v buf (Suc i) k }"

definition sprint_descriptor :: "nat \<Rightarrow> string \<Rightarrow> int \<Rightarrow> string \<Rightarrow> xpnet_descriptor \<Rightarrow> string \<Rightarrow> (int \<times> string) option" where
  "sprint_descriptor cap buf bufsize ptr v msg =
     (if bufsize < 18 then Some (0, buf)
      else do { buf \<leftarrow> buf_print cap [] (''('' @ ptr @ ''):'' @ msg);
                buf \<leftarrow> sprint_loop cap bufsize v buf 0 4;
                Some (int (length buf), buf) })"

fun desc_dump_loop ::
  "ptr_text \<Rightarrow> int \<Rightarrow> string \<Rightarrow> xpnet_queue_struct \<Rightarrow> string \<Rightarrow> string \<Rightarrow> nat \<Rightarrow> nat \<Rightarrow> (string \<times> string) option"
where
  "desc_dump_loop pt dblen ty q dest_buf sf i 0 = Some (dest_buf, sf)"
| "desc_dump_loop pt dblen ty q dest_buf sf i (Suc k) =
     do { v \<leftarrow> desc_get q i;
          local \<leftarrow> buf_print 64 [] (ty @ ''DESC['' @ fmt_d (int i) @ ''] : '');
          (_, dest_buf) \<leftarrow> sprint_descriptor DEBUG_BUF_SIZE dest_buf dblen (pt_desc pt q i) v local;
          desc_dump_loop pt dblen ty q dest_buf (sf @ dest_buf @ nl) (Suc i) k }"

definition queue_head :: "string \<Rightarrow> xpnet_queue_struct \<Rightarrow> nat \<Rightarrow> string" where
  "queue_head ty q qno =
     nl @ ty @ '' queue['' @ fmt_d (int qno) @ ''] : #of desc = '' @ fmt_i32 (xpq_num_desc q) @
     '', status = '' @ fmt_d (xpnet_enum_val (q_status q)) @ nl @
     (if xpq_type q = XPNET_QUEUE_TYPE_TX
      then ''head = '' @ fmt_i32 (q_head q) @ '', tail = '' @ fmt_i32 (q_tail q) @ nl else []) @
     rule_line"

definition descriptors_dump ::
  "ptr_text \<Rightarrow> xpnet_private \<Rightarrow> string \<Rightarrow> int \<Rightarrow> nat \<Rightarrow> xpnet_enum \<Rightarrow> string \<Rightarrow> (string \<times> string) option"
where
  "descriptors_dump pt net dest_buf dblen qno rxtx sf =
     (let qs = (if rxtx = XPNET_QUEUE_TYPE_TX then tx_queue net else rx_queue net);
          n = (if rxtx = XPNET_QUEUE_TYPE_TX then XPNET_TX_NUM_QUEUES else XPNET_RX_NUM_QUEUES);
          ty = (if rxtx = XPNET_QUEUE_TYPE_TX then ''DSTREAM-TX(host)'' else ''UPSTREAM-RX(host)'')
      in if qno \<ge> n then map_option (\<lambda>b. (b, sf)) (buf_print DEBUG_BUF_SIZE [] (''Invalid queue '' @ fmt_d (int qno)))
         else
           do { q \<leftarrow> arr_get qs qno;
                desc_dump_loop pt dblen ty q dest_buf (sf @ queue_head ty q qno) 0 (unat (xpq_num_desc q)) })"

subsection \<open>Registers and counters\<close>

definition dma_stats_dump :: "xpnet_private \<Rightarrow> string \<Rightarrow> string" where
  "dma_stats_dump net sf =
     (let s = stats net in
      sf @ nl @ ''RX-TX DMA statstastic'' @ nl @ rule_line @
      ''RX packets:'' @ fmt_i64 (rx_packets s) @ '' errors:'' @ fmt_i64 (rx_length_errors s) @ '' dropped:'' @ fmt_i64 (rx_dropped s) @ nl @
      ''TX packets:'' @ fmt_i64 (tx_packets s) @ '' errors:'' @ fmt_i64 (tx_aborted_errors s + tx_errors s) @
      '' dropped:'' @ fmt_i64 (tx_dropped s) @ nl @
      ''RX bytes:'' @ fmt_i64 (rx_bytes s) @ ''   TX bytes:'' @ fmt_i64 (tx_bytes s) @ nl)"

text \<open>
  The registers of \<open>common_registers_dump\<close> with the names it prints, in its order. Every read fills the
  variable \<open>regval\<close> completely.
\<close>

definition common_registers :: "(xp_register \<times> string) list" where
  "common_registers =
     [(MGMT_CTRL_REG_E, ''MGMT_CTRL_REG_E''),
      (CORE_CTRL_REG__1_E, ''CORE_CTRL_REG__1_E''),
      (TX_DMA0_RETRY_CNT_REG_E, ''XP_MGMT_LOCAL_REG_TX_DMA0_RETRY_CNT_REG''),
      (DMA0_CLR_ERR_CNT_REG_E, ''DMA0_CLR_ERR_CNT_REG''),
      (DMA0_TX_CHAIN_LEN_ERR_REG_E, ''DMA0_TX_CHAIN_LEN_ERR_REG''),
      (DMA0_TX_CPU_OWN_DESC_ERR_REG_E, ''DMA0_TX_CPU_OWN_DESC_ERR_REG''),
      (DMA0_TX_ZERO_BUF_LEN_ERR_REG_E, ''DMA0_TX_ZERO_BUF_LEN_ERR_REG''),
      (DMA0_TX_PCIE_ERR_REG_E, ''DMA0_TX_PCIE_ERR_REG''),
      (DMA0_TX_DMA_INTF_ERR_REG_E, ''DMA0_TX_DMA_INTF_ERR_REG''),
      (DMA0_TX_PKT_DROP_E, ''DMA0_TX_PKT_DROP''),
      (TX_DMA0_CFG_REGLOCKREG_E, ''XP_MGMT_TX_DMA0_CFG_REGLOCKREG''),
      (TX_DMA0_SCRATCHPAD_E, ''TX_DMA0_SCRATCHPAD''),
      (DMA0_RX_CHAIN_LEN_ERR_REG_E, ''DMA0_RX_CHAIN_LEN_ERR_REG''),
      (DMA0_RX_CPU_OWN_DESC_ERR_REG_E, ''DMA0_RX_CPU_OWN_DESC_ERR_REG''),
      (DMA0_RX_ZERO_BUF_LEN_ERR_REG_E, ''DMA0_RX_ZERO_BUF_LEN_ERR_REG''),
      (DMA0_RX_PCIE_ERR_REG_E, ''DMA0_RX_PCIE_ERR_REG''),
      (RX_DMA0_CFG_REGLOCKREG_E, ''XP_MGMT_RX_DMA0_CFG_REGLOCKREG''),
      (RX_DMA0_SCRATCHPAD_E, ''RX_DMA0_SCRATCHPAD'')]"

fun registers_dump :: "xpnet_private \<Rightarrow> (xp_register \<times> string) list \<Rightarrow> string \<Rightarrow> string option" where
  "registers_dump net [] sf = Some sf"
| "registers_dump net ((reg, name) # rs) sf =
     do { ws \<leftarrow> xp_dev_reg_read_q (pci_priv net) reg 1 [0] 0;
          registers_dump net rs (sf @ name @ '' = '' @ fmt_alt_x 10 (unat (ws ! 0)) @ nl) }"

definition common_registers_dump :: "xpnet_private \<Rightarrow> string \<Rightarrow> string option" where
  "common_registers_dump net sf = registers_dump net common_registers (sf @ ''DMA 0 registers'' @ nl @ rule_line)"

text \<open>The tests on \<open>qno\<close> let a queue number through that is one too large.\<close>

definition queue_reg_line :: "xpnet_private \<Rightarrow> xp_register \<Rightarrow> u8 \<Rightarrow> string \<Rightarrow> nat \<Rightarrow> string \<Rightarrow> string option" where
  "queue_reg_line net reg n name qno sf =
     do { ws \<leftarrow> xp_dev_reg_read_q (pci_priv net) reg n [0, 0] (of_nat qno);
          Some (sf @ name @ ''['' @ fmt_d (int qno) @ ''] = '' @ fmt_alt_x 16 (unat (join64 (ws ! 0) (ws ! 1))) @ nl) }"

definition queue_registers_dump :: "xpnet_private \<Rightarrow> nat \<Rightarrow> string \<Rightarrow> string option" where
  "queue_registers_dump net qno sf =
     do { let sf = sf @ nl @ ''UPSTREAM-RX(host) registers'' @ nl @ rule_line;
          sf \<leftarrow> (if qno \<le> XPNET_TX_NUM_QUEUES then
                   do { sf \<leftarrow> queue_reg_line net DMA0_TX_CDP_REG_E 2 ''DMA0_TX_CDP_REG'' qno sf;
                        queue_reg_line net DMA0_TX_CMD_REG_E 1 ''DMA0_TX_CMD_REG'' qno sf }
                 else Some sf);
          let sf = sf @ nl @ ''DSTREAM-TX(host) registers'' @ nl @ rule_line;
          (if qno \<le> XPNET_RX_NUM_QUEUES then
             do { sf \<leftarrow> queue_reg_line net DMA0_RX_CDP_REG_E 2 ''DMA0_RX_CDP_REG'' qno sf;
                  queue_reg_line net DMA0_RX_CMD_REG_E 1 ''DMA0_RX_CMD_REG'' qno sf }
           else Some sf) }"

text \<open>The counts of free and busy descriptors divide by the size of the ring.\<close>

definition internal_qstate_dump :: "ptr_text \<Rightarrow> xpnet_private \<Rightarrow> nat \<Rightarrow> string \<Rightarrow> string option" where
  "internal_qstate_dump pt net qno sf =
     do { rq \<leftarrow> (if qno < XPNET_RX_NUM_QUEUES then map_option Some (arr_get (rx_queue net) qno) else Some None);
          tq \<leftarrow> (if qno < XPNET_TX_NUM_QUEUES then map_option Some (arr_get (tx_queue net) qno) else Some None);
          let sf = sf @ nl @ ''UPSTREAM-RX(host)'' @ nl @ rule_line;
          let sf = (case rq of
                      None \<Rightarrow> sf
                    | Some q \<Rightarrow>
                        sf @ ''xpq_id = '' @ fmt_i32 (xpq_id q) @ nl @ ''xpq_num_desc = '' @ fmt_i32 (xpq_num_desc q) @ nl @
                        ''status = '' @ fmt_d (xpnet_enum_val (q_status q)) @ nl @
                        ''va = '' @ pt_va pt q @ '', dma = '' @ fmt_alt_x 18 (unat (q_dma q)) @ nl);
          let sf = sf @ nl @ ''DSTREAM-TX(host)'' @ nl @ rule_line;
          (case tq of
             None \<Rightarrow> Some sf
           | Some q \<Rightarrow>
               if xpq_num_desc q = 0 then None
               else Some (sf @ ''xpq_id = '' @ fmt_i32 (xpq_id q) @ nl @ ''xpq_num_desc = '' @ fmt_i32 (xpq_num_desc q) @ nl @
                          ''status = '' @ fmt_d (xpnet_enum_val (q_status q)) @ nl @
                          ''head '' @ fmt_i32 (q_head q) @ '', tail '' @ fmt_i32 (q_tail q) @ nl @
                          ''free desc '' @ fmt_i32 (xpnet_get_free_desc q) @ '', busy '' @ fmt_i32 (xpnet_get_busy_desc q) @ nl @
                          ''va = '' @ pt_va pt q @ '', dma = '' @ fmt_alt_x 18 (unat (q_dma q)) @ nl)) }"

definition xpnet_seq_show_header :: "xpnet_private \<Rightarrow> string \<Rightarrow> string" where
  "xpnet_seq_show_header net sf =
     sf @ ''DMA queue information'' @ nl @ rule_line @
     ''hw_flags = '' @ fmt_alt_x 0 (unat (hw_flags net)) @ nl @
     ''Base txqno = '' @ fmt_i32 (txqno net) @ '' '' @ nl @ ''Base rxqno = '' @ fmt_i32 (rxqno net) @ nl @
     ''Number of txqueues = '' @ fmt_i32 (num_txqueues net) @ nl @ ''Number of rxqueues = '' @ fmt_i32 (num_rxqueues net) @ nl"

subsection \<open>The files\<close>

definition xpnet_que_seq_show :: "ptr_text \<Rightarrow> xpnet_private \<Rightarrow> string \<Rightarrow> nat \<Rightarrow> string \<Rightarrow> (string \<times> string) option" where
  "xpnet_que_seq_show pt net debug_buffer que_no sf =
     do { sf \<leftarrow> common_registers_dump net (xpnet_seq_show_header net sf);
          sf \<leftarrow> queue_registers_dump net que_no sf;
          sf \<leftarrow> internal_qstate_dump pt net que_no sf;
          (debug_buffer, sf) \<leftarrow> descriptors_dump pt net debug_buffer (int DEBUG_BUF_SIZE) que_no XPNET_QUEUE_TYPE_RX sf;
          descriptors_dump pt net debug_buffer (int DEBUG_BUF_SIZE) que_no XPNET_QUEUE_TYPE_TX sf }"

definition xpnet_stats_seq_show :: "xpnet_private \<Rightarrow> string \<Rightarrow> string" where
  "xpnet_stats_seq_show net sf = dma_stats_dump net (xpnet_seq_show_header net sf)"

definition XP_DBG_GLOBAL :: u32 where "XP_DBG_GLOBAL = 1"
definition XP_DBG_FP :: u32 where "XP_DBG_FP = 2"

text \<open>The two debug levels, \<open>g_debug\<close> and \<open>xp_debug\<close>.\<close>

record debug_state =
  g_debug :: u32
  xp_debug :: u32

definition xp_debug_set :: "u32 \<Rightarrow> debug_state \<Rightarrow> debug_state" where
  "xp_debug_set md d = d\<lparr>xp_debug := md\<rparr>"

definition xpnet_debug_seq_show :: "debug_state \<Rightarrow> string \<Rightarrow> string" where
  "xpnet_debug_seq_show d sf = sf @ ''Debug level = ('' @ fmt_i32 (g_debug d) @ '')'' @ nl"

definition xpnet_debug_proc_write :: "string \<Rightarrow> nat \<Rightarrow> debug_state \<Rightarrow> nat \<times> debug_state" where
  "xpnet_debug_proc_write buf bufsize d =
     (if bufsize = 0 then (bufsize, d)
      else case sscanf ''%u'' buf of
             [val] \<Rightarrow> (bufsize, xp_debug_set (val AND XP_DBG_FP) (d\<lparr>g_debug := val AND XP_DBG_GLOBAL\<rparr>))
           | _ \<Rightarrow> (bufsize, d))"

subsection \<open>Interfaces\<close>

fun netdev_type_name :: "xp_netdev_type \<Rightarrow> string" where
  "netdev_type_name XP_FP_NETDEV = ''FP''"
| "netdev_type_name XP_ROUTER_NETDEV = ''ROUTER''"
| "netdev_type_name XP_LAG_NETDEV = ''LAG''"

definition tx_header_flag :: "xp_netdev_priv \<Rightarrow> string" where
  "tx_header_flag e = fmt_u (if is_tx_header_set e then 1 else 0)"

definition netdev_line :: "(nat \<Rightarrow> string) \<Rightarrow> nat \<Rightarrow> xp_netdev_priv \<Rightarrow> string" where
  "netdev_line name p e =
     '' - Netdev: '' @ field 8 (name p) @ '', xpnet_id: '' @ field 4 (fmt_u (unat (xpnet_intf_id e))) @
     '', vif/rif: '' @ field 5 (fmt_i32 (vif e)) @ '', tx header: '' @ tx_header_flag e @ nl"

definition active_line :: "(nat \<Rightarrow> string) \<Rightarrow> nat \<Rightarrow> xp_netdev_priv \<Rightarrow> string" where
  "active_line name p e =
     '' - Netdev: '' @ field 8 (name p) @ '', type: '' @ netdev_type_name (netdev_type e) @
     '', xpnet_id: '' @ field 4 (fmt_u (unat (xpnet_intf_id e))) @ '', vif: '' @ field 5 (fmt_i32 (vif e)) @
     '', tx header: '' @ tx_header_flag e @ nl"

text \<open>\<open>xphTxHdr\<close> on a little-endian machine: the bit fields of a byte start at its low end.\<close>

record xphTxHdr =
  th_ingressVifLsbByte2 :: u8
  th_ingressVifLsbByte1 :: u8
  th_egressVifLsbByte2 :: u8
  th_ingressVifLsbByte0 :: u8
  th_egressVifLsbByte1 :: u8
  th_egressVifLsbByte0 :: u8
  th_nextEngine :: u8

definition tx_hdr_of_bytes :: "u8 list \<Rightarrow> xphTxHdr" where
  "tx_hdr_of_bytes b =
     \<lparr>th_ingressVifLsbByte2 = b ! 11, th_ingressVifLsbByte1 = b ! 12,
      th_egressVifLsbByte2 = b ! 13 AND 0xF, th_ingressVifLsbByte0 = drop_bit 4 (b ! 13),
      th_egressVifLsbByte1 = b ! 14, th_egressVifLsbByte0 = b ! 15, th_nextEngine = b ! 16\<rparr>"

definition hdr_byte :: "u8 \<Rightarrow> string" where
  "hdr_byte b = ''0x'' @ field 2 (fmt_x (unat b))"

definition tx_header_lines :: "(nat \<Rightarrow> string) \<Rightarrow> nat \<Rightarrow> xp_netdev_priv \<Rightarrow> string" where
  "tx_header_lines name p e =
     (if is_tx_header_set e then
        let h = tx_hdr_of_bytes (tx_header e) in
        '' - Netdev: '' @ field 8 (name p) @ '', xpnet_id: '' @ field 4 (fmt_u (unat (xpnet_intf_id e))) @
        '', vif: '' @ field 5 (fmt_i32 (vif e)) @ nl @
        ''     EVIF: B0('' @ hdr_byte (th_egressVifLsbByte0 h) @ '') B1('' @ hdr_byte (th_egressVifLsbByte1 h) @
        '') B2('' @ hdr_byte (th_egressVifLsbByte2 h) @ ''); IVIF: B0('' @ hdr_byte (th_ingressVifLsbByte0 h) @
        '') B1('' @ hdr_byte (th_ingressVifLsbByte1 h) @ '') B2('' @ hdr_byte (th_ingressVifLsbByte2 h) @
        ''); NextEngine: '' @ hdr_byte (th_nextEngine h) @ nl @ nl
      else [])"

text \<open>One piece of text for every entry of a list of interfaces; a dangling entry has no meaning.\<close>

fun intf_print_loop ::
  "(nat \<Rightarrow> xp_netdev_priv \<Rightarrow> string) \<Rightarrow> (nat \<Rightarrow> xp_netdev_priv option) \<Rightarrow> nat list \<Rightarrow> string \<Rightarrow> string option"
where
  "intf_print_loop line h [] sf = Some sf"
| "intf_print_loop line h (p # ps) sf = do { e \<leftarrow> h p; intf_print_loop line h ps (sf @ line p e) }"

definition XP_HASH_BITS :: nat where "XP_HASH_BITS = 8"

definition xp_netdev_print :: "(nat \<Rightarrow> string) \<Rightarrow> xp_intf \<Rightarrow> string \<Rightarrow> (string \<times> xp_intf) option" where
  "xp_netdev_print name s sf =
     do { let sf = sf @ ''Netdev interfaces:'' @ nl @ rule_line;
          (flags, s) \<leftarrow> list_lock_irqsave s;
          sf \<leftarrow> intf_print_loop (netdev_line name) (nd_heap s) (xp_netdev_list s) sf;
          let sf = sf @ nl @ ''Active netdev interfaces:'' @ nl @ rule_line;
          sf \<leftarrow> intf_print_loop (active_line name) (nd_heap s) (concat (map (htable s) [0..<2 ^ XP_HASH_BITS])) sf;
          Some (sf, list_unlock_irqrestore flags s) }"

definition xp_netdev_tx_header_print :: "(nat \<Rightarrow> string) \<Rightarrow> xp_intf \<Rightarrow> string \<Rightarrow> (string \<times> xp_intf) option" where
  "xp_netdev_tx_header_print name s sf =
     do { let sf = sf @ ''Netdev interfaces:'' @ nl @ rule_line;
          (flags, s) \<leftarrow> list_lock_irqsave s;
          sf \<leftarrow> intf_print_loop (tx_header_lines name) (nd_heap s) (xp_netdev_list s) sf;
          Some (sf, list_unlock_irqrestore flags s) }"

subsection \<open>The trap table\<close>

definition ch_name :: "string list" where "ch_name = [''FD'', ''CB'', ''NETDEV'']"

definition trap_rule :: string where
  "trap_rule = ''|----------------------------------------------------|'' @ nl"

definition trap_line :: "ptr_text \<Rightarrow> xp_trap_config \<Rightarrow> string \<Rightarrow> string" where
  "trap_line pt c ch =
     ''|'' @ field 6 (fmt_x (unat (tc_trap_id c))) @ ''|'' @ field 4 (fmt_i32 (tc_rc c)) @ ''|'' @ field 4 (fmt_i32 (tc_fd c)) @
     ''|'' @ field 9 ch @ ''|'' @ field 14 (pt_sock pt (tc_sock_ptr c)) @ ''|'' @ field 10 (fmt_i32 (tc_rx_count c)) @ ''|'' @ nl"

fun trap_print_loop :: "ptr_text \<Rightarrow> xp_trap_config option list \<Rightarrow> string \<Rightarrow> string option" where
  "trap_print_loop pt [] sf = Some sf"
| "trap_print_loop pt (None # cs) sf = trap_print_loop pt cs sf"
| "trap_print_loop pt (Some c # cs) sf =
     do { ch \<leftarrow> arr_get ch_name (unat (tc_ch c)); trap_print_loop pt cs (sf @ trap_line pt c ch) }"

definition xp_trap_table_print :: "ptr_text \<Rightarrow> xp_trap_table option \<Rightarrow> sock option \<Rightarrow> string \<Rightarrow> (rc \<times> string) option" where
  "xp_trap_table_print pt tbl cb sf =
     (let sf = sf @ trap_rule @ ''|TrapId| RC | Fd | Channel | SockPtr      | rxPktCnt |'' @ nl @ trap_rule in
      case tbl of
        None \<Rightarrow> Some (- EPERM, sf)
      | Some t \<Rightarrow>
          if tt_lock t then None
          else do { sf \<leftarrow> trap_print_loop pt (tt_trap t) sf;
                    Some (0, sf @ trap_rule @ ''|SockPtr for CB channel is :'' @ field 17 (pt_sock pt cb) @ nl @ trap_rule) })"

end
