(* ===== verification/Proc_Props.thy ===== *)
theory Proc_Props
  imports Proc_Show Control_Props Samples
begin

text \<open>
  Properties of the files under \<open>/proc/xpnet<n>\<close>: reading the file of a queue never overruns the two
  buffers it is formatted in and shows every descriptor in full; the file of the trap table
  lists the traps, as long as their channels are known.
\<close>

subsection \<open>Lengths\<close>

lemma length_pad_left [simp]: "length (pad_left c w s) = max w (length s)"
  by (simp add: pad_left_def)

lemma length_fmt_u: "n < 10 \<Longrightarrow> length (fmt_u n) = 1"
  by (simp add: fmt_u_def fmt_base.simps)

lemma length_word_text: "i < 4 \<Longrightarrow> length (word_text v i) \<le> 23"
proof -
  have "length (fmt_x (unat w)) \<le> 16" for w :: u64
    using length_fmt_base [of 16 "unat w" 16] unsigned_less [of w] by (simp add: fmt_x_def)
  then show "i < 4 \<Longrightarrow> length (word_text v i) \<le> 23"
    by (simp add: word_text_def length_fmt_u fmt_alt_x_def)
qed

subsection \<open>Descriptors\<close>

definition desc_line :: "ptr_text \<Rightarrow> string \<Rightarrow> xpnet_queue_struct \<Rightarrow> nat \<Rightarrow> string" where
  "desc_line pt ty q i =
     ''('' @ pt_desc pt q i @ ''):'' @ ty @ ''DESC['' @ fmt_d (int i) @ ''] : '' @
     concat (map (word_text (the (desc_get q i))) [0..<4])"

definition desc_lines :: "ptr_text \<Rightarrow> string \<Rightarrow> xpnet_queue_struct \<Rightarrow> string" where
  "desc_lines pt ty q = concat (map (\<lambda>i. desc_line pt ty q i @ nl) [0..<10])"

lemma sprint_loop_ok:
  "i + k \<le> 4 \<Longrightarrow> length buf + 23 * k \<le> 232 \<Longrightarrow>
   sprint_loop 256 256 v buf i k = Some (buf @ concat (map (word_text v) [i..<i + k]))"
proof (induction k arbitrary: i buf)
  case (Suc k)
  have w: "length (word_text v i) \<le> 23"
    using Suc.prems(1) by (intro length_word_text) simp
  then have "sprint_loop 256 256 v (buf @ word_text v i) (Suc i) k =
      Some ((buf @ word_text v i) @ concat (map (word_text v) [Suc i..<Suc i + k]))"
    using Suc.prems by (intro Suc.IH) auto
  moreover have "[i..<i + Suc k] = i # [Suc i..<Suc i + k]"
    by (simp add: upt_rec)
  ultimately show ?case
    using Suc.prems(2) w by (simp add: buf_print_def)
qed simp

lemma desc_dump_step:
  assumes "length ty \<le> 17" "i < 10" "length (pt_desc pt q i) \<le> 18" "desc_get q i = Some v"
  shows "(do { local \<leftarrow> buf_print 64 [] (ty @ ''DESC['' @ fmt_d (int i) @ ''] : '');
               sprint_descriptor DEBUG_BUF_SIZE buf (int DEBUG_BUF_SIZE) (pt_desc pt q i) v local }) =
         Some (int (length (desc_line pt ty q i)), desc_line pt ty q i)"
proof -
  have d: "length (fmt_d (int i)) = 1"
    using assms(2) by (simp add: fmt_d_def length_fmt_u)
  let ?msg = "ty @ ''DESC['' @ fmt_d (int i) @ ''] : ''"
  let ?b = "''('' @ pt_desc pt q i @ ''):'' @ ?msg"
  have l: "length ?msg \<le> 27" "length ?b \<le> 48"
    using assms(1,3) d by simp_all
  have "sprint_loop 256 256 v ?b 0 4 = Some (?b @ concat (map (word_text v) [0..<0 + 4]))"
    using l by (intro sprint_loop_ok) simp_all
  then show ?thesis
    using l assms(4) by (simp add: sprint_descriptor_def buf_print_def DEBUG_BUF_SIZE_def desc_line_def)
qed

lemma desc_dump_loop_ok:
  assumes "ring_wf b q" "length ty \<le> 17" "\<And>i. length (pt_desc pt q i) \<le> 18"
  shows "i + k \<le> 10 \<Longrightarrow> \<exists>buf'. desc_dump_loop pt (int DEBUG_BUF_SIZE) ty q buf sf i k =
    Some (buf', sf @ concat (map (\<lambda>j. desc_line pt ty q j @ nl) [i..<i + k]))"
proof (induction k arbitrary: i buf sf)
  case (Suc k)
  obtain v where v: "desc_get q i = Some v"
    using ring.rd_total [OF assms(1), of i] Suc.prems by auto
  let ?l = "desc_line pt ty q i"
  have s: "(do { local \<leftarrow> buf_print 64 [] (ty @ ''DESC['' @ fmt_d (int i) @ ''] : '');
                 sprint_descriptor DEBUG_BUF_SIZE buf (int DEBUG_BUF_SIZE) (pt_desc pt q i) v local }) = Some (int (length ?l), ?l)"
    using Suc.prems by (intro desc_dump_step [OF assms(2) _ assms(3) v]) simp
  then have "desc_dump_loop pt (int DEBUG_BUF_SIZE) ty q buf sf i (Suc k) =
      desc_dump_loop pt (int DEBUG_BUF_SIZE) ty q ?l (sf @ ?l @ nl) (Suc i) k"
    using v by (auto split: Option.bind_splits)
  moreover have "[i..<i + Suc k] = i # [Suc i..<Suc i + k]"
    by (simp add: upt_rec)
  ultimately show ?case
    using Suc.IH [of "Suc i" ?l "sf @ ?l @ nl"] Suc.prems by auto
qed simp

lemma descriptors_dump_ok:
  assumes "ring_wf b q" "q = (if rxtx = XPNET_QUEUE_TYPE_TX then tx_queue net else rx_queue net) ! i" "i < 64"
    "length (tx_queue net) = 64" "length (rx_queue net) = 64" "\<And>i. length (pt_desc pt q i) \<le> 18"
    "ty = (if rxtx = XPNET_QUEUE_TYPE_TX then ''DSTREAM-TX(host)'' else ''UPSTREAM-RX(host)'')"
  shows "\<exists>buf'. descriptors_dump pt net buf (int DEBUG_BUF_SIZE) i rxtx sf = Some (buf', sf @ queue_head ty q i @ desc_lines pt ty q)"
proof -
  have g: "arr_get (if rxtx = XPNET_QUEUE_TYPE_TX then tx_queue net else rx_queue net) i = Some q"
    using assms(2-5) by simp
  have n: "unat (xpq_num_desc q) = 10" "length ty \<le> 17"
    using assms(1,7) by (simp_all add: ring_wf_def)
  have "desc_dump_loop pt (int DEBUG_BUF_SIZE) ty q buf (sf @ queue_head ty q i) 0 10 =
      descriptors_dump pt net buf (int DEBUG_BUF_SIZE) i rxtx sf"
    using g n(1) assms(3) unfolding descriptors_dump_def Let_def assms(7)
    by (simp add: XPNET_TX_NUM_QUEUES_def XPNET_RX_NUM_QUEUES_def)
  then show ?thesis
    using desc_dump_loop_ok [where i = 0 and k = 10, OF assms(1) n(2) assms(6), of buf "sf @ queue_head ty q i"]
    by (simp add: desc_lines_def)
qed

subsection \<open>Registers\<close>

definition reg_text :: "xpnet_private \<Rightarrow> (xp_register \<times> string) list \<Rightarrow> string" where
  "reg_text net rs =
     concat (map (\<lambda>(r, name). name @ '' = '' @
       fmt_alt_x 10 (unat (word_at (vma (pci_priv net)) (unat (q_reg_addr (mode (pci_priv net)) r 0)))) @ nl) rs)"

lemma registers_dump_ok:
  assumes "priv_wf (pci_priv net)" "\<not> tx_dma_read_lock (pci_priv net)"
  shows "\<forall>(r, n) \<in> set rs. q_reg_words r = 1 \<Longrightarrow> registers_dump net rs sf = Some (sf @ reg_text net rs)"
proof (induction rs arbitrary: sf)
  case (Cons x rs)
  obtain r n where x: "x = (r, n)"
    by (cases x)
  have "xp_dev_reg_read_q (pci_priv net) r 1 [0] 0 =
      Some [word_at (vma (pci_priv net)) (unat (q_reg_addr (mode (pci_priv net)) r 0))]"
    using locked.read_words [OF assms, of 0 1 r "[0]"] Cons.prems x by auto
  then show ?case
    using Cons x by (simp add: reg_text_def)
qed (simp add: reg_text_def)

lemma queue_reg_line_ok:
  assumes "priv_wf (pci_priv net)" "\<not> tx_dma_read_lock (pci_priv net)" "i < 64" "n = of_nat (q_reg_words r)"
  shows "\<exists>h. queue_reg_line net r n name i sf = Some (sf @ h)"
proof -
  have q: "(of_nat i :: u32) < 64"
    using assms(3) by (simp add: word_less_nat_alt unat_of_nat)
  have "q_reg_words r \<le> 2"
    by (cases r) simp_all
  then have "xp_dev_reg_read_q (pci_priv net) r n [0, 0] (of_nat i) \<noteq> None"
    using locked.read_words [OF assms(1,2) q refl, of r "[0, 0]"] assms(4) by simp
  then show ?thesis
    by (auto simp: queue_reg_line_def)
qed

lemma queue_registers_dump_ok:
  assumes "priv_wf (pci_priv net)" "\<not> tx_dma_read_lock (pci_priv net)" "i < 64"
  shows "\<exists>h. queue_registers_dump net i sf = Some (sf @ h)"
proof -
  have l: "\<exists>h. queue_reg_line net DMA0_TX_CDP_REG_E 2 name i s = Some (s @ h)"
    "\<exists>h. queue_reg_line net DMA0_TX_CMD_REG_E 1 name i s = Some (s @ h)"
    "\<exists>h. queue_reg_line net DMA0_RX_CDP_REG_E 2 name i s = Some (s @ h)"
    "\<exists>h. queue_reg_line net DMA0_RX_CMD_REG_E 1 name i s = Some (s @ h)" for name s
    using assms by (simp_all add: queue_reg_line_ok)
  let ?s0 = "sf @ nl @ ''UPSTREAM-RX(host) registers'' @ nl @ rule_line"
  obtain h1 where h1: "queue_reg_line net DMA0_TX_CDP_REG_E 2 ''DMA0_TX_CDP_REG'' i ?s0 = Some (?s0 @ h1)"
    using l(1) by blast
  obtain h2 where h2: "queue_reg_line net DMA0_TX_CMD_REG_E 1 ''DMA0_TX_CMD_REG'' i (?s0 @ h1) = Some ((?s0 @ h1) @ h2)"
    using l(2) by blast
  let ?s1 = "((?s0 @ h1) @ h2) @ nl @ ''DSTREAM-TX(host) registers'' @ nl @ rule_line"
  obtain h3 where h3: "queue_reg_line net DMA0_RX_CDP_REG_E 2 ''DMA0_RX_CDP_REG'' i ?s1 = Some (?s1 @ h3)"
    using l(3) by blast
  obtain h4 where h4: "queue_reg_line net DMA0_RX_CMD_REG_E 1 ''DMA0_RX_CMD_REG'' i (?s1 @ h3) = Some ((?s1 @ h3) @ h4)"
    using l(4) by blast
  show ?thesis
    using h1 h2 h3 h4 assms(3)
    by (simp add: queue_registers_dump_def XPNET_TX_NUM_QUEUES_def XPNET_RX_NUM_QUEUES_def)
qed

lemma internal_qstate_dump_ok:
  assumes "ring_wf b (tx_queue net ! i)" "i < 64" "length (tx_queue net) = 64" "length (rx_queue net) = 64"
  shows "\<exists>h. internal_qstate_dump pt net i sf = Some (sf @ h)"
  using assms by (simp add: internal_qstate_dump_def XPNET_TX_NUM_QUEUES_def XPNET_RX_NUM_QUEUES_def ring_wf_def)

subsection \<open>The file of a queue\<close>

text \<open>
  C24: Reading the file of a queue of a device that is up returns, without overrunning the buffer of
  256 bytes or the one of 64 bytes in which descriptors are formatted: the text shows the common
  registers with the values they hold, and all four words of all ten descriptors of the RX and of
  the TX ring. The kernel prints a pointer with at most 18 characters.
\<close>

theorem queue_file_shows_queue:
  assumes "priv_wf (pci_priv net)" "\<not> tx_dma_read_lock (pci_priv net)" "i < 64"
    "length (rx_queue net) = 64" "length (tx_queue net) = 64" "ring_wf b (rx_queue net ! i)" "ring_wf c (tx_queue net ! i)"
    "\<forall>q j. length (pt_desc pt q j) \<le> 18"
  shows "\<exists>buf' h. xpnet_que_seq_show pt net buf i sf =
    Some (buf', sf @ xpnet_seq_show_header net [] @ ''DMA 0 registers'' @ nl @ rule_line @ reg_text net common_registers @ h @
      queue_head ''UPSTREAM-RX(host)'' (rx_queue net ! i) i @ desc_lines pt ''UPSTREAM-RX(host)'' (rx_queue net ! i) @
      queue_head ''DSTREAM-TX(host)'' (tx_queue net ! i) i @ desc_lines pt ''DSTREAM-TX(host)'' (tx_queue net ! i))"
proof -
  let ?s0 = "sf @ xpnet_seq_show_header net [] @ ''DMA 0 registers'' @ nl @ rule_line @ reg_text net common_registers"
  have "\<forall>(r, n) \<in> set common_registers. q_reg_words r = 1"
    by (simp add: common_registers_def)
  then have s0: "common_registers_dump net (xpnet_seq_show_header net sf) = Some ?s0"
    using registers_dump_ok [OF assms(1,2), of common_registers] by (simp add: common_registers_dump_def xpnet_seq_show_header_def)
  obtain h1 where h1: "queue_registers_dump net i ?s0 = Some (?s0 @ h1)"
    using queue_registers_dump_ok [OF assms(1-3)] by blast
  obtain h2 where h2: "internal_qstate_dump pt net i (?s0 @ h1) = Some ((?s0 @ h1) @ h2)"
    using internal_qstate_dump_ok [OF assms(7,3,5,4)] by blast
  have pt: "length (pt_desc pt q j) \<le> 18" for q j
    using assms(8) by simp
  let ?s1 = "(?s0 @ h1) @ h2"
  let ?rx = "queue_head ''UPSTREAM-RX(host)'' (rx_queue net ! i) i @ desc_lines pt ''UPSTREAM-RX(host)'' (rx_queue net ! i)"
  obtain b1 where b1: "descriptors_dump pt net buf (int DEBUG_BUF_SIZE) i XPNET_QUEUE_TYPE_RX ?s1 = Some (b1, ?s1 @ ?rx)"
    using descriptors_dump_ok [of b "rx_queue net ! i" XPNET_QUEUE_TYPE_RX net i pt "''UPSTREAM-RX(host)''" buf ?s1, OF assms(6) _ assms(3,5,4) pt]
    by fastforce
  obtain b2 where b2: "descriptors_dump pt net b1 (int DEBUG_BUF_SIZE) i XPNET_QUEUE_TYPE_TX (?s1 @ ?rx) =
      Some (b2, (?s1 @ ?rx) @ queue_head ''DSTREAM-TX(host)'' (tx_queue net ! i) i @ desc_lines pt ''DSTREAM-TX(host)'' (tx_queue net ! i))"
    using descriptors_dump_ok [of c "tx_queue net ! i" XPNET_QUEUE_TYPE_TX net i pt "''DSTREAM-TX(host)''" b1 "?s1 @ ?rx", OF assms(7) _ assms(3,5,4) pt]
    by fastforce
  have "xpnet_que_seq_show pt net buf i sf =
      Some (b2, (?s1 @ ?rx) @ queue_head ''DSTREAM-TX(host)'' (tx_queue net ! i) i @ desc_lines pt ''DSTREAM-TX(host)'' (tx_queue net ! i))"
    unfolding xpnet_que_seq_show_def s0 bind.bind_lunit h1 h2 b1 prod.case b2 ..
  then show ?thesis
    by auto
qed

definition sample_ptr :: ptr_text where
  "sample_ptr = \<lparr>pt_desc = (\<lambda>_ _. ''0xffff880000000000''), pt_va = (\<lambda>_. ''0xffff880000000000''), pt_sock = (\<lambda>_. ''0xffff880000000000'')\<rparr>"

theorem queue_file_shows_queue_witness:
  "\<exists>buf' text. xpnet_que_seq_show sample_ptr (sample_net XP_B0_UNCOMPRESSED rx_idle tx_idle) [] 5 [] =
     Some (buf', text @ desc_lines sample_ptr ''DSTREAM-TX(host)'' tx_idle)"
proof -
  let ?n = "sample_net XP_B0_UNCOMPRESSED rx_idle tx_idle"
  have "priv_wf (pci_priv ?n)" "\<not> tx_dma_read_lock (pci_priv ?n)" "(5 :: nat) < 64" "length (rx_queue ?n) = 64"
    "length (tx_queue ?n) = 64" "ring_wf 16384 (rx_queue ?n ! 5)" "ring_wf 4096 (tx_queue ?n ! 5)"
    "\<forall>q j. length (pt_desc sample_ptr q j) \<le> 18"
    by (simp_all add: ring_wf_sample rx_idle_def tx_idle_def sample_ptr_def)
  from queue_file_shows_queue [OF this, of "[]" "[]"] obtain buf' h where
    "xpnet_que_seq_show sample_ptr ?n [] 5 [] =
      Some (buf', [] @ xpnet_seq_show_header ?n [] @ ''DMA 0 registers'' @ nl @ rule_line @ reg_text ?n common_registers @ h @
        queue_head ''UPSTREAM-RX(host)'' (rx_queue ?n ! 5) 5 @ desc_lines sample_ptr ''UPSTREAM-RX(host)'' (rx_queue ?n ! 5) @
        queue_head ''DSTREAM-TX(host)'' (tx_queue ?n ! 5) 5 @ desc_lines sample_ptr ''DSTREAM-TX(host)'' (tx_queue ?n ! 5))"
    by blast
  then show ?thesis
    by (intro exI [of _ buf'] exI) (simp del: append_assoc add: append_assoc [symmetric])
qed

subsection \<open>The files of the interfaces\<close>

lemma intf_print_loop_ok:
  "\<forall>p \<in> set ps. h p \<noteq> None \<Longrightarrow> intf_print_loop line h ps sf = Some (sf @ concat (map (\<lambda>p. line p (the (h p))) ps))"
  by (induction ps arbitrary: sf) auto

definition active_intfs :: "xp_intf \<Rightarrow> nat list" where
  "active_intfs s = concat (map (htable s) [0..<256])"

lemma active_intfs_ok:
  assumes "hash_ok hash s" "\<forall>k. hash k < 256"
  shows "distinct (active_intfs s)" "p \<in> set (active_intfs s) \<longleftrightarrow> (\<exists>e. nd_heap s p = Some e \<and> vif e \<noteq> XP_NO_VIF)"
proof -
  have "distinct (concat (map (htable s) [0..<n]))" for n
  proof (induction n)
    case (Suc n)
    have "set (htable s m) \<inter> set (htable s n) = {}" if "m < n" for m
      using assms(1) that by (fastforce simp: hash_ok_def)
    then show ?case
      using Suc assms(1) by (auto simp: hash_ok_def)
  qed simp
  then show "distinct (active_intfs s)"
    by (simp add: active_intfs_def)
  show "p \<in> set (active_intfs s) \<longleftrightarrow> (\<exists>e. nd_heap s p = Some e \<and> vif e \<noteq> XP_NO_VIF)"
    using assms by (auto simp: active_intfs_def hash_ok_def)
qed

text \<open>
  C25: In a state that the control messages can lead to, the file of the interfaces shows every
  interface in its first part and exactly the linked ones, each once, in its second part; the
  lists are followed without meeting a dangling entry, and the lock and the interrupt flag are as
  before.
\<close>

theorem interface_file_lists_interfaces:
  assumes "nl_reach hash s" "\<forall>k. hash k < 256"
  shows "\<exists>act. xp_netdev_print name s sf =
      Some (sf @ ''Netdev interfaces:'' @ nl @ rule_line @
            concat (map (\<lambda>p. netdev_line name p (the (nd_heap s p))) (xp_netdev_list s)) @
            nl @ ''Active netdev interfaces:'' @ nl @ rule_line @
            concat (map (\<lambda>p. active_line name p (the (nd_heap s p))) act), s) \<and>
    distinct act \<and> set act = {p. \<exists>e. nd_heap s p = Some e \<and> vif e \<noteq> XP_NO_VIF} \<and>
    set (xp_netdev_list s) = dom (nd_heap s) \<and> distinct (xp_netdev_list s)"
proof -
  have wf: "nd_wf hash s"
    using nl_reach_wf [OF assms(1)] by simp
  then have ok: "\<not> list_lock s" "heap_ok s" "hash_ok hash s"
    by (simp_all add: nd_wf_def)
  let ?s = "s\<lparr>list_lock := True, irqs_on := False\<rparr>"
  have "list_unlock_irqrestore (irqs_on s) ?s = s" "active_intfs ?s = active_intfs s"
    using ok(1) by (cases s; simp add: list_unlock_irqrestore_def active_intfs_def)+
  moreover have "\<forall>p \<in> set (xp_netdev_list s). nd_heap s p \<noteq> None" "\<forall>p \<in> set (active_intfs s). nd_heap s p \<noteq> None"
    using ok(2) active_intfs_ok(2) [OF ok(3) assms(2)] by (auto simp: heap_ok_def)
  ultimately have "xp_netdev_print name s sf =
      Some (sf @ ''Netdev interfaces:'' @ nl @ rule_line @
            concat (map (\<lambda>p. netdev_line name p (the (nd_heap s p))) (xp_netdev_list s)) @
            nl @ ''Active netdev interfaces:'' @ nl @ rule_line @
            concat (map (\<lambda>p. active_line name p (the (nd_heap s p))) (active_intfs s)), s)"
    using ok(1) by (simp add: xp_netdev_print_def list_lock_irqsave_def intf_print_loop_ok XP_HASH_BITS_def flip: active_intfs_def)
  then show ?thesis
    using active_intfs_ok [OF ok(3) assms(2)] ok(2) by (intro exI [of _ "active_intfs s"]) (auto simp: heap_ok_def)
qed

theorem interface_file_lists_interfaces_witness:
  "\<exists>text. xp_netdev_print (\<lambda>_. ''xp0'') sample_intf [] = Some (text, sample_intf)"
  using interface_file_lists_interfaces [OF sample_intf_reach [of "\<lambda>_. 0"], of "\<lambda>_. ''xp0''" "[]"] by auto

subsection \<open>The file of the trap table\<close>

lemma trap_print_loop_ok:
  "trap_print_loop pt cs sf =
     (if \<forall>c. Some c \<in> set cs \<longrightarrow> unat (tc_ch c) < 3
      then Some (sf @ concat (map (\<lambda>c. trap_line pt c (ch_name ! unat (tc_ch c))) (List.map_filter (\<lambda>x. x) cs))) else None)"
proof (induction pt cs sf rule: trap_print_loop.induct)
  case (3 pt c cs sf)
  have "arr_get ch_name (unat (tc_ch c)) = (if unat (tc_ch c) < 3 then Some (ch_name ! unat (tc_ch c)) else None)"
    by (simp add: arr_get_def ch_name_def)
  then show ?case
    using 3 by (auto simp: map_filter_simps)
qed (auto simp: map_filter_simps)

text \<open>
  C26: The file of the trap table lists every registered trap, in the order of the trap ids, with
  the name of its channel, exactly when all channels are among the three that have a name. The
  driver registers a trap without looking at the channel, and printing one with another channel
  reads past the array of names.
\<close>

theorem trap_file_lists_traps:
  assumes "trap_wf t"
  shows "xp_trap_table_print pt (Some t) cb sf =
    (if \<forall>c. Some c \<in> set (tt_trap t) \<longrightarrow> unat (tc_ch c) < 3
     then Some (0, sf @ trap_rule @ ''|TrapId| RC | Fd | Channel | SockPtr      | rxPktCnt |'' @ nl @ trap_rule @
            concat (map (\<lambda>c. trap_line pt c (ch_name ! unat (tc_ch c))) (List.map_filter (\<lambda>x. x) (tt_trap t))) @
            trap_rule @ ''|SockPtr for CB channel is :'' @ field 17 (pt_sock pt cb) @ nl @ trap_rule)
     else None)"
  using assms by (simp add: xp_trap_table_print_def trap_print_loop_ok trap_wf_def)

theorem trap_file_lists_traps_witness:
  "xp_trap_table_print sample_ptr
     (Some \<lparr>tt_lock = False, tt_trap = (replicate (XP_MAX_TRAP_ID + 1) None)[7 := Some \<lparr>tc_fd = 3, tc_rc = 5, tc_trap_id = 7,
        tc_rx_count = 0, tc_sock_ptr = None, tc_ch = 9\<rparr>], tt_rc_map = replicate (XP_MAX_REASON_CODE + 1) 7\<rparr>) None [] = None"
proof -
  let ?c = "\<lparr>tc_fd = 3, tc_rc = 5, tc_trap_id = 7, tc_rx_count = 0, tc_sock_ptr = None, tc_ch = 9\<rparr> :: xp_trap_config"
  let ?t = "\<lparr>tt_lock = False, tt_trap = (replicate (XP_MAX_TRAP_ID + 1) None)[7 := Some ?c],
      tt_rc_map = replicate (XP_MAX_REASON_CODE + 1) 7\<rparr> :: xp_trap_table"
  have c: "Some ?c \<in> set (tt_trap ?t)" "set (tt_trap ?t) \<subseteq> {Some ?c, None}"
    using set_update_subset_insert [of "replicate (XP_MAX_TRAP_ID + 1) None" 7 "Some ?c"]
    by (simp_all add: XP_MAX_TRAP_ID_def set_update_memI)
  then have "trap_wf ?t"
    by (auto simp: trap_wf_def XP_MAX_REASON_CODE_def)
  from trap_file_lists_traps [OF this, of sample_ptr None "[]"] c(1) show ?thesis
    by fastforce
qed

end
