(* ===== verification/Spec2Isabelle.thy ===== *)
theory Spec2Isabelle
  imports Device_Props Tx_Path Netdev_Init Irq Dma_Mem Control_Props Path_Props Life_Props Pci_Props Reg_Proc Proc_Props
begin

text \<open>
  \<^bold>\<open>Verification of the XPliant PCIe and network driver\<close> (\<open>src/xpnet\<close>, C, Linux kernel).

  \<^bold>\<open>The program.\<close> The driver binds to XPliant switch chips on the PCI bus. It has two halves.
  The \<^emph>\<open>device half\<close> (\<open>src/xp_pcie_slave.c\<close>) maps the registers of the chip, gives user space access
  to them through a character device and a text file, hands out DMA memory, and turns interrupts
  into signals for the application that manages the chip. The \<^emph>\<open>network half\<close> (\<open>src/xp_netdev_core.c\<close>,
  \<open>src/xp_netdev_intf.c\<close>, \<open>src/xp_netdev_proc.c\<close>) exchanges packets with the chip over 64 receive and 64
  transmit rings of ten descriptors each. Netlink messages from user space create network
  interfaces, link them to ports of the chip, set the header that is put before their packets,
  and fill the trap table, which says for every reason code whether a received packet goes to a
  socket, to a callback socket or to the interfaces. A work item polls the receive rings; the
  kernel calls the transmit function of an interface.

  \<^bold>\<open>The development.\<close> Every C function of these files that has an effect is a definition of the same
  name (a leading \<open>__\<close> is dropped, or \<open>_raw\<close> appended where both exist; the exported \<open>xp_packet_send\<close> is \<open>xp_pci_packet_send\<close>), every loop a recursive function of its own, and every
  structure a record with the fields the code uses. The theories follow the files:

  \<^item> \<open>XpPrelude\<close>: machine types, error numbers, arrays, byte order; the conventions of the model.
  \<^item> \<open>Reg_Info\<close>, \<open>Reg_Access\<close> (\<open>xp_reg_info.h\<close>, \<open>xp_dev_reg_read\<close>, \<open>xp_dev_reg_write\<close>, the queue accessors): the register
    map in three address modes and the accessors on BAR 0 as an array of bytes. The locale \<open>reg_rw\<close> is the contract of
    the locking and of the lock-free pair of accessors; both are interpretations of it.
  \<^item> \<open>Desc_Queue\<close>, \<open>Net_Priv\<close>, \<open>Queue_Init\<close>, \<open>Queue_Setup\<close> (first half of \<open>xp_netdev_core.c\<close>): descriptor rings, with the
    locale \<open>desc_ring\<close> for a descriptor area, the registers of a queue, and the life cycle of queues over an
    allocator that may fail at any call.
  \<^item> \<open>Skb\<close>, \<open>Tx_Path\<close> (\<open>xpnet_hard_start_xmit\<close>, \<open>xpnet_tx_complete\<close>, \<open>xpnet_start_xmit\<close>): transmission.
  \<^item> \<open>Trap_Table\<close>, \<open>Netdev_Intf\<close>, \<open>Netlink_Msg\<close> (\<open>xp_netdev_intf.c\<close>): the trap table with the locale \<open>trap_route\<close> for its
    abstract view, the interfaces on an explicit heap, every message handler, and the decoding of netlink packets.
  \<^item> \<open>Rx_Path\<close> (\<open>xpnet_rx_queue_process\<close> to \<open>xp_rx_skb_process\<close>): reception from the ring to sockets and interfaces.
  \<^item> \<open>Ndo_Ops\<close>, \<open>Netdev_Mode\<close>, \<open>Proc_Files\<close>, \<open>Netdev_Init\<close>: the operations of an interface, and bringing the network
    half up and down.
  \<^item> \<open>Irq\<close>: the interrupt tables and handlers.
  \<^item> \<open>User_Mem\<close>, \<open>Dma_Mem\<close>, \<open>Reg_Dev\<close>, \<open>Pci_Dev\<close>, \<open>Pci_Probe\<close>: user memory, the DMA memory device, the requests of
    the device node, the functions for other modules, probing, removing, loading and unloading.
  \<^item> \<open>Text_Fmt\<close>, \<open>Reg_Proc\<close>, \<open>Proc_Show\<close>: the kernel's text conversions, the register file, and what the other files show.
  \<^item> \<open>Samples\<close>: concrete configurations. \<open>Device_Props\<close>, \<open>Control_Props\<close>, \<open>Path_Props\<close>, \<open>Life_Props\<close>, \<open>Pci_Props\<close>,
    \<open>Proc_Props\<close> and the ends of \<open>Tx_Path\<close>, \<open>Dma_Mem\<close> and \<open>Reg_Proc\<close>: the properties, each applied at such a
    configuration.

  \<^bold>\<open>How the code is read.\<close> Words wrap as in C. \<open>None\<close> is undefined behaviour or no return: an access outside an
  array or through a null or dangling pointer, a division by zero, freeing what is not allocated, taking a
  lock that is held. A theorem that states \<open>Some\<close> therefore says that the code returns and does none of
  this. Result codes are integers, negative for errors. Function pointers that select an accessor are arguments of
  the definitions.

  What is outside the source is an argument or a field of the state: which allocations succeed and with which
  addresses, what the kernel answers to registrations, which bytes uninitialised memory holds, the hash function
  of the kernel's hash table, what the chip does to the descriptors while the driver waits (\<open>chip\<close>, constrained by
  \<open>chip_ok\<close> to giving descriptors back), and the length that is read from a freed packet (\<open>stale\<close>). Statements hold for
  all of them, under the named conditions of each theorem.

  \<^bold>\<open>What the theorems show.\<close>
  \<^item> Transmission: a packet that fits is in the buffers of consecutive descriptors, unchanged and with start and end
    marks, when the chip gets them; the packet is freed exactly when the kernel is told so; locks are released on
    every path; completion ends and takes back only what the chip has released; the header of an interface precedes
    its packets.
  \<^item> Reception: every finished packet reaches exactly the destinations its header selects, its descriptor returns to
    the chip, and the handler keeps all invariants.
  \<^item> Control: an invariant of every state that netlink traffic can lead to, a refinement of all handlers to operations
    on a table of interfaces, round trips of the message encoding, the routing by the trap table.
  \<^item> Life cycle: queues, network half, device and module come up completely or not at all, and going down gives back
    what coming up took, with the exceptions that are stated as such.
  \<^item> Registers and memory: accesses touch what they address and nothing else; user space reads back what it wrote
    through requests and through the text file; allocated DMA memory can be mapped and freed; reads of the
    configuration space stay inside it.
  \<^item> Interrupts: block fields are extracted correctly and reported in order; a DMA interrupt reports its queue.
  \<^item> Files: descriptors are formatted inside their buffers and completely; lists and tables are shown in full.
  \<^item> Faults: some theorems exhibit what the code does wrong, among them the overrun on a netlink packet of two messages, interrupts left
    disabled, a header sent twice, an overwritten buffer, kernel memory in registers.

  \<^bold>\<open>Bounds.\<close> Loops over the rings, tables and queues have the bounds of the code (10, 64, \<open>XPNET_MAX_ATTEMPTS\<close> = 50
  polls, 0x5001 traps) as recursion on the iterations left; the copying loops of the register requests and the
  splitting of a packet terminate by a measure. The decoding loop of netlink packets runs on the
  payload length with \<open>None\<close> for reading past the packet. The byte swap of A0 chips is a partial function, since its
  counter may leave the buffer; it is shown to return on every buffer that holds the words it swaps. There is no
  fuel that could run out.

  \<^bold>\<open>Not modelled.\<close> Interleavings of the handlers on several processors: locks are modelled as flags that must be free
  when taken, and each entry point runs to its end. Log messages. The assignment of names to interfaces and the
  \<open>seq_file\<close> glue of the \<open>open\<close> functions. The big-endian layouts of the headers. The branches for kernels before 3.10 of
  the removal of files. \<open>src/include/openXps*.h\<close> declares the interface of a library that is not part of the
  repository, and \<open>src/bin\<close>, \<open>src/lib\<close> and \<open>src/SAI\<close> hold binaries; there is no code to model.
\<close>

end
